(* ===== verification/Prelude.thy ===== *)
theory Prelude
  imports Complex_Main "HOL-Library.Word" "HOL-Library.AList"
begin

text \<open>
  Shared vocabulary of the development: the JavaScript run-time notions that the pool's
  TypeScript code uses everywhere.

  \<^item> A thrown exception is a value of \<open>js_error\<close>; a function that may throw returns
    \<open>'a res\<close>, i.e. \<open>js_error + 'a\<close> with \<open>Inl\<close> for the exception. Messages are
    the source's, with interpolated values left out.
  \<^item> A \<^verbatim>\<open>Uint8Array\<close> or \<^verbatim>\<open>Buffer\<close> is a list of 8-bit words; a \<^verbatim>\<open>number\<close> that only ever
    holds integers is an \<open>int\<close>; a \<^verbatim>\<open>bigint\<close> is an \<open>int\<close>; doubles are in
    \<open>Js_Number\<close>.
  \<^item> A JavaScript \<^verbatim>\<open>Map\<close> iterates in insertion order, so it is an association list with
    distinct keys (\<open>jsmap\<close>): \<open>set\<close> overwrites in place or appends, \<open>delete\<close> removes.
  The named collections \<open>js_simps\<close> (unfolding of run-time operations) and
  \<open>byte_simps\<close> (lengths and values of byte strings) carry the component proofs.
\<close>

named_theorems js_simps "unfolding equations of the JavaScript run-time operations"
named_theorems byte_simps "lengths and values of byte strings"

type_synonym byte = "8 word"
type_synonym bytes = "byte list"

section \<open>Exceptions\<close>

datatype js_error = Error string | RangeError | TypeError

type_synonym 'a res = "js_error + 'a"

text \<open>Sequencing: the continuation runs on the value, an exception propagates.\<close>

definition andthen :: "'a res \<Rightarrow> ('a \<Rightarrow> 'b res) \<Rightarrow> 'b res" where
  "andthen r f = (case r of Inl e \<Rightarrow> Inl e | Inr x \<Rightarrow> f x)"

text \<open>\<^verbatim>\<open>if (cond) throw new Error(msg);\<close> before the rest of the body.\<close>

definition throw_if :: "bool \<Rightarrow> js_error \<Rightarrow> 'a res \<Rightarrow> 'a res" where
  "throw_if c e rest = (if c then Inl e else rest)"

fun mapR :: "('a \<Rightarrow> 'b res) \<Rightarrow> 'a list \<Rightarrow> 'b list res" where
  "mapR f [] = Inr []"
| "mapR f (x # xs) = andthen (f x) (\<lambda>y. andthen (mapR f xs) (\<lambda>ys. Inr (y # ys)))"

section \<open>Typed arrays\<close>

text \<open>\<^verbatim>\<open>dst.set(src, off)\<close>: a \<^verbatim>\<open>RangeError\<close> when the source does not fit.\<close>

definition arr_set :: "bytes \<Rightarrow> bytes \<Rightarrow> nat \<Rightarrow> bytes res" where
  "arr_set dst src off =
     (if off + length src \<le> length dst
      then Inr (take off dst @ src @ drop (off + length src) dst)
      else Inl RangeError)"

text \<open>\<^verbatim>\<open>a.slice(i, j)\<close> and \<^verbatim>\<open>a.subarray(i, j)\<close> clamp both ends to the array.\<close>

definition slice :: "'a list \<Rightarrow> nat \<Rightarrow> nat \<Rightarrow> 'a list" where
  "slice xs i j = take (j - i) (drop i xs)"

text \<open>
  \<^verbatim>\<open>DataView.setUint{16,32}\<close>, \<^verbatim>\<open>setBigUint64\<close> and their getters, little-endian. The
  setters reduce modulo the width, as \<^verbatim>\<open>ToUint32\<close> does for integers.
\<close>

primrec le_bytes :: "nat \<Rightarrow> int \<Rightarrow> bytes" where
  "le_bytes 0 n = []"
| "le_bytes (Suc k) n = word_of_int n # le_bytes k (n div 256)"

primrec le_value :: "bytes \<Rightarrow> int" where
  "le_value [] = 0"
| "le_value (b # bs) = uint b + 256 * le_value bs"

section \<open>Insertion-ordered maps\<close>

type_synonym ('k, 'v) jsmap = "('k \<times> 'v) list"

abbreviation jsmap_get :: "('k, 'v) jsmap \<Rightarrow> 'k \<Rightarrow> 'v option" where
  "jsmap_get m k \<equiv> map_of m k"

abbreviation jsmap_set :: "'k \<Rightarrow> 'v \<Rightarrow> ('k, 'v) jsmap \<Rightarrow> ('k, 'v) jsmap" where
  "jsmap_set \<equiv> AList.update"

abbreviation jsmap_delete :: "'k \<Rightarrow> ('k, 'v) jsmap \<Rightarrow> ('k, 'v) jsmap" where
  "jsmap_delete \<equiv> AList.delete"

definition jsmap_keys :: "('k, 'v) jsmap \<Rightarrow> 'k list" where
  "jsmap_keys m = map fst m"

definition jsmap_wf :: "('k, 'v) jsmap \<Rightarrow> bool" where
  "jsmap_wf m \<longleftrightarrow> distinct (map fst m)"

section \<open>Lemmas on exceptions\<close>

lemma andthen_Inr [simp]: "andthen (Inr x) f = f x"
  by (simp add: andthen_def)

lemma andthen_Inl [simp]: "andthen (Inl e) f = Inl e"
  by (simp add: andthen_def)

lemma andthen_eq_Inr: "andthen r f = Inr y \<longleftrightarrow> (\<exists>x. r = Inr x \<and> f x = Inr y)"
  by (auto simp: andthen_def split: sum.splits)

lemma andthen_eq_Inl: "andthen r f = Inl e \<longleftrightarrow> r = Inl e \<or> (\<exists>x. r = Inr x \<and> f x = Inl e)"
  by (auto simp: andthen_def split: sum.splits)

lemma andthen_cong [fundef_cong]:
  "r = r' \<Longrightarrow> (\<And>x. r' = Inr x \<Longrightarrow> f x = g x) \<Longrightarrow> andthen r f = andthen r' g"
  by (simp add: andthen_def split: sum.split)

lemma throw_if_simps [simp]:
  "throw_if True e r = Inl e" "throw_if False e r = r"
  by (simp_all add: throw_if_def)

lemma throw_if_eq_Inr: "throw_if c e r = Inr y \<longleftrightarrow> \<not> c \<and> r = Inr y"
  by (simp add: throw_if_def)

lemma mapR_eq_Inr_length: "mapR f xs = Inr ys \<Longrightarrow> length ys = length xs"
  by (induction xs arbitrary: ys) (auto simp: andthen_eq_Inr)

lemma mapR_Inr [simp]: "(\<And>x. x \<in> set xs \<Longrightarrow> f x = Inr (g x)) \<Longrightarrow> mapR f xs = Inr (map g xs)"
  by (induction xs) auto

lemmas res_elims = andthen_eq_Inr throw_if_eq_Inr

section \<open>Lemmas on typed arrays\<close>

lemma arr_set_fits [simp]:
  "off + length src \<le> length dst \<Longrightarrow>
   arr_set dst src off = Inr (take off dst @ src @ drop (off + length src) dst)"
  by (simp add: arr_set_def)

lemma arr_set_length: "arr_set dst src off = Inr out \<Longrightarrow> length out = length dst"
  by (auto simp: arr_set_def split: if_splits)

lemma length_slice [simp, byte_simps]: "length (slice xs i j) = min (j - i) (length xs - i)"
  by (simp add: slice_def)

lemma slice_append1 [simp]: "slice (xs @ ys) 0 (length xs) = xs"
  by (simp add: slice_def)

lemma slice_full [simp]: "slice xs 0 (length xs) = xs"
  by (simp add: slice_def)

lemma length_le_bytes [simp, byte_simps]: "length (le_bytes k n) = k"
  by (induction k arbitrary: n) auto

lemma le_value_nonneg [simp]: "0 \<le> le_value bs"
  by (induction bs) auto

lemma le_value_bound: "le_value bs < 256 ^ length bs"
proof (induction bs)
  case (Cons b bs)
  have "uint b < 256" using uint_lt2p [of b] by simp
  with Cons.IH show ?case by simp
qed simp

lemma uint_byte_of_int [simp]: "uint (word_of_int n :: byte) = n mod 256"
  by (simp add: uint_word_of_int)

lemma unat_byte_less: "unat (b :: byte) < 256"
  using unsigned_less [where 'a = nat and w = b] by simp

lemma le_value_le_bytes: "le_value (le_bytes k n) = n mod 256 ^ k"
proof (induction k arbitrary: n)
  case (Suc k)
  have "n mod 256 + 256 * (n div 256 mod 256 ^ k) = n mod (256 * 256 ^ k)"
    by (simp add: mod_mult2_eq' zmod_zmult2_eq)
  with Suc show ?case by simp
qed simp

lemma le_value_le_bytes_id [simp]:
  "0 \<le> n \<Longrightarrow> n < 256 ^ k \<Longrightarrow> le_value (le_bytes k n) = n"
  by (simp add: le_value_le_bytes)

lemma le_bytes_le_value [simp]: "le_bytes (length bs) (le_value bs) = bs"
proof (induction bs)
  case (Cons b bs)
  have b: "uint b < 256" using uint_lt2p [of b] by simp
  have "(uint b + 256 * le_value bs) div 256 = le_value bs"
    using b by simp
  moreover have "(word_of_int (uint b + 256 * le_value bs) :: byte) = b"
  proof (rule word_uint_eqI)
    have "uint (word_of_int (uint b + 256 * le_value bs) :: byte) = (uint b + 256 * le_value bs) mod 256"
      by (rule uint_byte_of_int)
    also have "\<dots> = uint b" using b by simp
    finally show "uint (word_of_int (uint b + 256 * le_value bs) :: byte) = uint b" .
  qed
  ultimately show ?case using Cons.IH by simp
qed simp

lemma le_bytes_inj:
  "le_bytes k m = le_bytes k n \<longleftrightarrow> m mod 256 ^ k = n mod 256 ^ k"
  by (metis le_bytes_le_value le_value_le_bytes length_le_bytes)

section \<open>Lemmas on insertion-ordered maps\<close>

lemma jsmap_wf_Nil [simp]: "jsmap_wf []"
  by (simp add: jsmap_wf_def)

lemma jsmap_wf_set [simp]: "jsmap_wf m \<Longrightarrow> jsmap_wf (jsmap_set k v m)"
  by (simp add: jsmap_wf_def distinct_update)

lemma jsmap_wf_delete [simp]: "jsmap_wf m \<Longrightarrow> jsmap_wf (jsmap_delete k m)"
  by (simp add: jsmap_wf_def distinct_delete)

lemma jsmap_wf_tl: "jsmap_wf (p # m) \<Longrightarrow> jsmap_wf m"
  by (simp add: jsmap_wf_def)

lemma jsmap_get_set: "jsmap_get (jsmap_set k v m) k' = (if k' = k then Some v else jsmap_get m k')"
  by (simp add: update_conv')

lemma jsmap_get_delete:
  "jsmap_get (jsmap_delete k m) k' = (if k' = k then None else jsmap_get m k')"
  by (simp add: delete_conv')

lemma jsmap_set_fresh: "jsmap_get m k = None \<Longrightarrow> jsmap_set k v m = m @ [(k, v)]"
  by (induction m) auto

lemma jsmap_delete_head [simp]:
  "jsmap_wf ((k, v) # m) \<Longrightarrow> jsmap_delete k ((k, v) # m) = m"
  by (force simp: jsmap_wf_def AList.delete_eq filter_id_conv)

lemma jsmap_set_length:
  "length (jsmap_set k v m) = (if jsmap_get m k = None then Suc (length m) else length m)"
  by (induction m) auto

lemma jsmap_get_Some_mem: "jsmap_get m k = Some v \<Longrightarrow> (k, v) \<in> set m"
  by (rule map_of_SomeD)

lemma map_filter_append: "List.map_filter f (xs @ ys) = List.map_filter f xs @ List.map_filter f ys"
  by (simp add: List.map_filter_def)

end
