(* ===== verification/Js_Number.thy ===== *)
theory Js_Number
  imports Prelude
begin

text \<open>
  The JavaScript \<^verbatim>\<open>number\<close>: an IEEE 754 binary64. A finite double is the rational it denotes;
  every arithmetic operation is the exact rational operation followed by \<open>to_num\<close>,
  round-to-nearest-even with gradual underflow and overflow to infinity. The two zeros are one
  value (the modelled code never divides by a zero it could have produced with a sign).

  \<open>rnd\<close> is the rounding on rationals. The locale \<open>rounding\<close> is the interface the
  components rely on (monotone, odd, idempotent) with the clamping lemmas the difficulty and
  payout code needs; \<open>dbl\<close> interprets it on \<open>rnd\<close>. The error bound is
  \<open>rnd_error\<close>.
\<close>

section \<open>Rounding to binary64\<close>

datatype jsnum = NaN | PosInf | NegInf | Fin rat

fun ilog2 :: "nat \<Rightarrow> nat" where
  "ilog2 n = (if n < 2 then 0 else Suc (ilog2 (n div 2)))"

declare ilog2.simps [simp del]

definition clog2 :: "nat \<Rightarrow> nat" where
  "clog2 n = (if n \<le> 1 then 0 else Suc (ilog2 (n - 1)))"

text \<open>The exponent of the leading bit of a positive rational.\<close>

definition flog2 :: "rat \<Rightarrow> int" where
  "flog2 x = (if 1 \<le> x then int (ilog2 (nat \<lfloor>x\<rfloor>)) else - int (clog2 (nat \<lceil>1 / x\<rceil>)))"

definition ulp_exp :: "rat \<Rightarrow> int" where
  "ulp_exp x = max (flog2 x - 52) (- 1074)"

text \<open>Nearest integer, ties to even.\<close>

definition rne :: "rat \<Rightarrow> int" where
  "rne x = (let f = \<lfloor>x\<rfloor>; d = x - of_int f
            in if d < 1 / 2 \<or> (d = 1 / 2 \<and> even f) then f else f + 1)"

definition rnd_pos :: "rat \<Rightarrow> rat" where
  "rnd_pos x = of_int (rne (x / 2 powi ulp_exp x)) * 2 powi ulp_exp x"

definition rnd :: "rat \<Rightarrow> rat" where
  "rnd x = (if x = 0 then 0 else if 0 < x then rnd_pos x else - rnd_pos (- x))"

definition to_num :: "rat \<Rightarrow> jsnum" where
  "to_num x = (let r = rnd x in
     if 2 ^ 1024 \<le> r then PosInf else if r \<le> - (2 ^ 1024) then NegInf else Fin r)"

text \<open>The rationals that are doubles (leaving overflow aside).\<close>

definition representable :: "rat \<Rightarrow> bool" where
  "representable x \<longleftrightarrow> (\<exists>m e. - 1074 \<le> e \<and> \<bar>m\<bar> \<le> 2 ^ 53 \<and> x = of_int m * 2 powi e)"

section \<open>Operators\<close>

fun js_neg :: "jsnum \<Rightarrow> jsnum" where
  "js_neg (Fin a) = Fin (- a)"
| "js_neg PosInf = NegInf"
| "js_neg NegInf = PosInf"
| "js_neg NaN = NaN"

fun js_add :: "jsnum \<Rightarrow> jsnum \<Rightarrow> jsnum" where
  "js_add NaN _ = NaN"
| "js_add _ NaN = NaN"
| "js_add PosInf NegInf = NaN"
| "js_add NegInf PosInf = NaN"
| "js_add PosInf _ = PosInf"
| "js_add _ PosInf = PosInf"
| "js_add NegInf _ = NegInf"
| "js_add _ NegInf = NegInf"
| "js_add (Fin a) (Fin b) = to_num (a + b)"

definition js_sub :: "jsnum \<Rightarrow> jsnum \<Rightarrow> jsnum" where
  "js_sub a b = js_add a (js_neg b)"

definition signed_inf :: "rat \<Rightarrow> jsnum" where
  "signed_inf s = (if s = 0 then NaN else if 0 < s then PosInf else NegInf)"

fun js_mul :: "jsnum \<Rightarrow> jsnum \<Rightarrow> jsnum" where
  "js_mul NaN _ = NaN"
| "js_mul _ NaN = NaN"
| "js_mul (Fin a) (Fin b) = to_num (a * b)"
| "js_mul (Fin a) PosInf = signed_inf a"
| "js_mul (Fin a) NegInf = signed_inf (- a)"
| "js_mul PosInf (Fin b) = signed_inf b"
| "js_mul NegInf (Fin b) = signed_inf (- b)"
| "js_mul PosInf PosInf = PosInf"
| "js_mul NegInf NegInf = PosInf"
| "js_mul _ _ = NegInf"

fun js_div :: "jsnum \<Rightarrow> jsnum \<Rightarrow> jsnum" where
  "js_div NaN _ = NaN"
| "js_div _ NaN = NaN"
| "js_div (Fin a) (Fin b) = (if b = 0 then signed_inf a else to_num (a / b))"
| "js_div (Fin a) _ = Fin 0"
| "js_div PosInf (Fin b) = (if b < 0 then NegInf else PosInf)"
| "js_div NegInf (Fin b) = (if b < 0 then PosInf else NegInf)"
| "js_div _ _ = NaN"

text \<open>Comparisons are false as soon as one side is \<^verbatim>\<open>NaN\<close>.\<close>

fun js_lt :: "jsnum \<Rightarrow> jsnum \<Rightarrow> bool" where
  "js_lt (Fin a) (Fin b) = (a < b)"
| "js_lt NegInf (Fin b) = True"
| "js_lt NegInf PosInf = True"
| "js_lt (Fin a) PosInf = True"
| "js_lt _ _ = False"

fun js_le :: "jsnum \<Rightarrow> jsnum \<Rightarrow> bool" where
  "js_le (Fin a) (Fin b) = (a \<le> b)"
| "js_le NegInf (Fin b) = True"
| "js_le NegInf PosInf = True"
| "js_le NegInf NegInf = True"
| "js_le PosInf PosInf = True"
| "js_le (Fin a) PosInf = True"
| "js_le _ _ = False"

definition js_num_eq :: "jsnum \<Rightarrow> jsnum \<Rightarrow> bool" where
  "js_num_eq a b \<longleftrightarrow> a \<noteq> NaN \<and> a = b"

fun js_is_finite :: "jsnum \<Rightarrow> bool" where
  "js_is_finite (Fin a) = True"
| "js_is_finite _ = False"

fun js_abs :: "jsnum \<Rightarrow> jsnum" where
  "js_abs (Fin a) = Fin \<bar>a\<bar>"
| "js_abs NaN = NaN"
| "js_abs _ = PosInf"

definition js_min :: "jsnum \<Rightarrow> jsnum \<Rightarrow> jsnum" where
  "js_min a b = (if a = NaN \<or> b = NaN then NaN else if js_lt b a then b else a)"

text \<open>\<^verbatim>\<open>Math.round\<close>: ties towards plus infinity; the result of a finite double is an integer.\<close>

fun js_round :: "jsnum \<Rightarrow> jsnum" where
  "js_round (Fin a) = Fin (of_int \<lfloor>a + 1 / 2\<rfloor>)"
| "js_round x = x"

fun js_floor :: "jsnum \<Rightarrow> jsnum" where
  "js_floor (Fin a) = Fin (of_int \<lfloor>a\<rfloor>)"
| "js_floor x = x"

text \<open>\<^verbatim>\<open>Number(n)\<close> of a bigint, and \<^verbatim>\<open>BigInt(x)\<close>, which throws unless \<open>x\<close> is an integer.\<close>

definition num_of_bigint :: "int \<Rightarrow> jsnum" where
  "num_of_bigint n = to_num (of_int n)"

fun bigint_of_num :: "jsnum \<Rightarrow> int res" where
  "bigint_of_num (Fin a) = (if of_int \<lfloor>a\<rfloor> = a then Inr \<lfloor>a\<rfloor> else Inl RangeError)"
| "bigint_of_num _ = Inl RangeError"

text \<open>
  \<^verbatim>\<open>x.toFixed(8)\<close> is the decimal with eight fraction digits nearest to the exact value of
  the double (of two such, the larger magnitude), for \<open>\<bar>x\<bar> < 10\<^sup>2\<^sup>1\<close>; \<open>fixed8\<close> is the
  rational that decimal denotes. Larger arguments print as \<^verbatim>\<open>String(x)\<close>, which reads back
  as \<open>x\<close>.
\<close>

definition fixed8 :: "rat \<Rightarrow> rat" where
  "fixed8 x = (if 10 ^ 21 \<le> \<bar>x\<bar> then x
     else sgn x * of_int \<lfloor>\<bar>x\<bar> * 10 ^ 8 + 1 / 2\<rfloor> / 10 ^ 8)"

text \<open>\<^verbatim>\<open>Number(x.toFixed(8))\<close>.\<close>

fun num_fixed8 :: "jsnum \<Rightarrow> jsnum" where
  "num_fixed8 (Fin x) = to_num (fixed8 x)"
| "num_fixed8 x = x"

section \<open>Binary logarithm\<close>

lemma ilog2_bounds: "0 < n \<Longrightarrow> 2 ^ ilog2 n \<le> n \<and> n < 2 ^ Suc (ilog2 n)"
proof (induction n rule: ilog2.induct)
  case (1 n)
  show ?case
  proof (cases "n < 2")
    case True
    with 1 show ?thesis by (simp add: ilog2.simps [of n])
  next
    case False
    with 1 have "2 ^ ilog2 (n div 2) \<le> n div 2" "n div 2 < 2 ^ Suc (ilog2 (n div 2))"
      by auto
    with False show ?thesis by (auto simp: ilog2.simps [of n])
  qed
qed

lemma clog2_bounds: "1 < n \<Longrightarrow> 2 ^ (clog2 n - 1) < n \<and> n \<le> 2 ^ clog2 n \<and> 0 < clog2 n"
  using ilog2_bounds [of "n - 1"] by (auto simp: clog2_def)

lemma powi_2_pos [simp]: "0 < (2 :: rat) powi e"
  by (simp add: zero_less_power_int)

lemma powi_2_add: "(2 :: rat) powi (a + b) = 2 powi a * 2 powi b"
  by (simp add: power_int_add)

lemma powi_2_mono: "a \<le> b \<Longrightarrow> (2 :: rat) powi a \<le> 2 powi b"
  by (simp add: power_int_increasing)

lemma powi_2_le_iff [simp]: "(2 :: rat) powi a \<le> 2 powi b \<longleftrightarrow> a \<le> b"
  using powi_2_mono [of a b] power_int_strict_increasing [of b a "2 :: rat"]
  by (auto simp: not_le [symmetric])

lemma powi_2_less_iff [simp]: "(2 :: rat) powi a < 2 powi b \<longleftrightarrow> a < b"
  by (simp flip: not_le)

lemma flog2_bounds_ge1:
  assumes "1 \<le> x"
  shows "2 powi flog2 x \<le> x \<and> x < 2 powi (flog2 x + 1)"
proof -
  define n where "n = nat \<lfloor>x\<rfloor>"
  have fl: "1 \<le> \<lfloor>x\<rfloor>" using assms by simp
  then have n: "0 < n" "int n = \<lfloor>x\<rfloor>" by (auto simp: n_def)
  from ilog2_bounds [OF n(1)] have lo: "2 ^ ilog2 n \<le> n" and hi: "n + 1 \<le> 2 ^ Suc (ilog2 n)"
    by auto
  have "(of_nat (2 ^ ilog2 n) :: rat) \<le> of_nat n" using lo by (rule of_nat_mono)
  also have "of_nat n = (of_int \<lfloor>x\<rfloor> :: rat)" using n(2) by (metis of_int_of_nat_eq)
  also have "\<dots> \<le> x" by simp
  finally have 1: "(2 :: rat) ^ ilog2 n \<le> x" by simp
  have "x < of_int \<lfloor>x\<rfloor> + 1" by linarith
  also have "\<dots> = of_nat (n + 1)" using n(2) by (metis of_int_of_nat_eq of_nat_add of_nat_1)
  also have "\<dots> \<le> of_nat (2 ^ Suc (ilog2 n))" using hi by (rule of_nat_mono)
  finally have 2: "x < (2 :: rat) ^ Suc (ilog2 n)" by simp
  have "flog2 x = int (ilog2 n)" using assms by (simp add: flog2_def n_def)
  then show ?thesis
    using 1 2 by (metis of_nat_Suc add.commute power_int_of_nat)
qed

lemma flog2_bounds_lt1:
  assumes "0 < x" "x < 1"
  shows "2 powi flog2 x \<le> x \<and> x < 2 powi (flog2 x + 1)"
proof -
  define n where "n = nat \<lceil>1 / x\<rceil>"
  have inv: "1 < 1 / x" using assms by simp
  then have n: "1 < n" "int n = \<lceil>1 / x\<rceil>" by (auto simp: n_def)
  define k where "k = clog2 n"
  from clog2_bounds [OF n(1)] have lo: "2 ^ (k - 1) < n" and hi: "n \<le> 2 ^ k" and k0: "0 < k"
    by (auto simp: k_def)
  have nx: "of_nat n = (of_int \<lceil>1 / x\<rceil> :: rat)" using n(2) by (metis of_int_of_nat_eq)
  have "1 / x \<le> of_nat n" by (simp add: nx)
  also have "\<dots> \<le> of_nat (2 ^ k)" using hi by (rule of_nat_mono)
  finally have 1: "1 / x \<le> 2 ^ k" by simp
  have "(of_nat (2 ^ (k - 1)) :: rat) \<le> of_nat (n - 1)" using lo by (intro of_nat_mono) auto
  also have "\<dots> = of_int \<lceil>1 / x\<rceil> - 1" using n nx by (simp add: of_nat_diff)
  also have "\<dots> < 1 / x" by linarith
  finally have 2: "2 ^ (k - 1) < 1 / x" by simp
  have fl: "flog2 x = - int k" using assms by (simp add: flog2_def n_def k_def)
  have "2 powi (- int k) \<le> x"
    using 1 assms(1) by (simp add: power_int_minus field_simps)
  moreover have "x < 2 powi (- int k + 1)"
  proof -
    have "- int k + 1 = - int (k - 1)" using k0 by simp
    moreover have "x < 2 powi (- int (k - 1))"
      using 2 assms(1) by (simp add: power_int_minus field_simps)
    ultimately show ?thesis by metis
  qed
  ultimately show ?thesis by (simp add: fl)
qed

lemma flog2_bounds: "0 < x \<Longrightarrow> 2 powi flog2 x \<le> x \<and> x < 2 powi (flog2 x + 1)"
  using flog2_bounds_ge1 flog2_bounds_lt1 by (cases "1 \<le> x") auto

lemma flog2_mono: "0 < x \<Longrightarrow> x \<le> y \<Longrightarrow> flog2 x \<le> flog2 y"
proof -
  assume x: "0 < x" and xy: "x \<le> y"
  have "2 powi flog2 x \<le> x" "y < 2 powi (flog2 y + 1)"
    using flog2_bounds [of x] flog2_bounds [of y] x xy by auto
  with xy have "(2 :: rat) powi flog2 x < 2 powi (flog2 y + 1)" by linarith
  then show "flog2 x \<le> flog2 y" by simp
qed

lemma flog2_less: "0 < x \<Longrightarrow> x < 2 powi e \<Longrightarrow> flog2 x < e"
  using flog2_bounds [of x] by (metis le_less_trans powi_2_less_iff)

section \<open>Rounding\<close>

lemma rne_bounds: "x - 1 / 2 \<le> of_int (rne x) \<and> of_int (rne x) \<le> x + 1 / 2"
proof -
  have "of_int \<lfloor>x\<rfloor> \<le> x" "x < of_int \<lfloor>x\<rfloor> + 1" by linarith+
  then show ?thesis unfolding rne_def Let_def by (simp add: field_simps) linarith
qed

lemma rne_of_int [simp]: "rne (of_int n) = n"
  by (simp add: rne_def)

lemma rne_floor: "rne x = \<lfloor>x\<rfloor> \<or> rne x = \<lfloor>x\<rfloor> + 1"
  by (simp add: rne_def Let_def)

lemma rne_mono: "x \<le> y \<Longrightarrow> rne x \<le> rne y"
proof -
  assume xy: "x \<le> y"
  then have fl: "\<lfloor>x\<rfloor> \<le> \<lfloor>y\<rfloor>" by (rule floor_mono)
  show "rne x \<le> rne y"
  proof (cases "\<lfloor>x\<rfloor> = \<lfloor>y\<rfloor>")
    case True
    with xy show ?thesis unfolding rne_def Let_def by auto
  next
    case False
    with fl have "\<lfloor>x\<rfloor> + 1 \<le> \<lfloor>y\<rfloor>" by simp
    with rne_floor [of x] rne_floor [of y] show ?thesis by auto
  qed
qed

lemma rne_ge: "of_int n \<le> x \<Longrightarrow> n \<le> rne x"
  using rne_mono [of "of_int n" x] by simp

lemma rne_le: "x \<le> of_int n \<Longrightarrow> rne x \<le> n"
  using rne_mono [of x "of_int n"] by simp

lemma ulp_exp_mono: "0 < x \<Longrightarrow> x \<le> y \<Longrightarrow> ulp_exp x \<le> ulp_exp y"
  using flog2_mono [of x y] by (auto simp: ulp_exp_def)

lemma scaled_upper: "0 < x \<Longrightarrow> x / 2 powi ulp_exp x < 2 ^ 53"
proof -
  assume x: "0 < x"
  have "x < 2 powi (flog2 x + 1)" using flog2_bounds [OF x] by simp
  also have "\<dots> \<le> 2 powi (ulp_exp x + 53)" unfolding powi_2_le_iff by (simp add: ulp_exp_def)
  also have "\<dots> = 2 ^ 53 * 2 powi ulp_exp x" by (simp add: powi_2_add)
  finally show ?thesis by (simp add: field_simps)
qed

lemma scaled_lower:
  assumes "0 < x" "- 1074 < ulp_exp x"
  shows "2 ^ 52 \<le> x / 2 powi ulp_exp x"
proof -
  have "flog2 x = ulp_exp x + 52" using assms(2) by (simp add: ulp_exp_def)
  then have "2 powi (ulp_exp x + 52) \<le> x" using flog2_bounds [OF assms(1)] by metis
  then show ?thesis by (simp add: powi_2_add field_simps)
qed

lemma rne_scaled_le: "0 < x \<Longrightarrow> rne (x / 2 powi ulp_exp x) \<le> 2 ^ 53"
  using scaled_upper [of x] by (intro rne_le) simp

lemma rnd_pos_nonneg [simp]: "0 < x \<Longrightarrow> 0 \<le> rnd_pos x"
  unfolding rnd_pos_def by (intro mult_nonneg_nonneg) (auto intro!: rne_ge)

lemma rnd_pos_mono:
  assumes x: "0 < x" and xy: "x \<le> y"
  shows "rnd_pos x \<le> rnd_pos y"
proof (cases "ulp_exp x = ulp_exp y")
  case True
  have "x / 2 powi ulp_exp y \<le> y / 2 powi ulp_exp y"
    using xy by (simp add: divide_right_mono less_imp_le)
  then have "of_int (rne (x / 2 powi ulp_exp y)) \<le> (of_int (rne (y / 2 powi ulp_exp y)) :: rat)"
    by (simp add: rne_mono)
  then show ?thesis unfolding rnd_pos_def True by (intro mult_right_mono) (auto simp: less_imp_le)
next
  case False
  with ulp_exp_mono [OF x xy] have less: "ulp_exp x + 1 \<le> ulp_exp y" by simp
  have y: "0 < y" using x xy by simp
  have "- 1074 < ulp_exp y" using less by (simp add: ulp_exp_def)
  then have "2 ^ 52 \<le> rne (y / 2 powi ulp_exp y)"
    using scaled_lower [OF y] by (intro rne_ge) simp
  then have "(of_int (2 ^ 52) :: rat) \<le> of_int (rne (y / 2 powi ulp_exp y))"
    by (simp only: of_int_le_iff)
  then have hi: "2 ^ 52 * 2 powi ulp_exp y \<le> rnd_pos y"
    unfolding rnd_pos_def by (intro mult_right_mono) (auto simp: less_imp_le)
  have "(of_int (rne (x / 2 powi ulp_exp x)) :: rat) \<le> of_int (2 ^ 53)"
    using rne_scaled_le [OF x] by (simp only: of_int_le_iff)
  then have "rnd_pos x \<le> 2 ^ 53 * 2 powi ulp_exp x"
    unfolding rnd_pos_def by (intro mult_right_mono) (auto simp: less_imp_le)
  also have "\<dots> = 2 ^ 52 * 2 powi (ulp_exp x + 1)" by (simp add: powi_2_add)
  also have "\<dots> \<le> 2 ^ 52 * 2 powi ulp_exp y" using less by (intro mult_left_mono) auto
  finally show ?thesis using hi by simp
qed

lemma rnd_zero [simp]: "rnd 0 = 0"
  by (simp add: rnd_def)

lemma rnd_minus: "rnd (- x) = - rnd x"
  by (simp add: rnd_def)

lemma rnd_nonneg: "0 \<le> x \<Longrightarrow> 0 \<le> rnd x"
  by (simp add: rnd_def)

lemma rnd_mono: "x \<le> y \<Longrightarrow> rnd x \<le> rnd y"
proof -
  assume xy: "x \<le> y"
  consider "0 < x" | "x \<le> 0" "0 \<le> y" | "y < 0" by linarith
  then show "rnd x \<le> rnd y"
  proof cases
    case 1
    with xy show ?thesis using rnd_pos_mono [of x y] by (simp add: rnd_def)
  next
    case 2
    then have "0 \<le> rnd (- x)" "0 \<le> rnd y" by (auto intro: rnd_nonneg)
    then show ?thesis by (simp add: rnd_minus)
  next
    case 3
    with xy show ?thesis using rnd_pos_mono [of "- y" "- x"] by (simp add: rnd_def)
  qed
qed

lemma representable_minus: "representable z \<Longrightarrow> representable (- z)"
proof -
  assume "representable z"
  then obtain m e where "- 1074 \<le> e" "\<bar>m\<bar> \<le> 2 ^ 53" "z = of_int m * 2 powi e"
    by (auto simp: representable_def)
  then show ?thesis unfolding representable_def
    by (intro exI [of _ "- m"] exI [of _ e]) simp
qed

lemma representable_rnd: "representable (rnd x)"
proof -
  have pos: "representable (rnd_pos z)" if z: "0 < z" for z
  proof -
    have "0 \<le> rne (z / 2 powi ulp_exp z)" using z by (intro rne_ge) simp
    with rne_scaled_le [OF z] show ?thesis
      unfolding representable_def rnd_pos_def
      by (intro exI [of _ "rne (z / 2 powi ulp_exp z)"] exI [of _ "ulp_exp z"])
        (simp add: ulp_exp_def)
  qed
  have "representable 0"
    unfolding representable_def by (intro exI [of _ 0] exI [of _ 0]) simp
  with pos show ?thesis by (auto simp: rnd_def intro: representable_minus)
qed

lemma rnd_pos_exact:
  assumes x: "0 < x" and e: "- 1074 \<le> e" and m: "m < 2 ^ 53" and xe: "x = of_int m * 2 powi e"
  shows "rnd_pos x = x"
proof -
  have "(of_int m :: rat) < of_int (2 ^ 53)" using m by (simp only: of_int_less_iff)
  then have "x < 2 powi (53 + e)" by (simp add: xe powi_2_add)
  then have "flog2 x < 53 + e" by (rule flog2_less [OF x])
  then have ue: "ulp_exp x \<le> e" using e by (simp add: ulp_exp_def)
  define d where "d = nat (e - ulp_exp x)"
  have "2 powi e = 2 ^ d * (2 :: rat) powi ulp_exp x"
  proof -
    have "e = int d + ulp_exp x" using ue by (simp add: d_def)
    then show ?thesis by (metis powi_2_add power_int_of_nat)
  qed
  then have "x = of_int (m * 2 ^ d) * 2 powi ulp_exp x" by (subst xe) simp
  then have "x / 2 powi ulp_exp x = of_int (m * 2 ^ d)"
    by (metis nonzero_mult_div_cancel_right powi_2_pos less_irrefl)
  then show ?thesis unfolding rnd_pos_def by (simp only: rne_of_int) (simp add: field_simps)
qed

lemma rnd_exact: "representable x \<Longrightarrow> rnd x = x"
proof -
  have pos: "rnd_pos z = z" if z: "0 < z" and r: "representable z" for z
  proof -
    from r obtain m e where e: "- 1074 \<le> e" and m: "\<bar>m\<bar> \<le> 2 ^ 53" and ze: "z = of_int m * 2 powi e"
      by (auto simp: representable_def)
    show ?thesis
    proof (cases "m < 2 ^ 53")
      case True
      with z e ze show ?thesis by (intro rnd_pos_exact [where e = e and m = m]) auto
    next
      case False
      with m have m53: "m = 2 ^ 53" by simp
      have "z = of_int (2 ^ 52) * 2 powi (e + 1)" by (simp add: ze m53 powi_2_add)
      then show ?thesis using z e by (intro rnd_pos_exact [where e = "e + 1" and m = "2 ^ 52"]) auto
    qed
  qed
  assume r: "representable x"
  then have "representable (- x)" by (rule representable_minus)
  with r pos [of x] pos [of "- x"] show "rnd x = x" by (auto simp: rnd_def)
qed

lemma rnd_idem [simp]: "rnd (rnd x) = rnd x"
  by (rule rnd_exact [OF representable_rnd])

lemma representable_of_int: "\<bar>n\<bar> \<le> 2 ^ 53 \<Longrightarrow> representable (of_int n)"
  unfolding representable_def by (intro exI [of _ n] exI [of _ 0]) simp

lemma rnd_of_int [simp]: "\<bar>n\<bar> \<le> 2 ^ 53 \<Longrightarrow> rnd (of_int n) = of_int n"
  by (rule rnd_exact [OF representable_of_int])

text \<open>Relative error of half an ulp for values in the normal range.\<close>

lemma rnd_pos_error:
  assumes x: "0 < x" and norm: "2 powi (- 1022) \<le> x"
  shows "\<bar>rnd_pos x - x\<bar> \<le> x / 2 ^ 53"
proof -
  have "- 1022 < flog2 x + 1"
  proof -
    have "(2 :: rat) powi (- 1022) < 2 powi (flog2 x + 1)" using norm flog2_bounds [OF x] by linarith
    then show ?thesis by (simp only: powi_2_less_iff)
  qed
  then have ue: "flog2 x = ulp_exp x + 52" by (simp add: ulp_exp_def)
  define u where "u = (2 :: rat) powi ulp_exp x"
  have u0: "0 < u" by (simp add: u_def)
  have "x = x / u * u" using u0 by simp
  then have "rnd_pos x - x = (of_int (rne (x / u)) - x / u) * u"
    unfolding rnd_pos_def u_def [symmetric] by (simp add: left_diff_distrib)
  moreover have "\<bar>of_int (rne (x / u)) - x / u\<bar> \<le> 1 / 2"
    using rne_bounds [of "x / u"] by linarith
  ultimately have "\<bar>rnd_pos x - x\<bar> \<le> 1 / 2 * u"
    using u0 by (simp add: abs_mult mult_right_mono)
  also have "2 ^ 52 * u \<le> x"
    using flog2_bounds [OF x] by (simp add: ue powi_2_add u_def mult.commute)
  then have "1 / 2 * u \<le> x / 2 ^ 53" by (simp add: field_simps)
  finally show ?thesis .
qed

lemma rnd_error: "2 powi (- 1022) \<le> \<bar>x\<bar> \<Longrightarrow> \<bar>rnd x - x\<bar> \<le> \<bar>x\<bar> / 2 ^ 53"
proof -
  assume n: "2 powi (- 1022) \<le> \<bar>x\<bar>"
  then have x: "x \<noteq> 0" using powi_2_pos [of "- 1022"] by linarith
  then consider "0 < x" | "x < 0" by linarith
  then show ?thesis
  proof cases
    case 1
    with n rnd_pos_error [of x] show ?thesis by (simp add: rnd_def)
  next
    case 2
    with n rnd_pos_error [of "- x"] have "\<bar>rnd_pos (- x) - (- x)\<bar> \<le> - x / 2 ^ 53" by simp
    with 2 show ?thesis by (simp add: rnd_def abs_minus_commute)
  qed
qed

section \<open>The rounding interface\<close>

locale rounding =
  fixes r :: "rat \<Rightarrow> rat"
  assumes r_mono: "x \<le> y \<Longrightarrow> r x \<le> r y"
    and r_idem: "r (r x) = r x"
    and r_odd: "r (- x) = - r x"
begin

lemma r_zero: "r 0 = 0"
  using r_odd [of 0] by simp

lemma r_nonneg: "0 \<le> x \<Longrightarrow> 0 \<le> r x"
  using r_mono [of 0 x] by (simp add: r_zero)

text \<open>A bound that is itself a double survives rounding.\<close>

lemma r_le_fixed: "x \<le> b \<Longrightarrow> r b = b \<Longrightarrow> r x \<le> b"
  using r_mono [of x b] by simp

lemma r_ge_fixed: "b \<le> x \<Longrightarrow> r b = b \<Longrightarrow> b \<le> r x"
  using r_mono [of b x] by simp

text \<open>Scaling a double by a factor of at most one does not increase it.\<close>

lemma r_mult_le: "0 \<le> a \<Longrightarrow> c \<le> 1 \<Longrightarrow> r a = a \<Longrightarrow> r (a * c) \<le> a"
  by (rule r_le_fixed) (auto simp: mult_left_le)

lemma r_mult_ge: "0 \<le> a \<Longrightarrow> 1 \<le> c \<Longrightarrow> r a = a \<Longrightarrow> a \<le> r (a * c)"
  by (rule r_ge_fixed) (auto simp: mult_le_cancel_left1 mult.commute)

end

interpretation dbl: rounding rnd
  by unfold_locales (auto simp: rnd_mono rnd_minus)

section \<open>Finite results\<close>

lemma to_num_Fin: "to_num x = Fin y \<Longrightarrow> y = rnd x"
  by (auto simp: to_num_def Let_def split: if_splits)

lemma to_num_finite: "\<bar>rnd x\<bar> < 2 ^ 1024 \<Longrightarrow> to_num x = Fin (rnd x)"
  by (auto simp: to_num_def Let_def)

lemma to_num_not_NaN [simp]: "to_num x \<noteq> NaN"
  by (simp add: to_num_def Let_def)

lemma rnd_pow1024 [simp]: "rnd (2 ^ 1024) = 2 ^ 1024"
proof (rule rnd_exact)
  show "representable (2 ^ 1024)"
    unfolding representable_def by (intro exI [of _ 1] exI [of _ 1024]) simp
qed

lemma to_num_of_int: "\<bar>n\<bar> \<le> 2 ^ 53 \<Longrightarrow> to_num (of_int n) = Fin (of_int n)"
proof -
  assume n: "\<bar>n\<bar> \<le> 2 ^ 53"
  have "\<bar>of_int n\<bar> \<le> (of_int (2 ^ 53) :: rat)" using n by (simp only: of_int_abs [symmetric] of_int_le_iff)
  also have "\<dots> < 2 ^ 1024" by simp
  finally show ?thesis using n by (simp add: to_num_finite)
qed

lemma num_of_bigint_small: "\<bar>n\<bar> \<le> 2 ^ 53 \<Longrightarrow> num_of_bigint n = Fin (of_int n)"
  by (simp add: num_of_bigint_def to_num_of_int)

lemma js_lt_irrefl [simp]: "\<not> js_lt x x"
  by (cases x) auto

lemma js_is_finite_iff: "js_is_finite x \<longleftrightarrow> (\<exists>a. x = Fin a)"
  by (cases x) auto

end
