(* ===== verification/Js_String.thy ===== *)
theory Js_String
  imports Js_Number
begin

text \<open>
  The string operations of the language that the pool uses: hexadecimal printing
  (\<^verbatim>\<open>toString(16)\<close>, \<^verbatim>\<open>padStart\<close>), \<^verbatim>\<open>parseInt(s, 16)\<close>, case conversion, trimming and
  searching. Strings are character lists over ASCII: case conversion and the set of white space
  characters are those of the ASCII range.
\<close>

section \<open>Characters\<close>

definition code :: "char \<Rightarrow> nat" where
  "code c = of_char c"

definition hex_digit :: "nat \<Rightarrow> char" where
  "hex_digit d = char_of (if d < 10 then 48 + d else 87 + d)"

definition hex_val :: "char \<Rightarrow> nat option" where
  "hex_val c = (let n = code c in
     if 48 \<le> n \<and> n \<le> 57 then Some (n - 48)
     else if 97 \<le> n \<and> n \<le> 102 then Some (n - 87)
     else if 65 \<le> n \<and> n \<le> 70 then Some (n - 55)
     else None)"

definition is_space :: "char \<Rightarrow> bool" where
  "is_space c \<longleftrightarrow> (let n = code c in n = 32 \<or> (9 \<le> n \<and> n \<le> 13))"

definition lower_char :: "char \<Rightarrow> char" where
  "lower_char c = (let n = code c in if 65 \<le> n \<and> n \<le> 90 then char_of (n + 32) else c)"

definition upper_char :: "char \<Rightarrow> char" where
  "upper_char c = (let n = code c in if 97 \<le> n \<and> n \<le> 122 then char_of (n - 32) else c)"

section \<open>Strings\<close>

definition to_lower :: "string \<Rightarrow> string" where
  "to_lower s = map lower_char s"

definition to_upper :: "string \<Rightarrow> string" where
  "to_upper s = map upper_char s"

definition trim_start :: "string \<Rightarrow> string" where
  "trim_start s = dropWhile is_space s"

definition trim :: "string \<Rightarrow> string" where
  "trim s = rev (dropWhile is_space (rev (dropWhile is_space s)))"

definition starts_with :: "string \<Rightarrow> string \<Rightarrow> bool" where
  "starts_with s p \<longleftrightarrow> take (length p) s = p"

definition pad_start :: "nat \<Rightarrow> char \<Rightarrow> string \<Rightarrow> string" where
  "pad_start n c s = replicate (n - length s) c @ s"

text \<open>\<^verbatim>\<open>s.indexOf(ch)\<close> and \<^verbatim>\<open>s.lastIndexOf(ch)\<close> for one character; \<open>None\<close> is \<open>-1\<close>.\<close>

fun index_of :: "char \<Rightarrow> string \<Rightarrow> nat option" where
  "index_of c [] = None"
| "index_of c (x # xs) = (if x = c then Some 0 else map_option Suc (index_of c xs))"

fun last_index_of :: "char \<Rightarrow> string \<Rightarrow> nat option" where
  "last_index_of c [] = None"
| "last_index_of c (x # xs) =
     (case last_index_of c xs of Some i \<Rightarrow> Some (Suc i) | None \<Rightarrow> if x = c then Some 0 else None)"

section \<open>Hexadecimal numbers\<close>

fun hex_of_nat :: "nat \<Rightarrow> string" where
  "hex_of_nat n = (if n < 16 then [hex_digit n] else hex_of_nat (n div 16) @ [hex_digit (n mod 16)])"

declare hex_of_nat.simps [simp del]

text \<open>\<^verbatim>\<open>n.toString(16)\<close> of an integer.\<close>

definition hex_of_int :: "int \<Rightarrow> string" where
  "hex_of_int n = (if n < 0 then CHR ''-'' # hex_of_nat (nat (- n)) else hex_of_nat (nat n))"

text \<open>Decimal numbers, as template literals print integers.\<close>

fun dec_of_nat :: "nat \<Rightarrow> string" where
  "dec_of_nat n = (if n < 10 then [hex_digit n] else dec_of_nat (n div 10) @ [hex_digit (n mod 10)])"

declare dec_of_nat.simps [simp del]

definition dec_of_int :: "int \<Rightarrow> string" where
  "dec_of_int n = (if n < 0 then CHR ''-'' # dec_of_nat (nat (- n)) else dec_of_nat (nat n))"

text \<open>The longest prefix of hexadecimal digits, as a list of digit values.\<close>

fun hex_prefix :: "string \<Rightarrow> nat list" where
  "hex_prefix [] = []"
| "hex_prefix (c # cs) = (case hex_val c of None \<Rightarrow> [] | Some d \<Rightarrow> d # hex_prefix cs)"

definition hex_number :: "nat list \<Rightarrow> int" where
  "hex_number ds = foldl (\<lambda>a d. 16 * a + int d) 0 ds"

text \<open>
  \<^verbatim>\<open>parseInt(s, 16)\<close>: leading white space, a sign and a \<^verbatim>\<open>0x\<close> prefix are skipped, the digits
  up to the first other character count, and without any digit the result is \<^verbatim>\<open>NaN\<close>.
\<close>

definition parse_hex_int :: "string \<Rightarrow> int option" where
  "parse_hex_int s =
     (let s1 = trim_start s;
          neg = (take 1 s1 = ''-'');
          s2 = (if take 1 s1 = ''-'' \<or> take 1 s1 = ''+'' then drop 1 s1 else s1);
          s3 = (if take 2 s2 = ''0x'' \<or> take 2 s2 = ''0X'' then drop 2 s2 else s2);
          ds = hex_prefix s3
      in if ds = [] then None else Some (if neg then - hex_number ds else hex_number ds))"

definition parse_int16 :: "string \<Rightarrow> jsnum" where
  "parse_int16 s = (case parse_hex_int s of None \<Rightarrow> NaN | Some n \<Rightarrow> to_num (of_int n))"

section \<open>Lemmas\<close>

lemma code_char_of [simp]: "n < 256 \<Longrightarrow> code (char_of n) = n"
  by (simp add: code_def)

lemma hex_val_digit [simp]: "d < 16 \<Longrightarrow> hex_val (hex_digit d) = Some d"
  by (simp add: hex_val_def hex_digit_def Let_def)

lemma code_hex_digit: "d < 16 \<Longrightarrow> code (hex_digit d) = (if d < 10 then 48 + d else 87 + d)"
  by (simp add: hex_digit_def)

lemma hex_digit_not_special:
  assumes "d < 16"
  shows "\<not> is_space (hex_digit d)" "hex_digit d \<noteq> CHR ''-''" "hex_digit d \<noteq> CHR ''+''"
    "hex_digit d \<noteq> CHR ''x''" "hex_digit d \<noteq> CHR ''X''"
proof -
  have c: "code (hex_digit d) \<in> {48..57} \<union> {97..102}"
    using assms by (auto simp: code_hex_digit)
  then show "\<not> is_space (hex_digit d)" by (auto simp: is_space_def Let_def)
  have "code CHR ''-'' = 45" "code CHR ''+'' = 43" "code CHR ''x'' = 120" "code CHR ''X'' = 88"
    by (simp_all add: code_def)
  with c show "hex_digit d \<noteq> CHR ''-''" "hex_digit d \<noteq> CHR ''+''"
    "hex_digit d \<noteq> CHR ''x''" "hex_digit d \<noteq> CHR ''X''" by force+
qed

lemma hex_prefix_digits [simp]: "\<forall>d \<in> set ds. d < 16 \<Longrightarrow> hex_prefix (map hex_digit ds) = ds"
  by (induction ds) auto

lemma parse_hex_int_digits:
  assumes "ds \<noteq> []" "\<forall>d \<in> set ds. d < 16"
  shows "parse_hex_int (map hex_digit ds) = Some (hex_number ds)"
proof -
  obtain d ds' where ds: "ds = d # ds'" using assms(1) by (cases ds) auto
  have d: "d < 16" using assms(2) ds by simp
  note sp = hex_digit_not_special [OF d]
  let ?s = "map hex_digit ds"
  have t: "trim_start ?s = ?s" "take 1 ?s \<noteq> ''-''" "take 1 ?s \<noteq> ''+''" "hex_prefix ?s = ds"
    using sp assms(2) by (simp_all add: ds trim_start_def)
  have x: "take 2 ?s \<noteq> ''0x''" "take 2 ?s \<noteq> ''0X''"
    using assms(2) hex_digit_not_special(4,5) by (cases ds'; auto simp: ds)+
  show ?thesis
    using t x assms(1) by (simp only: parse_hex_int_def Let_def if_False simp_thms)
qed

lemma hex_of_nat_digits: "\<exists>ds. hex_of_nat n = map hex_digit ds \<and> ds \<noteq> [] \<and> (\<forall>d \<in> set ds. d < 16)"
proof (induction n rule: hex_of_nat.induct)
  case (1 n)
  show ?case
  proof (cases "n < 16")
    case True
    then show ?thesis by (intro exI [of _ "[n]"]) (simp add: hex_of_nat.simps [of n])
  next
    case False
    with 1 obtain ds where "hex_of_nat (n div 16) = map hex_digit ds" "\<forall>d \<in> set ds. d < 16" by auto
    with False show ?thesis
      by (intro exI [of _ "ds @ [n mod 16]"]) (auto simp: hex_of_nat.simps [of n])
  qed
qed

lemma length_hex_of_nat: "n < 16 ^ k \<Longrightarrow> 0 < k \<Longrightarrow> length (hex_of_nat n) \<le> k"
proof (induction n arbitrary: k rule: hex_of_nat.induct)
  case (1 n)
  show ?case
  proof (cases "n < 16")
    case True
    with 1 show ?thesis by (simp add: hex_of_nat.simps [of n])
  next
    case False
    then obtain j where k: "k = Suc j" "0 < j"
      using "1.prems" by (cases k; cases "k - 1") auto
    have "n div 16 < 16 ^ j" using "1.prems"(1) k by (simp add: less_mult_imp_div_less mult.commute)
    with False 1 k show ?thesis by (simp add: hex_of_nat.simps [of n])
  qed
qed

lemma length_pad_start: "length (pad_start n c s) = max n (length s)"
  by (simp add: pad_start_def)

lemma length_to_lower [simp]: "length (to_lower s) = length s"
  by (simp add: to_lower_def)

lemma last_index_of_bound: "last_index_of c s = Some i \<Longrightarrow> i < length s \<and> s ! i = c"
  by (induction s arbitrary: i) (auto split: option.splits if_splits)

lemma last_index_of_after:
  "last_index_of c s = Some i \<Longrightarrow> c \<notin> set (drop (Suc i) s)"
proof (induction s arbitrary: i)
  case (Cons x xs)
  have none: "last_index_of c ys = None \<Longrightarrow> c \<notin> set ys" for ys
    by (induction ys) (auto split: option.splits if_splits)
  from Cons show ?case by (auto split: option.splits if_splits dest: none)
qed simp

text \<open>Decimal printing is injective.\<close>

definition dec_val :: "string \<Rightarrow> nat" where
  "dec_val s = foldl (\<lambda>a c. 10 * a + (code c - 48)) 0 s"

lemma dec_val_of_nat: "dec_val (dec_of_nat n) = n"
proof (induction n rule: dec_of_nat.induct)
  case (1 n)
  then show ?case
    by (subst dec_of_nat.simps) (simp add: dec_val_def code_hex_digit)
qed

lemma dec_of_nat_digit: "dec_of_nat n = c # cs \<Longrightarrow> c \<noteq> CHR ''-''"
proof (induction n arbitrary: cs rule: dec_of_nat.induct)
  case (1 n)
  have digit: "hex_digit d \<noteq> CHR ''-''" if "d < 10" for d
    using that hex_digit_not_special [of d] by simp
  show ?case
  proof (cases "n < 10")
    case True
    then show ?thesis using "1.prems" digit [of n] by (subst (asm) dec_of_nat.simps) auto
  next
    case False
    have "dec_of_nat (n div 10) \<noteq> []" by (subst dec_of_nat.simps) simp
    then obtain x xs where "dec_of_nat (n div 10) = x # xs" by (cases "dec_of_nat (n div 10)") auto
    then show ?thesis using "1.IH" [OF False, of xs] "1.prems" False by (subst (asm) (2) dec_of_nat.simps) auto
  qed
qed

lemma dec_of_int_inj: "dec_of_int m = dec_of_int n \<longleftrightarrow> m = n"
proof
  assume eq: "dec_of_int m = dec_of_int n"
  have nat: "dec_of_nat a = dec_of_nat b \<Longrightarrow> a = b" for a b by (metis dec_val_of_nat)
  show "m = n"
    using eq nat [of "nat m" "nat n"] nat [of "nat (- m)" "nat (- n)"]
      dec_of_nat_digit [of "nat m" "CHR ''-''" "dec_of_nat (nat (- n))"]
      dec_of_nat_digit [of "nat n" "CHR ''-''" "dec_of_nat (nat (- m))"]
    by (auto simp: dec_of_int_def split: if_splits dest: sym)
qed simp

end
