(* ===== verification/Js_Bits.thy ===== *)
theory Js_Bits
  imports Js_String
begin

text \<open>
  The bitwise operators of JavaScript on integer-valued numbers. \<^verbatim>\<open>|\<close>, \<^verbatim>\<open>&\<close>, \<^verbatim>\<open>^\<close>, \<^verbatim>\<open><<\<close> and \<^verbatim>\<open>>>\<close>
  work on and return signed 32-bit integers, \<^verbatim>\<open>>>>\<close> returns an unsigned one; shift counts are
  taken modulo 32. \<open>w32\<close> maps an integer to the 32-bit word it denotes: every operator is a
  homomorphism to the word operation, which is what the refinement of the hash kernel to machine
  words rests on (collection \<open>w32_simps\<close>).
\<close>

unbundle bit_operations_syntax

named_theorems w32_simps "JavaScript integer operators as 32-bit word operations"

definition to_uint32 :: "int \<Rightarrow> int" where
  "to_uint32 x = take_bit 32 x"

definition to_int32 :: "int \<Rightarrow> int" where
  "to_int32 x = signed_take_bit 31 x"

definition js_or :: "int \<Rightarrow> int \<Rightarrow> int" where
  "js_or a b = to_int32 a OR to_int32 b"

definition js_and :: "int \<Rightarrow> int \<Rightarrow> int" where
  "js_and a b = to_int32 a AND to_int32 b"

definition js_xor :: "int \<Rightarrow> int \<Rightarrow> int" where
  "js_xor a b = to_int32 a XOR to_int32 b"

definition js_shl :: "int \<Rightarrow> nat \<Rightarrow> int" where
  "js_shl a k = to_int32 (push_bit (k mod 32) a)"

definition js_shr :: "int \<Rightarrow> nat \<Rightarrow> int" where
  "js_shr a k = drop_bit (k mod 32) (to_int32 a)"

definition js_ushr :: "int \<Rightarrow> nat \<Rightarrow> int" where
  "js_ushr a k = drop_bit (k mod 32) (to_uint32 a)"

definition w32 :: "int \<Rightarrow> 32 word" where
  "w32 x = word_of_int x"

definition is_u32 :: "int \<Rightarrow> bool" where
  "is_u32 x \<longleftrightarrow> 0 \<le> x \<and> x < 2 ^ 32"

lemma w32_to_uint32 [w32_simps]: "w32 (to_uint32 x) = w32 x"
  by (simp add: w32_def to_uint32_def word_of_int_eq_iff)

lemma w32_to_int32 [w32_simps]: "w32 (to_int32 x) = w32 x"
  by (simp add: w32_def to_int32_def word_of_int_eq_iff take_bit_signed_take_bit)

lemma bit_w32: "bit (w32 x) n \<longleftrightarrow> n < 32 \<and> bit x n"
  by (simp add: w32_def bit_word_of_int_iff)

lemma bit_to_int32: "n < 32 \<Longrightarrow> bit (to_int32 x) n \<longleftrightarrow> bit x n"
  by (cases "n = 31") (auto simp: to_int32_def bit_signed_take_bit_iff min_def)

lemma w32_or [w32_simps]: "w32 (js_or a b) = w32 a OR w32 b"
  by (rule bit_eqI) (auto simp: js_or_def bit_w32 bit_simps bit_to_int32)

lemma w32_and [w32_simps]: "w32 (js_and a b) = w32 a AND w32 b"
  by (rule bit_eqI) (auto simp: js_and_def bit_w32 bit_simps bit_to_int32)

lemma w32_xor [w32_simps]: "w32 (js_xor a b) = w32 a XOR w32 b"
  by (rule bit_eqI) (auto simp: js_xor_def bit_w32 bit_simps bit_to_int32)

lemma w32_shl [w32_simps]: "k < 32 \<Longrightarrow> w32 (js_shl a k) = push_bit k (w32 a)"
  by (rule bit_eqI) (auto simp: js_shl_def bit_w32 bit_simps bit_to_int32)

lemma w32_ushr [w32_simps]: "k < 32 \<Longrightarrow> w32 (js_ushr a k) = drop_bit k (w32 a)"
  by (rule bit_eqI) (auto simp: js_ushr_def to_uint32_def bit_w32 bit_simps)

lemma w32_add [w32_simps]: "w32 (a + b) = w32 a + w32 b"
  by (simp add: w32_def)

lemma is_u32_to_uint32 [simp]: "is_u32 (to_uint32 x)"
  using take_bit_int_less_exp [of 32 x] by (simp add: is_u32_def to_uint32_def)

lemma is_u32_uint: "is_u32 (uint (w :: 32 word))"
  using uint_lt2p [of w] by (simp add: is_u32_def)

lemma uint_w32: "is_u32 x \<Longrightarrow> uint (w32 x) = x"
  by (simp add: is_u32_def w32_def uint_word_of_int take_bit_eq_mod)

lemma w32_uint [simp]: "w32 (uint w) = w"
  by (simp add: w32_def)

lemma w32_inj: "is_u32 x \<Longrightarrow> is_u32 y \<Longrightarrow> w32 x = w32 y \<longleftrightarrow> x = y"
  by (metis uint_w32)

end
