(* ===== verification/Header.thy ===== *)
theory Header
  imports Js_String
begin

text \<open>
  Hexadecimal strings, block header serialisation, merkle roots and Bitcoin varints
  (\<^verbatim>\<open>lib/header.ts\<close>). SHA-256 is the argument \<open>sha\<close> of the definitions that hash.
\<close>

section \<open>Definitions\<close>

text \<open>
  Storing a number in a \<^verbatim>\<open>Uint8Array\<close> reduces it modulo 256 and stores 0 for \<^verbatim>\<open>NaN\<close>. A pair of
  characters has at most two digits, so the number is an integer.
\<close>

definition hex_pair :: "string \<Rightarrow> byte" where
  "hex_pair s = (case parse_hex_int s of None \<Rightarrow> 0 | Some n \<Rightarrow> word_of_int n)"

fun hex_pairs :: "string \<Rightarrow> bytes" where
  "hex_pairs (a # b # cs) = hex_pair [a, b] # hex_pairs cs"
| "hex_pairs _ = []"

definition hexToBytes :: "string \<Rightarrow> bytes res" where
  "hexToBytes hex = (let clean = (if starts_with hex ''0x'' then drop 2 hex else hex) in
     throw_if (length clean mod 2 \<noteq> 0) (Error ''odd-length hex'') (Inr (hex_pairs clean)))"

definition bytesToHex :: "bytes \<Rightarrow> string" where
  "bytesToHex bs = concat (map (\<lambda>b. pad_start 2 (CHR ''0'') (hex_of_nat (unat b))) bs)"

definition reverseBytes :: "bytes \<Rightarrow> bytes" where
  "reverseBytes b = map (\<lambda>i. b ! (length b - 1 - i)) [0..<length b]"

definition uint32LE :: "int \<Rightarrow> bytes" where
  "uint32LE n = le_bytes 4 n"

definition int32LE :: "int \<Rightarrow> bytes" where
  "int32LE n = le_bytes 4 (signed_take_bit 31 n)"

definition uint32FromLEHex :: "string \<Rightarrow> int res" where
  "uint32FromLEHex h = andthen (hexToBytes h) (\<lambda>b.
     throw_if (length b < 4) RangeError (Inr (le_value (take 4 b))))"

record header_input =
  h_version :: int
  h_prevHashHexBE :: string
  h_merkleRootHexBE :: string
  h_ntime :: int
  h_bits :: int
  h_nonce :: int

definition serializeHeader :: "header_input \<Rightarrow> bytes res" where
  "serializeHeader h =
     andthen (hexToBytes (h_prevHashHexBE h)) (\<lambda>p. let prev = reverseBytes p in
     andthen (hexToBytes (h_merkleRootHexBE h)) (\<lambda>m. let merkle = reverseBytes m in
     throw_if (length prev \<noteq> 32) (Error ''prevHash must be 32 bytes'') (
     throw_if (length merkle \<noteq> 32) (Error ''merkleRoot must be 32 bytes'') (
     andthen (arr_set (replicate 80 0) (int32LE (h_version h)) 0) (\<lambda>out.
     andthen (arr_set out prev 4) (\<lambda>out.
     andthen (arr_set out merkle 36) (\<lambda>out.
     andthen (arr_set out (uint32LE (h_ntime h)) 68) (\<lambda>out.
     andthen (arr_set out (uint32LE (h_bits h)) 72) (\<lambda>out.
     arr_set out (uint32LE (h_nonce h)) 76)))))))))"

definition doubleSha256 :: "(bytes \<Rightarrow> bytes) \<Rightarrow> bytes \<Rightarrow> bytes" where
  "doubleSha256 sha b = sha (sha b)"

definition coinbaseTxId :: "(bytes \<Rightarrow> bytes) \<Rightarrow> bytes \<Rightarrow> bytes" where
  "coinbaseTxId sha coinbase = doubleSha256 sha coinbase"

fun computeMerkleRoot :: "(bytes \<Rightarrow> bytes) \<Rightarrow> bytes \<Rightarrow> string list \<Rightarrow> bytes res" where
  "computeMerkleRoot sha cur [] = Inr cur"
| "computeMerkleRoot sha cur (br # brs) =
     andthen (hexToBytes br) (\<lambda>b. let brLE = reverseBytes b in
     andthen (arr_set (replicate 64 0) cur 0) (\<lambda>combined.
     andthen (arr_set combined brLE 32) (\<lambda>combined.
     computeMerkleRoot sha (doubleSha256 sha combined) brs)))"

definition varInt :: "int \<Rightarrow> bytes" where
  "varInt n =
     (if n < 0xfd then le_bytes 1 n
      else if n \<le> 0xffff then 0xfd # le_bytes 2 n
      else if n \<le> 0xffffffff then 0xfe # le_bytes 4 n
      else 0xff # le_bytes 8 n)"

definition concatBytes :: "bytes list \<Rightarrow> bytes" where
  "concatBytes arrs = concat arrs"

section \<open>Hexadecimal strings\<close>

lemma reverseBytes_rev [simp]: "reverseBytes b = rev b"
  by (rule nth_equalityI) (simp_all add: reverseBytes_def rev_nth)

lemma hex_of_byte:
  "pad_start 2 (CHR ''0'') (hex_of_nat (unat (b :: byte))) =
   map hex_digit [unat b div 16, unat b mod 16]"
proof -
  have "unat b div 16 < 16" using unat_byte_less [of b] by (simp add: less_mult_imp_div_less)
  moreover have "hex_digit 0 = CHR ''0''" by code_simp
  ultimately show ?thesis
    by (simp add: pad_start_def hex_of_nat.simps [of "unat b"] hex_of_nat.simps [of "unat b div 16"])
qed

lemma hex_pair_byte [simp]:
  "hex_pair [hex_digit (unat b div 16), hex_digit (unat b mod 16)] = (b :: byte)"
proof -
  have "unat b < 256" by (rule unat_byte_less)
  then have "parse_hex_int (map hex_digit [unat b div 16, unat b mod 16]) =
      Some (hex_number [unat b div 16, unat b mod 16])"
    by (intro parse_hex_int_digits) auto
  moreover have "hex_number [unat b div 16, unat b mod 16] = int (unat b)"
    by (simp add: hex_number_def zdiv_int zmod_int)
  ultimately show ?thesis by (simp add: hex_pair_def)
qed

lemma bytesToHex_Nil [simp]: "bytesToHex [] = []"
  by (simp add: bytesToHex_def)

lemma bytesToHex_Cons [simp]:
  "bytesToHex (b # bs) = hex_digit (unat b div 16) # hex_digit (unat b mod 16) # bytesToHex bs"
  by (simp add: bytesToHex_def hex_of_byte)

lemma bytesToHex_append [simp]: "bytesToHex (a @ b) = bytesToHex a @ bytesToHex b"
  by (simp add: bytesToHex_def)

lemma length_bytesToHex [simp, byte_simps]: "length (bytesToHex bs) = 2 * length bs"
  by (induction bs) auto

lemma hex_pairs_bytesToHex [simp]: "hex_pairs (bytesToHex bs) = bs"
  by (induction bs) auto

lemma bytesToHex_no_prefix [simp]: "\<not> starts_with (bytesToHex bs) ''0x''"
proof (cases bs)
  case (Cons b bs')
  have "unat b mod 16 < 16" by simp
  from hex_digit_not_special(4) [OF this] show ?thesis by (simp add: Cons starts_with_def)
qed (simp add: starts_with_def)

lemma hexToBytes_bytesToHex [simp]: "hexToBytes (bytesToHex bs) = Inr bs"
  by (simp add: hexToBytes_def Let_def)

lemma length_hex_pairs: "length (hex_pairs s) = length s div 2"
  by (induction s rule: hex_pairs.induct) auto

lemma hex_digit_val:
  assumes "hex_val c = Some d" "lower_char c = c"
  shows "d < 16" "hex_digit d = c"
proof -
  have c: "char_of (code c) = c" by (simp add: code_def)
  have n: "(48 \<le> code c \<and> code c \<le> 57 \<and> d = code c - 48) \<or> (97 \<le> code c \<and> code c \<le> 102 \<and> d = code c - 87)"
  proof -
    have "\<not> (65 \<le> code c \<and> code c \<le> 70)"
    proof
      assume a: "65 \<le> code c \<and> code c \<le> 70"
      then have "code (lower_char c) = code c + 32" by (simp add: lower_char_def Let_def)
      with assms(2) show False by simp
    qed
    with assms(1) show ?thesis by (auto simp: hex_val_def Let_def split: if_splits)
  qed
  then show "d < 16" by auto
  from n have "(if d < 10 then 48 + d else 87 + d) = code c" by auto
  with c show "hex_digit d = c" unfolding hex_digit_def by simp
qed

lemma hex_pair_digits:
  assumes "a < 16" "b < 16"
  shows "unat (hex_pair [hex_digit a, hex_digit b]) = 16 * a + b"
proof -
  have "parse_hex_int (map hex_digit [a, b]) = Some (hex_number [a, b])"
    using assms by (intro parse_hex_int_digits) auto
  then have h: "hex_pair [hex_digit a, hex_digit b] = word_of_int (int (16 * a + b))"
    by (simp add: hex_pair_def hex_number_def)
  have "uint (hex_pair [hex_digit a, hex_digit b]) = int (16 * a + b) mod 256"
    unfolding h by (rule uint_byte_of_int)
  also have "\<dots> = int (16 * a + b)" using assms by simp
  finally show ?thesis by (metis nat_int unat_eq_nat_uint)
qed

lemma bytesToHex_hex_pairs:
  assumes "even (length s)" "\<forall>c \<in> set s. hex_val c \<noteq> None \<and> lower_char c = c"
  shows "bytesToHex (hex_pairs s) = s"
  using assms
proof (induction s rule: hex_pairs.induct)
  case (1 x y cs)
  then obtain a b where "hex_val x = Some a" "hex_val y = Some b" by auto
  with 1 have ab: "a < 16" "hex_digit a = x" "b < 16" "hex_digit b = y"
    using hex_digit_val [of x a] hex_digit_val [of y b] by auto
  have "unat (hex_pair [x, y]) = 16 * a + b" using ab hex_pair_digits by metis
  with ab 1 show ?case by simp
qed auto

lemma bytesToHex_inj [simp]: "bytesToHex a = bytesToHex b \<longleftrightarrow> a = b"
  by (metis hex_pairs_bytesToHex)

section \<open>Headers\<close>

lemma length_int32LE [simp, byte_simps]: "length (int32LE n) = 4"
  by (simp add: int32LE_def)

lemma length_uint32LE [simp, byte_simps]: "length (uint32LE n) = 4"
  by (simp add: uint32LE_def)

lemma uint32LE_value: "le_value (uint32LE n) = n mod 2 ^ 32"
  by (simp add: uint32LE_def le_value_le_bytes)

lemma uint32LE_eq_iff: "uint32LE m = uint32LE n \<longleftrightarrow> m mod 2 ^ 32 = n mod 2 ^ 32"
  by (simp add: uint32LE_def le_bytes_inj)

lemma signed_take_bit_mod: "signed_take_bit 31 (n :: int) mod 2 ^ 32 = n mod 2 ^ 32"
proof -
  have "take_bit 32 (signed_take_bit 31 n) = take_bit 32 n"
    by (simp add: take_bit_signed_take_bit)
  then show ?thesis by (simp add: take_bit_eq_mod)
qed

lemma int32LE_uint32LE: "int32LE n = uint32LE n"
  using signed_take_bit_mod [of n] by (simp add: int32LE_def uint32LE_def le_bytes_inj)

lemma serializeHeader_eq:
  "serializeHeader h =
     andthen (hexToBytes (h_prevHashHexBE h)) (\<lambda>prev.
     andthen (hexToBytes (h_merkleRootHexBE h)) (\<lambda>merkle.
     throw_if (length prev \<noteq> 32) (Error ''prevHash must be 32 bytes'') (
     throw_if (length merkle \<noteq> 32) (Error ''merkleRoot must be 32 bytes'') (
     Inr (uint32LE (h_version h) @ rev prev @ rev merkle @
          uint32LE (h_ntime h) @ uint32LE (h_bits h) @ uint32LE (h_nonce h))))))"
  by (auto simp: serializeHeader_def int32LE_uint32LE throw_if_def andthen_def Let_def split: sum.splits)

lemma serializeHeader_length: "serializeHeader h = Inr out \<Longrightarrow> length out = 80"
  by (auto simp: serializeHeader_eq res_elims)

section \<open>Merkle roots and varints\<close>

lemma computeMerkleRoot_length:
  assumes "\<And>b. length (sha b) = 32" "length cur = 32" "computeMerkleRoot sha cur brs = Inr r"
  shows "length r = 32"
  using assms(2,3)
proof (induction brs arbitrary: cur)
  case (Cons br brs)
  have "length (doubleSha256 sha b) = 32" for b by (simp add: doubleSha256_def assms(1))
  with Cons show ?case by (fastforce simp: andthen_eq_Inr Let_def simp del: arr_set_fits)
qed simp

lemma computeMerkleRoot_hex:
  "length cur = 32 \<Longrightarrow> length b = 32 \<Longrightarrow>
   computeMerkleRoot sha cur (bytesToHex (rev b) # brs) =
   computeMerkleRoot sha (doubleSha256 sha (cur @ b)) brs"
  by (simp add: Let_def)

lemma length_varInt: "length (varInt n) = (if n < 0xfd then 1 else if n \<le> 0xffff then 3
    else if n \<le> 0xffffffff then 5 else 9)"
  by (simp add: varInt_def)

section \<open>Properties\<close>

text \<open>
  \<^verbatim>\<open>hexToBytes\<close> and \<^verbatim>\<open>bytesToHex\<close> are mutually inverse on canonical input: decoding a printed
  byte string returns it, and printing the decoding of any even-length string of lower-case
  hexadecimal digits returns that string.
\<close>
theorem hex_roundtrip:
  "hexToBytes (bytesToHex bs) = Inr bs \<and>
   (even (length s) \<and> (\<forall>c \<in> set s. hex_val c \<noteq> None \<and> lower_char c = c) \<longrightarrow>
    map_sum id bytesToHex (hexToBytes s) = Inr s)"
proof -
  have "\<not> starts_with s ''0x''" if "\<forall>c \<in> set s. hex_val c \<noteq> None"
  proof
    assume "starts_with s ''0x''"
    then have "CHR ''x'' \<in> set s"
      by (metis starts_with_def in_set_takeD list.set_intros)
    with that have "hex_val CHR ''x'' \<noteq> None" by blast
    then show False by (simp add: hex_val_def code_def)
  qed
  then show ?thesis
    by (auto simp: hexToBytes_def Let_def bytesToHex_hex_pairs even_iff_mod_2_eq_zero)
qed

theorem hex_roundtrip_witness:
  "hexToBytes (bytesToHex [0xde, 0x0f]) = Inr [0xde, 0x0f] \<and>
   map_sum id bytesToHex (hexToBytes ''00ff'') = Inr ''00ff''"
proof -
  have "even (length ''00ff'') \<and> (\<forall>c \<in> set ''00ff''. hex_val c \<noteq> None \<and> lower_char c = c)"
    by code_simp
  with hex_roundtrip [of "[0xde, 0x0f]" "''00ff''"] show ?thesis by blast
qed

text \<open>
  C15: a serialised header is 80 bytes with Bitcoin's layout, and it determines its input up to
  32-bit truncation: two inputs that serialise give the same header exactly when the two hashes
  decode to the same bytes and version, time, bits and nonce agree modulo $2^{32}$.
\<close>
theorem serializeHeader_layout:
  assumes "serializeHeader h = Inr a" and "serializeHeader g = Inr b"
  shows "length a = 80 \<and> le_value (slice a 0 4) = h_version h mod 2 ^ 32 \<and>
    Inr (rev (slice a 4 36)) = hexToBytes (h_prevHashHexBE h) \<and>
    Inr (rev (slice a 36 68)) = hexToBytes (h_merkleRootHexBE h) \<and>
    le_value (slice a 68 72) = h_ntime h mod 2 ^ 32 \<and>
    le_value (slice a 72 76) = h_bits h mod 2 ^ 32 \<and>
    le_value (slice a 76 80) = h_nonce h mod 2 ^ 32 \<and>
    (a = b \<longleftrightarrow> h_version h mod 2 ^ 32 = h_version g mod 2 ^ 32 \<and>
      hexToBytes (h_prevHashHexBE h) = hexToBytes (h_prevHashHexBE g) \<and>
      hexToBytes (h_merkleRootHexBE h) = hexToBytes (h_merkleRootHexBE g) \<and>
      h_ntime h mod 2 ^ 32 = h_ntime g mod 2 ^ 32 \<and> h_bits h mod 2 ^ 32 = h_bits g mod 2 ^ 32 \<and>
      h_nonce h mod 2 ^ 32 = h_nonce g mod 2 ^ 32)"
proof -
  obtain p m q n where d: "hexToBytes (h_prevHashHexBE h) = Inr p" "hexToBytes (h_merkleRootHexBE h) = Inr m"
      "hexToBytes (h_prevHashHexBE g) = Inr q" "hexToBytes (h_merkleRootHexBE g) = Inr n"
    and len: "length p = 32" "length m = 32" "length q = 32" "length n = 32"
    and a: "a = uint32LE (h_version h) @ rev p @ rev m @ uint32LE (h_ntime h) @ uint32LE (h_bits h) @ uint32LE (h_nonce h)"
    and b: "b = uint32LE (h_version g) @ rev q @ rev n @ uint32LE (h_ntime g) @ uint32LE (h_bits g) @ uint32LE (h_nonce g)"
    using assms by (auto simp: serializeHeader_eq res_elims)
  have "a = b \<longleftrightarrow> uint32LE (h_version h) = uint32LE (h_version g) \<and> p = q \<and> m = n \<and>
      uint32LE (h_ntime h) = uint32LE (h_ntime g) \<and> uint32LE (h_bits h) = uint32LE (h_bits g) \<and>
      uint32LE (h_nonce h) = uint32LE (h_nonce g)"
    unfolding a b using len by (simp add: append_eq_append_conv)
  moreover have "slice a 0 4 = uint32LE (h_version h)" "slice a 4 36 = rev p" "slice a 36 68 = rev m"
      "slice a 68 72 = uint32LE (h_ntime h)" "slice a 72 76 = uint32LE (h_bits h)"
      "slice a 76 80 = uint32LE (h_nonce h)" "length a = 80"
    unfolding a using len by (simp_all add: slice_def)
  ultimately show ?thesis by (simp add: d uint32LE_value uint32LE_eq_iff)
qed

definition sample_header :: "int \<Rightarrow> header_input" where
  "sample_header n = \<lparr> h_version = 1, h_prevHashHexBE = bytesToHex (replicate 32 7),
     h_merkleRootHexBE = bytesToHex (replicate 32 9), h_ntime = 100, h_bits = 5, h_nonce = n \<rparr>"

theorem serializeHeader_layout_witness:
  "serializeHeader (sample_header 1) = serializeHeader (sample_header (2 ^ 32 + 1))"
proof -
  obtain a b where ab: "serializeHeader (sample_header 1) = Inr a"
      "serializeHeader (sample_header (2 ^ 32 + 1)) = Inr b"
    by (simp add: serializeHeader_eq sample_header_def del: bytesToHex_Cons replicate_Suc)
  from serializeHeader_layout [OF ab] have "a = b" by (simp add: sample_header_def)
  with ab show ?thesis by simp
qed

end
