(* ===== verification/Difficulty_Math.thy ===== *)
theory Difficulty_Math
  imports Header
begin

text \<open>
  Compact targets, share targets and difficulties (\<^verbatim>\<open>lib/difficulty-math.ts\<close>). Targets are
  unbounded integers (\<^verbatim>\<open>bigint\<close>), difficulties are doubles. \<^verbatim>\<open>formatDifficulty\<close>, which only
  prints, is not modelled.
\<close>

unbundle bit_operations_syntax

section \<open>Definitions\<close>

definition MAX_UINT256 :: int where
  "MAX_UINT256 = push_bit 256 1 - 1"

definition POOL_DIFF1_TARGET :: int where
  "POOL_DIFF1_TARGET = 0x00000000ffff0000000000000000000000000000000000000000000000000000"

definition MAX_SAFE_INTEGER :: jsnum where
  "MAX_SAFE_INTEGER = Fin (2 ^ 53 - 1)"

definition targetFromBits :: "int \<Rightarrow> int" where
  "targetFromBits bits =
     (let e = drop_bit 24 (signed_take_bit 31 bits) AND 0xff;
          mant = bits AND 0x007fffff
      in if e \<le> 3 then drop_bit (nat (8 * (3 - e))) mant else push_bit (nat (8 * (e - 3))) mant)"

definition bigIntFromBytesLE :: "bytes \<Rightarrow> int" where
  "bigIntFromBytesLE b = foldl (\<lambda>n x. push_bit 8 n OR uint x) 0 (rev b)"

definition bigIntFromBytesBE :: "bytes \<Rightarrow> int" where
  "bigIntFromBytesBE b = foldl (\<lambda>n x. push_bit 8 n OR uint x) 0 b"

definition MIN_SHARE_DIFFICULTY :: jsnum where
  "MIN_SHARE_DIFFICULTY = to_num (1 / 1000000)"

definition targetFromShareDifficulty :: "jsnum \<Rightarrow> int res" where
  "targetFromShareDifficulty shareDiff =
     throw_if (\<not> js_is_finite shareDiff \<or> js_le shareDiff (Fin 0))
       (Error ''share diff must be a finite number > 0'') (
     throw_if (js_lt shareDiff MIN_SHARE_DIFFICULTY)
       (Error ''share diff is below MIN_SHARE_DIFFICULTY'') (
     let scale = 1000000 in
     andthen (bigint_of_num (js_round (js_mul shareDiff (num_of_bigint scale)))) (\<lambda>scaledDiff.
     throw_if (scaledDiff \<le> 0) (Error ''share diff failed fixed-point conversion'')
       (Inr (POOL_DIFF1_TARGET * scale div scaledDiff)))))"

definition shareDifficultyFromTarget :: "int \<Rightarrow> jsnum" where
  "shareDifficultyFromTarget target =
     (if target \<le> 0 then MAX_SAFE_INTEGER
      else let scale = 1000000 in
        js_div (num_of_bigint (POOL_DIFF1_TARGET * scale div target)) (num_of_bigint scale))"

definition networkDifficultyFromBits :: "int \<Rightarrow> jsnum" where
  "networkDifficultyFromBits bits =
     (let target = targetFromBits bits in
      if target \<le> 0 then MAX_SAFE_INTEGER
      else let scale = 10000000 in
        js_div (num_of_bigint (POOL_DIFF1_TARGET * scale div target)) (num_of_bigint scale))"

definition assignedShareDifficulty :: "jsnum \<Rightarrow> jsnum option \<Rightarrow> jsnum" where
  "assignedShareDifficulty configured network =
     (case network of
        None \<Rightarrow> configured
      | Some n \<Rightarrow>
          if \<not> js_is_finite n \<or> js_le n (Fin 0) then configured
          else if \<not> js_is_finite configured \<or> js_le configured (Fin 0) then n
          else js_min configured n)"

definition hashrateFromShares :: "jsnum \<Rightarrow> jsnum \<Rightarrow> jsnum" where
  "hashrateFromShares totalDiff windowSeconds =
     (if js_le windowSeconds (Fin 0) then Fin 0
      else js_div (js_mul totalDiff (Fin 4294967296)) windowSeconds)"

section \<open>Compact targets\<close>

lemma targetFromBits_eq:
  "targetFromBits bits =
     (let e = bits div 2 ^ 24 mod 256; mant = bits mod 2 ^ 23
      in if e \<le> 3 then mant div 256 ^ nat (3 - e) else mant * 256 ^ nat (e - 3))"
proof -
  have mask: "n AND 0xff = n mod 256" "n AND 0x007fffff = n mod 2 ^ 23" for n :: int
    using take_bit_eq_mask [of 8 n] take_bit_eq_mask [of 23 n]
    by (simp_all add: mask_eq_exp_minus_1 take_bit_eq_mod)
  have "take_bit 8 (drop_bit 24 (signed_take_bit 31 bits)) = take_bit 8 (drop_bit 24 bits)"
    by (simp add: take_bit_drop_bit take_bit_signed_take_bit)
  then have e: "drop_bit 24 (signed_take_bit 31 bits) mod 256 = bits div 2 ^ 24 mod 256"
    by (simp add: take_bit_eq_mod drop_bit_eq_div)
  have pow: "(2 :: int) ^ nat (8 * k) = 256 ^ nat k" if "0 \<le> k" for k
    using that by (simp add: nat_mult_distrib power_mult)
  have "targetFromBits bits = (let e = bits div 2 ^ 24 mod 256; mant = bits mod 2 ^ 23
      in if e \<le> 3 then mant div 2 ^ nat (8 * (3 - e)) else mant * 2 ^ nat (8 * (e - 3)))"
    unfolding targetFromBits_def Let_def mask e
    unfolding drop_bit_eq_div push_bit_eq_mult ..
  then show ?thesis unfolding Let_def by (auto simp only: pow diff_ge_0_iff_ge not_le less_imp_le split: if_split)
qed

lemma targetFromBits_nonneg [simp]: "0 \<le> targetFromBits bits"
  by (simp add: targetFromBits_eq Let_def pos_imp_zdiv_nonneg_iff)

section \<open>Byte strings as integers\<close>

lemma push_or: "push_bit 8 (n :: int) OR uint (b :: byte) = 256 * n + uint b"
proof -
  have "take_bit 8 (uint b) = uint b" by (rule bintr_uint) simp
  then have "\<not> bit (uint b) k" if "8 \<le> k" for k using that by (metis bit_take_bit_iff not_le)
  then have "push_bit 8 n AND uint b = 0" by (auto simp: bit_eq_iff bit_and_iff bit_push_bit_iff)
  then have "push_bit 8 n OR uint b = push_bit 8 n + uint b" by (simp add: disjunctive_add_eq_or)
  then show ?thesis by (simp add: push_bit_eq_mult mult.commute)
qed

lemma bigIntFromBytesLE_value [simp]: "bigIntFromBytesLE b = le_value b"
  unfolding bigIntFromBytesLE_def push_or by (induction b) auto

lemma bigIntFromBytesBE_value [simp]: "bigIntFromBytesBE b = le_value (rev b)"
  using bigIntFromBytesLE_value [of "rev b"] unfolding bigIntFromBytesLE_def bigIntFromBytesBE_def by simp

section \<open>Share targets\<close>

lemma pool_target_pos [simp]: "0 < POOL_DIFF1_TARGET"
  by (simp add: POOL_DIFF1_TARGET_def)

lemma pool_scaled_bound: "POOL_DIFF1_TARGET * 1000000 < MAX_UINT256"
  by (simp add: POOL_DIFF1_TARGET_def MAX_UINT256_def push_bit_eq_mult)

lemma rnd_half [simp]: "rnd (1 / 2) = 1 / 2"
proof (rule rnd_exact)
  show "representable (1 / 2)"
    unfolding representable_def by (intro exI [of _ 1] exI [of _ "- 1"]) (simp add: power_int_minus)
qed

lemma rnd_min_share: "1 / 2 ^ 20 \<le> rnd (1 / 1000000)"
proof -
  have "representable (1 / 2 ^ 20)"
    unfolding representable_def by (intro exI [of _ 1] exI [of _ "- 20"]) (simp add: power_int_minus field_simps)
  then have "rnd (1 / 2 ^ 20) = 1 / 2 ^ 20" by (rule rnd_exact)
  then show ?thesis by (intro dbl.r_ge_fixed) simp_all
qed

lemma MIN_SHARE_Fin: "MIN_SHARE_DIFFICULTY = Fin (rnd (1 / 1000000))"
proof -
  have "0 \<le> rnd (1 / 1000000)" by (rule rnd_nonneg) simp
  moreover have "rnd (1 / 1000000) \<le> 1" using rnd_of_int [of 1] by (intro dbl.r_le_fixed) simp_all
  ultimately have "\<bar>rnd (1 / 1000000)\<bar> < 2 ^ 1024" by (simp add: abs_of_nonneg)
  then show ?thesis by (simp add: MIN_SHARE_DIFFICULTY_def to_num_finite)
qed

definition scaled_diff :: "rat \<Rightarrow> int" where
  "scaled_diff d = \<lfloor>rnd (d * 1000000) + 1 / 2\<rfloor>"

lemma scaled_diff_mono: "d \<le> e \<Longrightarrow> scaled_diff d \<le> scaled_diff e"
  unfolding scaled_diff_def by (intro floor_mono add_right_mono rnd_mono) simp

lemma scaled_diff_pos: "rnd (1 / 1000000) \<le> d \<Longrightarrow> 1 \<le> scaled_diff d"
proof -
  assume "rnd (1 / 1000000) \<le> d"
  with rnd_min_share have "1 / 2 ^ 20 \<le> d" by linarith
  then have "1 / 2 \<le> rnd (d * 1000000)" by (intro dbl.r_ge_fixed) simp_all
  then show ?thesis by (simp add: scaled_diff_def le_floor_iff)
qed

lemma targetFromShareDifficulty_Fin:
  assumes "rnd (1 / 1000000) \<le> d" "rnd (d * 1000000) < 2 ^ 1024"
  shows "targetFromShareDifficulty (Fin d) = Inr (POOL_DIFF1_TARGET * 1000000 div scaled_diff d)"
proof -
  have "(0 :: rat) < 1 / 2 ^ 20" by simp
  then have d: "0 < d" using assms(1) rnd_min_share by linarith
  have "0 \<le> rnd (d * 1000000)" using d by (intro rnd_nonneg) simp
  then have "to_num (d * 1000000) = Fin (rnd (d * 1000000))" using assms(2) by (intro to_num_finite) simp
  then show ?thesis using d assms(1) scaled_diff_pos [OF assms(1)]
    by (simp add: targetFromShareDifficulty_def MIN_SHARE_Fin num_of_bigint_small scaled_diff_def)
qed

lemma targetFromShareDifficulty_InrD:
  assumes "targetFromShareDifficulty d = Inr t"
  obtains x where "d = Fin x" "rnd (1 / 1000000) \<le> x" "rnd (x * 1000000) < 2 ^ 1024"
    "t = POOL_DIFF1_TARGET * 1000000 div scaled_diff x"
proof -
  obtain x where x: "d = Fin x" "0 < x" "rnd (1 / 1000000) \<le> x"
    using assms by (cases d) (auto simp: targetFromShareDifficulty_def MIN_SHARE_Fin throw_if_eq_Inr)
  moreover have "rnd (x * 1000000) < 2 ^ 1024"
  proof (rule ccontr)
    assume "\<not> rnd (x * 1000000) < 2 ^ 1024"
    then have "to_num (x * 1000000) = PosInf" by (simp add: to_num_def)
    with assms x show False
      by (simp add: targetFromShareDifficulty_def MIN_SHARE_Fin num_of_bigint_small throw_if_eq_Inr)
  qed
  ultimately show ?thesis using assms targetFromShareDifficulty_Fin that by auto
qed

lemma div_succ_bound: "0 < (c :: int) \<Longrightarrow> a < (a div c + 1) * c"
  by (metis div_mult_mod_eq pos_mod_bound add_strict_left_mono distrib_right mult_1)

lemma targetFromShareDifficulty_int:
  assumes "1 \<le> n" "n \<le> 2 ^ 32"
  shows "targetFromShareDifficulty (Fin (of_int n)) = Inr (POOL_DIFF1_TARGET * 1000000 div (n * 1000000))"
proof -
  have "rnd (of_int (n * 1000000)) = of_int (n * 1000000)" using assms by (intro rnd_of_int) simp
  then have r: "rnd (of_int n * 1000000) = of_int (n * 1000000)" by simp
  have "n * 1000000 \<le> 2 ^ 53" using assms by simp
  then have "(of_int (n * 1000000) :: rat) \<le> of_int (2 ^ 53)" by (simp only: of_int_le_iff)
  also have "\<dots> < 2 ^ 1024" by simp
  finally have "rnd (of_int n * 1000000) < 2 ^ 1024" unfolding r .
  moreover have "rnd (1 / 1000000) \<le> of_int n"
  proof -
    have "rnd (1 / 1000000) \<le> 1" using rnd_of_int [of 1] by (intro dbl.r_le_fixed) simp_all
    moreover have "(1 :: rat) \<le> of_int n" using assms by simp
    ultimately show ?thesis by linarith
  qed
  moreover have "scaled_diff (of_int n) = n * 1000000"
    unfolding scaled_diff_def r by (rule floor_unique) simp_all
  ultimately show ?thesis using targetFromShareDifficulty_Fin by metis
qed

section \<open>Network difficulty\<close>

lemma small_normal: "(1 :: rat) / 2 ^ 60 \<le> x \<Longrightarrow> 2 powi (- 1022) \<le> \<bar>x\<bar>"
proof -
  assume x: "1 / 2 ^ 60 \<le> x"
  have "(2 :: rat) powi (- 1022) \<le> 2 powi (- 60)" by (simp add: power_int_mono)
  also have "\<dots> = 1 / 2 ^ 60" by (simp add: power_int_minus field_simps)
  also note x
  finally show ?thesis by simp
qed

lemma rnd_close:
  assumes "1 / 2 ^ 60 \<le> x"
  shows "x * (1 - 1 / 2 ^ 53) \<le> rnd x" "rnd x \<le> x * (1 + 1 / 2 ^ 53)"
proof -
  have "(0 :: rat) < 1 / 2 ^ 60" by simp
  with assms have "0 < x" by linarith
  with rnd_error [OF small_normal [OF assms]] have "\<bar>rnd x - x\<bar> \<le> x / 2 ^ 53" by simp
  then have "x - x / 2 ^ 53 \<le> rnd x" "rnd x \<le> x + x / 2 ^ 53" by linarith+
  then show "x * (1 - 1 / 2 ^ 53) \<le> rnd x" "rnd x \<le> x * (1 + 1 / 2 ^ 53)"
    by (simp_all add: algebra_simps)
qed

lemma networkDifficulty_Fin:
  assumes "0 < targetFromBits bits"
  defines "k \<equiv> POOL_DIFF1_TARGET * 10000000 div targetFromBits bits"
  shows "networkDifficultyFromBits bits = Fin (rnd (rnd (of_int k) / 10000000))" and "0 \<le> k"
proof -
  have nn: "0 \<le> POOL_DIFF1_TARGET * 10000000" using less_imp_le [OF pool_target_pos] by simp
  show k0: "0 \<le> k" unfolding k_def using assms nn by (simp add: pos_imp_zdiv_nonneg_iff)
  have "k \<le> POOL_DIFF1_TARGET * 10000000 div 1" unfolding k_def using nn assms by (intro zdiv_mono2) simp_all
  also have "\<dots> \<le> 2 ^ 256" by (simp add: POOL_DIFF1_TARGET_def)
  finally have "(of_int k :: rat) \<le> of_int (2 ^ 256)" by (simp only: of_int_le_iff)
  moreover have "rnd (2 ^ 256) = 2 ^ 256"
    by (rule rnd_exact, unfold representable_def, intro exI [of _ 1] exI [of _ 256]) simp
  ultimately have r: "rnd (of_int k) \<le> 2 ^ 256" by (intro dbl.r_le_fixed) simp_all
  have r0: "0 \<le> rnd (of_int k)" using k0 by (intro rnd_nonneg) simp
  have "rnd (rnd (of_int k) / 10000000) \<le> 2 ^ 256"
    by (rule dbl.r_le_fixed) (use r \<open>rnd (2 ^ 256) = 2 ^ 256\<close> in simp_all)
  moreover have "0 \<le> rnd (rnd (of_int k) / 10000000)" using r0 by (intro rnd_nonneg) simp
  moreover have "(2 :: rat) ^ 256 < 2 ^ 1024" by simp
  ultimately have f: "\<bar>rnd (of_int k)\<bar> < 2 ^ 1024" "\<bar>rnd (rnd (of_int k) / 10000000)\<bar> < 2 ^ 1024"
    using r r0 by linarith+
  show "networkDifficultyFromBits bits = Fin (rnd (rnd (of_int k) / 10000000))"
    using assms(1) f unfolding networkDifficultyFromBits_def Let_def k_def [symmetric]
    by (simp add: num_of_bigint_small) (simp add: num_of_bigint_def to_num_finite)
qed

lemma networkDifficulty_upper:
  assumes "networkDifficultyFromBits bits = Fin n" "0 < n" "0 < targetFromBits bits"
  shows "n \<le> of_int POOL_DIFF1_TARGET / of_int (targetFromBits bits) * (1 + 1 / 2 ^ 51)"
proof -
  let ?T = "targetFromBits bits"
  define k where "k = POOL_DIFF1_TARGET * 10000000 div ?T"
  have n: "n = rnd (rnd (of_int k) / 10000000)" and "0 \<le> k"
    using networkDifficulty_Fin [OF assms(3)] assms(1) by (simp_all add: k_def)
  with assms(2) have k1: "1 \<le> k" by (cases "k = 0") auto
  then have "(1 :: rat) \<le> of_int k" by simp
  moreover have "(1 :: rat) / 2 ^ 60 \<le> 1" by simp
  ultimately have "1 / 2 ^ 60 \<le> (of_int k :: rat)" by linarith
  from rnd_close(2) [OF this] have c1: "rnd (of_int k) \<le> of_int k * (1 + 1 / 2 ^ 53)" .
  have c2: "1 \<le> rnd (of_int k)"
    using \<open>1 \<le> of_int k\<close> rnd_of_int [of 1] by (intro dbl.r_ge_fixed) simp_all
  have "n \<le> rnd (of_int k) / 10000000 * (1 + 1 / 2 ^ 53)"
    unfolding n by (rule rnd_close(2)) (use c2 in simp)
  also have "\<dots> \<le> (of_int k * (1 + 1 / 2 ^ 53)) / 10000000 * (1 + 1 / 2 ^ 53)"
    using c1 by (intro mult_right_mono divide_right_mono) simp_all
  also have "\<dots> \<le> of_int k / 10000000 * (1 + 1 / 2 ^ 51)"
    using \<open>1 \<le> of_int k\<close> by (simp add: field_simps)
  also have "of_int k / 10000000 \<le> (of_int POOL_DIFF1_TARGET / of_int ?T :: rat)"
  proof -
    have "k * ?T \<le> POOL_DIFF1_TARGET * 10000000"
      unfolding k_def using assms(3) by (metis div_mult_mod_eq le_add_same_cancel1 pos_mod_sign add.commute)
    then have "(of_int (k * ?T) :: rat) \<le> of_int (POOL_DIFF1_TARGET * 10000000)" by (simp only: of_int_le_iff)
    then show ?thesis using assms(3) by (simp add: field_simps)
  qed
  finally show ?thesis by (simp add: mult_right_mono)
qed

section \<open>Properties\<close>

text \<open>
  C18: \<^verbatim>\<open>targetFromShareDifficulty\<close> returns exactly on the finite difficulties from
  \<^verbatim>\<open>MIN_SHARE_DIFFICULTY\<close> up to the overflow of the fixed-point product; it is antitone, and
  no share target reaches the all-accepting one.
\<close>
theorem share_target_spec:
  "((\<exists>t. targetFromShareDifficulty d = Inr t) \<longleftrightarrow>
      js_le MIN_SHARE_DIFFICULTY d \<and> js_is_finite (js_mul d (Fin 1000000))) \<and>
   (targetFromShareDifficulty d = Inr t \<and> targetFromShareDifficulty e = Inr u \<and> js_le d e \<longrightarrow>
      0 \<le> u \<and> u \<le> t \<and> t \<le> POOL_DIFF1_TARGET * 1000000 \<and> t < MAX_UINT256)"
proof (intro conjI impI)
  show "(\<exists>t. targetFromShareDifficulty d = Inr t) \<longleftrightarrow>
      js_le MIN_SHARE_DIFFICULTY d \<and> js_is_finite (js_mul d (Fin 1000000))"
    (is "?L \<longleftrightarrow> ?R")
  proof
    assume ?L
    then obtain x where x: "d = Fin x" "rnd (1 / 1000000) \<le> x" "rnd (x * 1000000) < 2 ^ 1024"
      by (metis targetFromShareDifficulty_InrD)
    moreover have "0 \<le> rnd (x * 1000000)"
      using x(2) rnd_nonneg [of "1 / 1000000"] by (intro rnd_nonneg) simp
    ultimately show ?R by (simp add: MIN_SHARE_Fin to_num_finite)
  next
    assume R: ?R
    then obtain x where x: "d = Fin x" "rnd (1 / 1000000) \<le> x"
      by (cases d) (auto simp: MIN_SHARE_Fin signed_inf_def)
    have "rnd (x * 1000000) < 2 ^ 1024"
    proof (rule ccontr)
      assume "\<not> rnd (x * 1000000) < 2 ^ 1024"
      then have "to_num (x * 1000000) = PosInf" by (simp add: to_num_def)
      with R x(1) show False by simp
    qed
    then show ?L using targetFromShareDifficulty_Fin [OF x(2)] x(1) by blast
  qed
next
  assume a: "targetFromShareDifficulty d = Inr t \<and> targetFromShareDifficulty e = Inr u \<and> js_le d e"
  obtain x where x: "d = Fin x" "rnd (1 / 1000000) \<le> x"
    "t = POOL_DIFF1_TARGET * 1000000 div scaled_diff x"
    using a by (metis targetFromShareDifficulty_InrD)
  obtain y where y: "e = Fin y" "u = POOL_DIFF1_TARGET * 1000000 div scaled_diff y"
    using a by (metis targetFromShareDifficulty_InrD)
  have p: "1 \<le> scaled_diff x" "scaled_diff x \<le> scaled_diff y"
    using scaled_diff_pos [OF x(2)] scaled_diff_mono [of x y] a x(1) y(1) by simp_all
  have nn: "0 \<le> POOL_DIFF1_TARGET * 1000000" using less_imp_le [OF pool_target_pos] by simp
  show "0 \<le> u" using p nn by (simp add: y(2) pos_imp_zdiv_nonneg_iff)
  show "u \<le> t" unfolding x(3) y(2) using p nn by (intro zdiv_mono2) simp_all
  show le: "t \<le> POOL_DIFF1_TARGET * 1000000"
    unfolding x(3) using zdiv_mono2 [OF nn, of 1 "scaled_diff x"] p by simp
  show "t < MAX_UINT256" using le pool_scaled_bound by linarith
qed

theorem share_target_spec_witness:
  "\<exists>t u. targetFromShareDifficulty (Fin 1) = Inr t \<and> targetFromShareDifficulty (Fin 2) = Inr u \<and>
     0 \<le> u \<and> u \<le> t \<and> t < MAX_UINT256"
proof -
  obtain t u where "targetFromShareDifficulty (Fin 1) = Inr t" "targetFromShareDifficulty (Fin 2) = Inr u"
    using targetFromShareDifficulty_int [of 1] targetFromShareDifficulty_int [of 2] by simp
  then show ?thesis using share_target_spec [of "Fin 1" t "Fin 2" u] by auto
qed

text \<open>
  The difficulty given to a miner is never above the network difficulty, and the share target
  derived from it is not below the network target by more than half a step of the $10^{-6}$
  fixed-point scale (and a relative error of $2^{-50}$ of double rounding).
\<close>
theorem assigned_near_network:
  assumes "networkDifficultyFromBits bits = Fin n" and "0 < n" and "0 < targetFromBits bits"
    and "targetFromShareDifficulty (assignedShareDifficulty configured (Some (Fin n))) = Inr t"
  shows "js_le (assignedShareDifficulty configured (Some (Fin n))) (Fin n) \<and>
    of_int (targetFromBits bits) * (of_int POOL_DIFF1_TARGET * 10 ^ 6) <
      (of_int (t + 1) :: rat) *
      (of_int POOL_DIFF1_TARGET * 10 ^ 6 * (1 + 1 / 2 ^ 50) + of_int (targetFromBits bits) / 2)"
proof -
  let ?D = "of_int POOL_DIFF1_TARGET :: rat" and ?T = "of_int (targetFromBits bits) :: rat"
  obtain a where a: "assignedShareDifficulty configured (Some (Fin n)) = Fin a"
      "rnd (1 / 1000000) \<le> a" "t = POOL_DIFF1_TARGET * 1000000 div scaled_diff a"
    using assms(4) by (metis targetFromShareDifficulty_InrD)
  then have an: "a \<le> n"
    using assms(2) by (cases configured) (auto simp: assignedShareDifficulty_def js_min_def split: if_splits)
  have "1 / 2 ^ 20 \<le> a" using a(2) rnd_min_share by linarith
  then have a60: "1 / 2 ^ 60 \<le> a * 1000000" and a0: "0 \<le> a" by simp_all
  have "of_int (scaled_diff a) \<le> rnd (a * 1000000) + 1 / 2" unfolding scaled_diff_def by linarith
  also have "\<dots> \<le> a * 1000000 * (1 + 1 / 2 ^ 53) + 1 / 2" using rnd_close(2) [OF a60] by simp
  also have "\<dots> \<le> n * 1000000 * (1 + 1 / 2 ^ 53) + 1 / 2" using an by simp
  also have "\<dots> \<le> ?D / ?T * (1 + 1 / 2 ^ 51) * 1000000 * (1 + 1 / 2 ^ 53) + 1 / 2"
    using networkDifficulty_upper [OF assms(1-3)] by simp
  also have "\<dots> \<le> ?D / ?T * 1000000 * (1 + 1 / 2 ^ 50) + 1 / 2"
    using assms(3) less_imp_le [OF pool_target_pos] by (simp add: field_simps)
  finally have sd: "of_int (scaled_diff a) * ?T \<le> ?D * 10 ^ 6 * (1 + 1 / 2 ^ 50) + ?T / 2"
    using assms(3) by (simp add: field_simps)
  have "POOL_DIFF1_TARGET * 1000000 < (t + 1) * scaled_diff a" and t0: "0 \<le> t"
    unfolding a(3) using scaled_diff_pos [OF a(2)] less_imp_le [OF pool_target_pos]
    by (simp_all add: pos_imp_zdiv_nonneg_iff div_succ_bound)
  then have "(of_int (POOL_DIFF1_TARGET * 1000000) :: rat) < of_int ((t + 1) * scaled_diff a)"
    by (simp only: of_int_less_iff)
  then have "?T * (?D * 10 ^ 6) < ?T * (of_int (t + 1) * of_int (scaled_diff a))"
    using assms(3) by (intro mult_strict_left_mono) simp_all
  also have "\<dots> = of_int (t + 1) * (of_int (scaled_diff a) * ?T)" by simp
  also have "\<dots> \<le> of_int (t + 1) * (?D * 10 ^ 6 * (1 + 1 / 2 ^ 50) + ?T / 2)"
    using sd t0 by (intro mult_left_mono) simp_all
  finally show ?thesis using an a(1) by simp
qed

text \<open>
  The compact target \<open>0x1d3fffff\<close> is the mainnet operating floor of the chain parameters.
  Its network difficulty is the double nearest to 0.0156247, which the fixed-point conversion of
  the share target rounds up to 15625 millionths.
\<close>

lemma floor_bits_target:
  "targetFromBits 0x1d3fffff = 0x3fffff * 256 ^ 26"
  by (simp add: targetFromBits_eq)

lemma floor_bits_difficulty:
  "networkDifficultyFromBits 0x1d3fffff = Fin (rnd (156247 / 10000000))"
proof -
  have "POOL_DIFF1_TARGET * 10000000 div targetFromBits 0x1d3fffff = 156247"
    by (simp add: floor_bits_target POOL_DIFF1_TARGET_def)
  moreover have "0 < targetFromBits 0x1d3fffff" by (simp add: floor_bits_target)
  ultimately show ?thesis using networkDifficulty_Fin(1) [of "0x1d3fffff"] rnd_of_int [of 156247] by simp
qed

lemma floor_bits_scaled: "scaled_diff (rnd (156247 / 10000000)) = 15625"
proof -
  let ?n = "rnd (156247 / 10000000)"
  have n: "156247 / 10000000 * (1 - 1 / 2 ^ 53) \<le> ?n" "?n \<le> 156247 / 10000000 * (1 + 1 / 2 ^ 53)"
    by (rule rnd_close; simp)+
  then have "1 / 2 ^ 60 \<le> ?n * 1000000" by simp
  from rnd_close [OF this]
  have "?n * 1000000 * (1 - 1 / 2 ^ 53) \<le> rnd (?n * 1000000)"
    "rnd (?n * 1000000) \<le> ?n * 1000000 * (1 + 1 / 2 ^ 53)" .
  with n have "15624 + 6 / 10 \<le> rnd (?n * 1000000)" "rnd (?n * 1000000) \<le> 15624 + 8 / 10" by simp_all
  then show ?thesis unfolding scaled_diff_def floor_eq_iff by simp
qed

lemma floor_bits_share_target:
  "targetFromShareDifficulty (Fin (rnd (156247 / 10000000))) = Inr (POOL_DIFF1_TARGET * 1000000 div 15625)"
proof -
  have "rnd (1 / 1000000) \<le> rnd (156247 / 10000000)" by (rule rnd_mono) simp
  moreover have "rnd (rnd (156247 / 10000000) * 1000000) \<le> 2 ^ 53"
  proof (rule dbl.r_le_fixed)
    show "rnd (2 ^ 53) = 2 ^ 53" using rnd_of_int [of "2 ^ 53"] by simp
    have "rnd (156247 / 10000000) \<le> 1" using rnd_of_int [of 1] by (intro dbl.r_le_fixed) simp_all
    then show "rnd (156247 / 10000000) * 1000000 \<le> 2 ^ 53" by simp
  qed
  moreover have "(2 :: rat) ^ 53 < 2 ^ 1024" by simp
  ultimately show ?thesis
    using targetFromShareDifficulty_Fin [of "rnd (156247 / 10000000)"] floor_bits_scaled by simp
qed

theorem assigned_near_network_witness:
  "\<exists>n t. networkDifficultyFromBits 0x1d3fffff = Fin n \<and>
     targetFromShareDifficulty (assignedShareDifficulty PosInf (Some (Fin n))) = Inr t \<and>
     of_int (targetFromBits 0x1d3fffff) * (of_int POOL_DIFF1_TARGET * 10 ^ 6) <
      (of_int (t + 1) :: rat) *
      (of_int POOL_DIFF1_TARGET * 10 ^ 6 * (1 + 1 / 2 ^ 50) + of_int (targetFromBits 0x1d3fffff) / 2)"
proof -
  let ?n = "rnd (156247 / 10000000)"
  have pos: "0 < ?n" using rnd_close(1) [of "156247 / 10000000"] by simp
  have a: "assignedShareDifficulty PosInf (Some (Fin ?n)) = Fin ?n"
    using pos by (simp add: assignedShareDifficulty_def)
  have t: "targetFromShareDifficulty (assignedShareDifficulty PosInf (Some (Fin ?n))) =
      Inr (POOL_DIFF1_TARGET * 1000000 div 15625)"
    unfolding a by (rule floor_bits_share_target)
  have "0 < targetFromBits 0x1d3fffff" by (simp add: floor_bits_target)
  note near = assigned_near_network [OF floor_bits_difficulty pos this t]
  show ?thesis by (intro exI conjI) (rule floor_bits_difficulty t conjunct2 [OF near])+
qed

text \<open>
  The doc comment's "never harder than the job network target" holds for the difficulty
  but not for the target: at the mainnet operating floor \<^verbatim>\<open>0x1d3fffff\<close> the assigned share
  target is strictly below the network target, so some hashes are blocks and not shares.
\<close>
theorem assigned_target_below_network:
  "\<exists>n t. networkDifficultyFromBits 0x1d3fffff = Fin n \<and>
     targetFromShareDifficulty (assignedShareDifficulty (Fin 1) (Some (Fin n))) = Inr t \<and>
     t < targetFromBits 0x1d3fffff"
proof -
  let ?n = "rnd (156247 / 10000000)"
  have pos: "0 < ?n" using rnd_close(1) [of "156247 / 10000000"] by simp
  have "?n \<le> 1 / 2" by (intro dbl.r_le_fixed) simp_all
  then have a: "assignedShareDifficulty (Fin 1) (Some (Fin ?n)) = Fin ?n"
    using pos by (simp add: assignedShareDifficulty_def js_min_def)
  have t: "targetFromShareDifficulty (assignedShareDifficulty (Fin 1) (Some (Fin ?n))) =
      Inr (POOL_DIFF1_TARGET * 1000000 div 15625)"
    unfolding a by (rule floor_bits_share_target)
  have "POOL_DIFF1_TARGET * 1000000 div 15625 < targetFromBits 0x1d3fffff"
    by (simp add: floor_bits_target POOL_DIFF1_TARGET_def)
  then show ?thesis by (intro exI conjI) (rule floor_bits_difficulty t | assumption)+
qed

end
