(* ===== verification/B3pow.thy ===== *)
theory B3pow
  imports Js_Bits Difficulty_Math
begin

text \<open>
  The proof of work B3PoW-Scratch v1.1 (\<^verbatim>\<open>lib/b3pow-scratch.ts\<close>): integer kernel, BLAKE3 rounds,
  scratchpad initialisation, lanes, addresses, the read-mix-write loop and the final hash.
  Words are JavaScript numbers (\<open>int\<close>) with the operators of \<open>Js_Bits\<close>. The library function
  \<^verbatim>\<open>blake3(data, {dkLen})\<close> is the argument \<open>b3\<close>; \<open>b3_ok\<close> states that it returns the
  requested number of bytes. \<^verbatim>\<open>b3powScratch\<close> mutates the pad it is given, so the model returns the
  pad as well.

  The kernel on \<open>int\<close> is refined to \<open>ref_compress\<close>, the same computation on 32-bit machine
  words; the invariant \<open>lanes_ok\<close> (eight lanes of 32 bytes) and the pad length carry the
  totality of the loop.
\<close>

section \<open>Constants\<close>

definition SCRATCH_BYTES :: nat where "SCRATCH_BYTES = 1048576"
definition LANES :: nat where "LANES = 8"
definition LANE_BYTES :: nat where "LANE_BYTES = SCRATCH_BYTES div LANES"
definition BLOCK_BYTES :: nat where "BLOCK_BYTES = 64"
definition LANE_BLOCKS :: nat where "LANE_BLOCKS = LANE_BYTES div BLOCK_BYTES"
definition ITERATIONS :: nat where "ITERATIONS = 2048"
definition INNER_ROUNDS :: nat where "INNER_ROUNDS = 2"
definition SCRATCH_BLOCKS :: nat where "SCRATCH_BLOCKS = SCRATCH_BYTES div BLOCK_BYTES"

definition BLAKE3_IV :: "int list" where
  "BLAKE3_IV = [0x6a09e667, 0xbb67ae85, 0x3c6ef372, 0xa54ff53a,
                0x510e527f, 0x9b05688c, 0x1f83d9ab, 0x5be0cd19]"

definition BLAKE3_PERM :: "nat list" where
  "BLAKE3_PERM = [2, 6, 3, 10, 7, 0, 4, 13, 1, 11, 12, 5, 9, 14, 15, 8]"

definition ITER_MUL :: "int list" where
  "ITER_MUL = [0xA0761D6478BD642F, 0xE7037ED1A0B428DB, 0x8EBC6AF09C88C6E3, 0x589965CC75374CC3,
               0x1D8E4E27C47D124F, 0xEB44ACCAB455D165, 0xC863B19A77C75D70, 0x6E5C6F88AA5BDA77]"

definition LANE_SHUFFLE :: "nat list" where
  "LANE_SHUFFLE = [1, 6, 3, 0, 5, 2, 7, 4]"

definition MASK64 :: int where "MASK64 = 0xffffffffffffffff"

section \<open>Integer kernel\<close>

definition rotr32 :: "int \<Rightarrow> nat \<Rightarrow> int" where
  "rotr32 x n = (let v = to_uint32 x in to_uint32 (js_or (js_ushr v n) (js_shl v (32 - n))))"

definition rotr64 :: "int \<Rightarrow> nat \<Rightarrow> int" where
  "rotr64 x n = (drop_bit n x OR push_bit (64 - n) x) AND MASK64"

definition add32 :: "int \<Rightarrow> int \<Rightarrow> int \<Rightarrow> int" where
  "add32 a b c = to_uint32 (to_uint32 (a + b) + c)"

text \<open>The reads are in range wherever the code calls them.\<close>

definition readLEWord :: "bytes \<Rightarrow> nat \<Rightarrow> int" where
  "readLEWord buf off = to_uint32 (js_or (js_or (js_or (uint (buf ! off))
     (js_shl (uint (buf ! (off + 1))) 8)) (js_shl (uint (buf ! (off + 2))) 16))
     (js_shl (uint (buf ! (off + 3))) 24))"

definition readLEUint64 :: "bytes \<Rightarrow> nat \<Rightarrow> int" where
  "readLEUint64 buf off = readLEWord buf off OR push_bit 32 (readLEWord buf (off + 4))"

definition writeLEWord :: "int \<Rightarrow> bytes" where
  "writeLEWord x = (let w = to_uint32 x in
     [word_of_int (js_and w 0xff), word_of_int (js_and (js_ushr w 8) 0xff),
      word_of_int (js_and (js_ushr w 16) 0xff), word_of_int (js_and (js_ushr w 24) 0xff)])"

definition writeLEWords :: "int list \<Rightarrow> bytes" where
  "writeLEWords ws = concat (map writeLEWord ws)"

definition leWords :: "bytes \<Rightarrow> int list res" where
  "leWords buf = throw_if (length buf mod 4 \<noteq> 0) (Error ''buffer length must be a multiple of 4'')
     (Inr (map (\<lambda>i. readLEWord buf (i * 4)) [0..<length buf div 4]))"

text \<open>\<^verbatim>\<open>g\<close> of the source.\<close>

definition blake3_g :: "int list \<Rightarrow> nat \<Rightarrow> nat \<Rightarrow> nat \<Rightarrow> nat \<Rightarrow> int \<Rightarrow> int \<Rightarrow> int list" where
  "blake3_g s a b c d mx my =
     (let s = s[a := add32 (s ! a) (s ! b) mx];
          s = s[d := rotr32 (to_uint32 (js_xor (s ! d) (s ! a))) 16];
          s = s[c := add32 (s ! c) (s ! d) 0];
          s = s[b := rotr32 (to_uint32 (js_xor (s ! b) (s ! c))) 12];
          s = s[a := add32 (s ! a) (s ! b) my];
          s = s[d := rotr32 (to_uint32 (js_xor (s ! d) (s ! a))) 8];
          s = s[c := add32 (s ! c) (s ! d) 0]
      in s[b := rotr32 (to_uint32 (js_xor (s ! b) (s ! c))) 7])"

definition roundFn :: "int list \<Rightarrow> int list \<Rightarrow> int list" where
  "roundFn state m =
     (let state = blake3_g state 0 4 8 12 (m ! 0) (m ! 1);
          state = blake3_g state 1 5 9 13 (m ! 2) (m ! 3);
          state = blake3_g state 2 6 10 14 (m ! 4) (m ! 5);
          state = blake3_g state 3 7 11 15 (m ! 6) (m ! 7);
          state = blake3_g state 0 5 10 15 (m ! 8) (m ! 9);
          state = blake3_g state 1 6 11 12 (m ! 10) (m ! 11);
          state = blake3_g state 2 7 8 13 (m ! 12) (m ! 13)
      in blake3_g state 3 4 9 14 (m ! 14) (m ! 15))"

definition permuteMsg :: "'a list \<Rightarrow> 'a list" where
  "permuteMsg m = map (\<lambda>i. m ! (BLAKE3_PERM ! i)) [0..<16]"

fun inner_rounds :: "nat \<Rightarrow> int list \<Rightarrow> int list \<Rightarrow> int list \<times> int list" where
  "inner_rounds 0 state m = (state, m)"
| "inner_rounds (Suc r) state m = inner_rounds r (roundFn state m) (permuteMsg m)"

definition blake3ShortCompress :: "int list \<Rightarrow> int list \<Rightarrow> nat \<Rightarrow> int list \<times> int list" where
  "blake3ShortCompress cv block innerRounds =
     (let state = [cv ! 0, cv ! 1, cv ! 2, cv ! 3, cv ! 4, cv ! 5, cv ! 6, cv ! 7,
                   BLAKE3_IV ! 0, BLAKE3_IV ! 1, BLAKE3_IV ! 2, BLAKE3_IV ! 3,
                   0, 0, int BLOCK_BYTES, 0];
          (state, m) = inner_rounds innerRounds state block
      in (map (\<lambda>i. to_uint32 (js_xor (state ! i) (state ! (i + 8)))) [0..<8], m))"

section \<open>Scratchpad and lanes\<close>

definition blake3Hash :: "(bytes \<Rightarrow> nat \<Rightarrow> bytes) \<Rightarrow> bytes \<Rightarrow> bytes" where
  "blake3Hash b3 data = b3 data 32"

definition blake3Xof :: "(bytes \<Rightarrow> nat \<Rightarrow> bytes) \<Rightarrow> bytes \<Rightarrow> nat \<Rightarrow> bytes" where
  "blake3Xof b3 data outLen = b3 data outLen"

text \<open>The four index bytes written after the seed.\<close>

definition index_bytes :: "nat \<Rightarrow> bytes" where
  "index_bytes i = [word_of_int (js_and (int i) 0xff), word_of_int (js_and (js_ushr (int i) 8) 0xff),
     word_of_int (js_and (js_ushr (int i) 16) 0xff), word_of_int (js_and (js_ushr (int i) 24) 0xff)]"

definition initScratchpad :: "(bytes \<Rightarrow> nat \<Rightarrow> bytes) \<Rightarrow> bytes \<Rightarrow> bytes res" where
  "initScratchpad b3 prevBlockHashLE =
     throw_if (length prevBlockHashLE \<noteq> 32) (Error ''prevBlockHashLE must be 32 bytes'') (
     foldl (\<lambda>r i. andthen r (\<lambda>pad.
         arr_set pad (blake3Xof b3 (prevBlockHashLE @ index_bytes i) BLOCK_BYTES) (i * BLOCK_BYTES)))
       (Inr (replicate SCRATCH_BYTES 0)) [0..<SCRATCH_BLOCKS])"

definition initLanes :: "(bytes \<Rightarrow> nat \<Rightarrow> bytes) \<Rightarrow> bytes \<Rightarrow> bytes list res" where
  "initLanes b3 seed =
     throw_if (length seed \<noteq> 32) (Error ''seed must be 32 bytes'')
       (Inr (map (\<lambda>L. blake3Hash b3 (seed @ index_bytes L)) [0..<LANES]))"

definition deriveAddresses :: "bytes list \<Rightarrow> nat \<Rightarrow> nat list" where
  "deriveAddresses lanes iterIdx =
     (let msk = int LANE_BLOCKS - 1; itr = to_uint32 (int iterIdx) in
      map (\<lambda>L. let lo = readLEUint64 (lanes ! L) 0;
                  hi = readLEUint64 (lanes ! L) 8;
                  mul = ((hi XOR itr) * ITER_MUL ! L) AND MASK64;
                  mixed = lo XOR rotr64 mul 23
              in nat (mixed AND msk)) [0..<LANES])"

definition block_base :: "nat list \<Rightarrow> nat \<Rightarrow> nat" where
  "block_base addrs L = L * LANE_BYTES + addrs ! L * BLOCK_BYTES"

definition readScratchpadBlocks :: "bytes \<Rightarrow> nat list \<Rightarrow> bytes list" where
  "readScratchpadBlocks pad addrs =
     map (\<lambda>L. slice pad (block_base addrs L) (block_base addrs L + BLOCK_BYTES)) [0..<LANES]"

definition writeScratchpadBlocks :: "bytes \<Rightarrow> nat list \<Rightarrow> bytes list \<Rightarrow> bytes res" where
  "writeScratchpadBlocks pad addrs newBlocks =
     foldl (\<lambda>r L. andthen r (\<lambda>p. arr_set p (newBlocks ! L) (block_base addrs L))) (Inr pad) [0..<LANES]"

text \<open>One lane of \<^verbatim>\<open>mixStep\<close>: the new lane and the block to write back.\<close>

definition mixLane :: "bytes \<Rightarrow> bytes \<Rightarrow> (bytes \<times> bytes) res" where
  "mixLane lane block =
     andthen (leWords lane) (\<lambda>cv.
     andthen (leWords block) (\<lambda>msg.
       let (newCv, permutedMsg) = blake3ShortCompress cv msg INNER_ROUNDS;
           permBytes = writeLEWords permutedMsg
       in Inr (writeLEWords newCv, map (\<lambda>i. block ! i XOR permBytes ! i) [0..<BLOCK_BYTES])))"

definition mixStep :: "bytes list \<Rightarrow> bytes list \<Rightarrow> (bytes list \<times> bytes list) res" where
  "mixStep lanes blocks =
     andthen (mapR (\<lambda>L. mixLane (lanes ! L) (blocks ! L)) [0..<LANES]) (\<lambda>mixed.
       let newLanes = map fst mixed; newBlocks = map snd mixed
       in Inr (map (\<lambda>L. newLanes ! (LANE_SHUFFLE ! L)) [0..<LANES], newBlocks))"

definition serialiseLanes :: "bytes list \<Rightarrow> bytes res" where
  "serialiseLanes lanes =
     foldl (\<lambda>r L. andthen r (\<lambda>out. arr_set out (lanes ! L) (L * 32)))
       (Inr (replicate (LANES * 32) 0)) [0..<LANES]"

section \<open>The proof of work\<close>

record b3pow_result =
  powHash :: bytes
  iterations :: nat

text \<open>One iteration of the read-mix-write loop, on the pad and the lanes.\<close>

definition pow_step :: "nat \<Rightarrow> bytes \<times> bytes list \<Rightarrow> (bytes \<times> bytes list) res" where
  "pow_step r st = (case st of (padBuf, lanes) \<Rightarrow>
     let addrs = deriveAddresses lanes r;
         blocks = readScratchpadBlocks padBuf addrs
     in andthen (mixStep lanes blocks) (\<lambda>(newLanes, newBlocks).
        andthen (writeScratchpadBlocks padBuf addrs newBlocks) (\<lambda>padBuf. Inr (padBuf, newLanes))))"

definition b3powScratch ::
  "(bytes \<Rightarrow> nat \<Rightarrow> bytes) \<Rightarrow> bytes \<Rightarrow> bytes \<Rightarrow> bytes option \<Rightarrow> (b3pow_result \<times> bytes) res" where
  "b3powScratch b3 header prevBlockHashLE pad =
     throw_if (length header \<noteq> 80) (Error ''header must be 80 bytes'') (
     throw_if (length prevBlockHashLE \<noteq> 32) (Error ''prevBlockHashLE must be 32 bytes'') (
     let nonce = slice header 76 80; seed = blake3Hash b3 header in
     andthen (case pad of Some p \<Rightarrow> Inr p | None \<Rightarrow> initScratchpad b3 prevBlockHashLE) (\<lambda>padBuf.
     throw_if (length padBuf \<noteq> SCRATCH_BYTES) (Error ''pad must be SCRATCH_BYTES bytes'') (
     andthen (initLanes b3 seed) (\<lambda>lanes.
     andthen (foldl (\<lambda>s r. andthen s (pow_step r)) (Inr (padBuf, lanes)) [0..<ITERATIONS])
       (\<lambda>(padBuf, lanes).
     andthen (serialiseLanes lanes) (\<lambda>ser.
     andthen (arr_set (replicate (LANES * 32 + 4) 0) ser 0) (\<lambda>tail.
     andthen (arr_set tail nonce (LANES * 32)) (\<lambda>tail.
       Inr (\<lparr> powHash = blake3Hash b3 tail, iterations = ITERATIONS \<rparr>, padBuf))))))))))"

definition intLE :: "bytes \<Rightarrow> int res" where
  "intLE buf = throw_if (length buf \<noteq> 32) (Error ''expected 32-byte buffer'')
     (Inr (foldl (\<lambda>acc i. push_bit 8 acc OR uint (buf ! i)) 0 (rev [0..<32])))"

definition nbitsToTarget :: "int \<Rightarrow> int" where
  "nbitsToTarget nbits =
     (let sz = js_and (js_ushr nbits 24) 0xff; w = js_and nbits 0x007fffff
      in if sz \<le> 3 then drop_bit (nat (8 * (3 - sz))) w else push_bit (nat (8 * (sz - 3))) w)"

definition checkPow :: "(bytes \<Rightarrow> nat \<Rightarrow> bytes) \<Rightarrow> bytes \<Rightarrow> bytes \<Rightarrow> int \<Rightarrow> bytes option \<Rightarrow> bool res" where
  "checkPow b3 header prevBlockHashLE nbits pad =
     andthen (b3powScratch b3 header prevBlockHashLE pad) (\<lambda>(res, _).
     andthen (intLE (powHash res)) (\<lambda>n. Inr (n \<le> nbitsToTarget nbits)))"

section \<open>Reference kernel on machine words\<close>

definition ref_g ::
  "32 word list \<Rightarrow> nat \<Rightarrow> nat \<Rightarrow> nat \<Rightarrow> nat \<Rightarrow> 32 word \<Rightarrow> 32 word \<Rightarrow> 32 word list" where
  "ref_g s a b c d mx my =
     (let s = s[a := s ! a + s ! b + mx];
          s = s[d := word_rotr 16 (s ! d XOR s ! a)];
          s = s[c := s ! c + s ! d];
          s = s[b := word_rotr 12 (s ! b XOR s ! c)];
          s = s[a := s ! a + s ! b + my];
          s = s[d := word_rotr 8 (s ! d XOR s ! a)];
          s = s[c := s ! c + s ! d]
      in s[b := word_rotr 7 (s ! b XOR s ! c)])"

definition ref_schedule :: "(nat \<times> nat \<times> nat \<times> nat) list" where
  "ref_schedule = [(0, 4, 8, 12), (1, 5, 9, 13), (2, 6, 10, 14), (3, 7, 11, 15),
                   (0, 5, 10, 15), (1, 6, 11, 12), (2, 7, 8, 13), (3, 4, 9, 14)]"

definition ref_round :: "32 word list \<Rightarrow> 32 word list \<Rightarrow> 32 word list" where
  "ref_round s m = foldl (\<lambda>s (i, a, b, c, d). ref_g s a b c d (m ! (2 * i)) (m ! (2 * i + 1))) s
     (enumerate 0 ref_schedule)"

definition ref_compress :: "32 word list \<Rightarrow> 32 word list \<Rightarrow> nat \<Rightarrow> 32 word list \<times> 32 word list" where
  "ref_compress cv block n =
     (let (s, m) = ((\<lambda>(s, m). (ref_round s m, permuteMsg m)) ^^ n)
            (take 8 cv @ [0x6a09e667, 0xbb67ae85, 0x3c6ef372, 0xa54ff53a, 0, 0, 64, 0], block)
      in (map2 (XOR) (take 8 s) (drop 8 s), m))"

section \<open>The integer kernel computes the word kernel\<close>

lemma rotr32_w32 [w32_simps]: "0 < n \<Longrightarrow> n < 32 \<Longrightarrow> w32 (rotr32 x n) = word_rotr n (w32 x)"
proof (rule bit_eqI)
  fix k assume n: "0 < n" "n < 32" and "possible_bit TYPE(32 word) k"
  then have k: "k < 32" by simp
  have "bit (w32 (rotr32 x n)) k \<longleftrightarrow> bit (drop_bit n (w32 x) OR push_bit (32 - n) (w32 x)) k"
    using n by (simp add: rotr32_def Let_def w32_simps)
  also have "\<dots> \<longleftrightarrow> bit (w32 x) ((k + n) mod 32)"
  proof (cases "k + n < 32")
    case True
    then have "\<not> 32 - n \<le> k" using n by simp
    with True show ?thesis using n k by (simp add: bit_simps bit_w32 add.commute)
  next
    case False
    then have "(k + n) mod 32 = k + n - 32" using n k by (simp add: mod_if)
    with False show ?thesis using n k by (auto simp: bit_simps bit_w32 add.commute)
  qed
  finally show "bit (w32 (rotr32 x n)) k = bit (word_rotr n (w32 x)) k"
    using k by (simp add: bit_word_rotr_iff)
qed

lemma add32_w32 [w32_simps]: "w32 (add32 a b c) = w32 a + w32 b + w32 c"
  by (simp add: add32_def w32_simps)

lemma w32_zero [w32_simps]: "w32 0 = 0"
  by (simp add: w32_def)

lemma w32_nth: "i < length s \<Longrightarrow> w32 (s ! i) = map w32 s ! i"
  by simp

lemma length_blake3_g [simp, byte_simps]: "length (blake3_g s a b c d mx my) = length s"
  by (simp add: blake3_g_def Let_def)

lemma blake3_g_refines:
  assumes "a < length s" "b < length s" "c < length s" "d < length s"
  shows "map w32 (blake3_g s a b c d mx my) = ref_g (map w32 s) a b c d (w32 mx) (w32 my)"
  using assms
  by (simp add: blake3_g_def ref_g_def Let_def map_update w32_simps w32_nth del: nth_map)

lemma length_roundFn [simp, byte_simps]: "length (roundFn s m) = length s"
  by (simp add: roundFn_def Let_def)

lemma roundFn_refines:
  assumes "length s = 16" "length m = 16"
  shows "map w32 (roundFn s m) = ref_round (map w32 s) (map w32 m)"
  using assms
  by (simp add: roundFn_def ref_round_def ref_schedule_def Let_def blake3_g_refines w32_nth
      eval_nat_numeral enumerate_Suc_eq del: nth_map)

lemma length_permuteMsg [simp, byte_simps]: "length (permuteMsg m) = 16"
  by (simp add: permuteMsg_def)

lemma perm_bound: "i < 16 \<Longrightarrow> BLAKE3_PERM ! i < 16"
  by (simp add: BLAKE3_PERM_def less_Suc_eq numeral_eq_Suc nth_Cons') arith

lemma permuteMsg_map: "length m = 16 \<Longrightarrow> map f (permuteMsg m) = permuteMsg (map f m)"
  by (simp add: permuteMsg_def perm_bound)

lemma inner_rounds_refines:
  assumes "length s = 16" "length m = 16"
  shows "map_prod (map w32) (map w32) (inner_rounds n s m) =
    ((\<lambda>(s, m). (ref_round s m, permuteMsg m)) ^^ n) (map w32 s, map w32 m)"
  using assms
  by (induction n arbitrary: s m) (simp_all add: funpow_swap1 roundFn_refines permuteMsg_map del: funpow.simps(2) add: funpow_Suc_right)

lemma length_inner_rounds:
  "length s = 16 \<Longrightarrow> length m = 16 \<Longrightarrow> inner_rounds n s m = (s', m') \<Longrightarrow> length s' = 16 \<and> length m' = 16"
  by (induction n arbitrary: s m) (simp, metis inner_rounds.simps(2) length_permuteMsg length_roundFn)

lemma nth8: "length cv = 8 \<Longrightarrow> [cv ! 0, cv ! 1, cv ! 2, cv ! 3, cv ! 4, cv ! 5, cv ! 6, cv ! 7] = cv"
  by (rule nth_equalityI) (auto simp: less_Suc_eq numeral_eq_Suc)

lemma length_compress:
  assumes "length block = 16" "blake3ShortCompress cv block n = (cv', m')"
  shows "length cv' = 8 \<and> length m' = 16"
  using assms by (auto simp: blake3ShortCompress_def Let_def split: prod.splits dest: length_inner_rounds [rotated 2])

lemma compress_refines:
  assumes "length cv = 8" "length block = 16"
  shows "map_prod id (map w32) (blake3ShortCompress cv block n) =
    map_prod (map uint) id (ref_compress (map w32 cv) (map w32 block) n)"
proof -
  let ?s = "cv @ [0x6a09e667, 0xbb67ae85, 0x3c6ef372, 0xa54ff53a, 0, 0, 64, 0]"
  obtain s m where sm: "inner_rounds n ?s block = (s, m)" by fastforce
  have len: "length s = 16" using length_inner_rounds [OF _ assms(2) sm] assms(1) by simp
  have start: "[cv ! 0, cv ! 1, cv ! 2, cv ! 3, cv ! 4, cv ! 5, cv ! 6, cv ! 7, BLAKE3_IV ! 0,
      BLAKE3_IV ! 1, BLAKE3_IV ! 2, BLAKE3_IV ! 3, 0, 0, int BLOCK_BYTES, 0] = ?s"
    using nth8 [OF assms(1)] by (simp add: BLAKE3_IV_def BLOCK_BYTES_def)
  have "((\<lambda>(s, m). (ref_round s m, permuteMsg m)) ^^ n) (map w32 ?s, map w32 block) = (map w32 s, map w32 m)"
    using inner_rounds_refines [of ?s block n] assms sm by simp
  moreover have "map w32 ?s = take 8 (map w32 cv) @ [0x6a09e667, 0xbb67ae85, 0x3c6ef372, 0xa54ff53a, 0, 0, 64, 0]"
    using assms(1) by (simp add: w32_def)
  moreover have "map (\<lambda>i. to_uint32 (js_xor (s ! i) (s ! (i + 8)))) [0..<8] =
      map uint (map2 (XOR) (take 8 (map w32 s)) (drop 8 (map w32 s)))"
  proof (rule nth_equalityI)
    fix i assume "i < length (map (\<lambda>i. to_uint32 (js_xor (s ! i) (s ! (i + 8)))) [0..<8])"
    then show "map (\<lambda>i. to_uint32 (js_xor (s ! i) (s ! (i + 8)))) [0..<8] ! i =
        map uint (map2 (XOR) (take 8 (map w32 s)) (drop 8 (map w32 s))) ! i"
      using len uint_w32 [of "to_uint32 (js_xor (s ! i) (s ! (i + 8)))"]
      by (simp add: w32_simps add.commute)
  qed (simp add: len)
  ultimately show ?thesis
    unfolding blake3ShortCompress_def ref_compress_def Let_def start sm by simp
qed

section \<open>Byte layout\<close>

lemma length_writeLEWord [simp, byte_simps]: "length (writeLEWord w) = 4"
  by (simp add: writeLEWord_def Let_def)

lemma length_writeLEWords [simp, byte_simps]: "length (writeLEWords ws) = 4 * length ws"
  by (induction ws) (simp_all add: writeLEWords_def)

lemma leWords_Inr: "length buf mod 4 = 0 \<Longrightarrow>
  leWords buf = Inr (map (\<lambda>i. readLEWord buf (i * 4)) [0..<length buf div 4])"
  by (simp add: leWords_def)

lemma js_and_byte: "(word_of_int (js_and x 0xff) :: byte) = word_of_int x"
proof (rule bit_eqI)
  fix n assume "possible_bit TYPE(8 word) n"
  then have n: "n < 8" by simp
  have "(0xff :: int) = mask 8" by (simp add: mask_eq_exp_minus_1)
  then have "bit (0xff :: int) n" using n by (simp only: bit_mask_iff) simp
  then show "bit (word_of_int (js_and x 0xff) :: byte) n = bit (word_of_int x :: byte) n"
    using n by (simp add: bit_word_of_int_iff js_and_def bit_simps bit_to_int32)
qed

section \<open>Addresses and blocks\<close>

lemmas pow_sizes = SCRATCH_BYTES_def LANES_def LANE_BYTES_def BLOCK_BYTES_def LANE_BLOCKS_def
  SCRATCH_BLOCKS_def

definition addrs_ok :: "nat list \<Rightarrow> bool" where
  "addrs_ok addrs \<longleftrightarrow> length addrs = LANES \<and> (\<forall>a \<in> set addrs. a < LANE_BLOCKS)"

definition lanes_ok :: "bytes list \<Rightarrow> bool" where
  "lanes_ok lanes \<longleftrightarrow> length lanes = LANES \<and> (\<forall>l \<in> set lanes. length l = 32)"

definition blocks_ok :: "bytes list \<Rightarrow> bool" where
  "blocks_ok blocks \<longleftrightarrow> length blocks = LANES \<and> (\<forall>b \<in> set blocks. length b = BLOCK_BYTES)"

lemma addrs_ok_derive: "addrs_ok (deriveAddresses lanes r)"
proof -
  have "nat (x AND 2047) < 2048" for x :: int
  proof -
    have "x AND 2047 = x mod 2048"
      using take_bit_eq_mask [of 11 x] by (simp add: mask_eq_exp_minus_1 take_bit_eq_mod)
    then show ?thesis by (simp add: nat_less_iff)
  qed
  then show ?thesis by (auto simp: addrs_ok_def deriveAddresses_def Let_def pow_sizes)
qed

lemma block_base_bounds:
  assumes "addrs_ok addrs" "L < LANES"
  shows "L * LANE_BYTES \<le> block_base addrs L" "block_base addrs L + BLOCK_BYTES \<le> Suc L * LANE_BYTES"
    "block_base addrs L + BLOCK_BYTES \<le> SCRATCH_BYTES"
proof -
  have "addrs ! L < 2048" "L < 8" using assms by (auto simp: addrs_ok_def pow_sizes)
  then show "L * LANE_BYTES \<le> block_base addrs L" "block_base addrs L + BLOCK_BYTES \<le> Suc L * LANE_BYTES"
    "block_base addrs L + BLOCK_BYTES \<le> SCRATCH_BYTES" by (simp_all add: block_base_def pow_sizes)
qed

lemma block_disjoint:
  assumes "addrs_ok addrs" "L < M" "M < LANES"
  shows "block_base addrs L + BLOCK_BYTES \<le> block_base addrs M"
proof -
  have "block_base addrs L + BLOCK_BYTES \<le> Suc L * LANE_BYTES"
    using assms by (intro block_base_bounds) simp_all
  also have "\<dots> \<le> M * LANE_BYTES" using assms(2) by (intro mult_right_mono) simp_all
  also have "\<dots> \<le> block_base addrs M" using assms by (intro block_base_bounds)
  finally show ?thesis .
qed

lemma slice_arr_set_same:
  "off + length src \<le> length dst \<Longrightarrow>
   slice (take off dst @ src @ drop (off + length src) dst) off (off + length src) = src"
  by (simp add: slice_def)

lemma nth_arr_set:
  assumes "arr_set dst src off = Inr out" "k < length dst"
  shows "out ! k = (if off \<le> k \<and> k < off + length src then src ! (k - off) else dst ! k)"
  using assms by (auto simp: arr_set_def nth_append split: if_splits)

text \<open>The content of the pad after the first \<open>n\<close> lanes have been written.\<close>

lemma write_prefix:
  assumes "addrs_ok addrs" "blocks_ok bs" "length pad = SCRATCH_BYTES" "n \<le> LANES"
  shows "\<exists>p. foldl (\<lambda>r L. andthen r (\<lambda>p. arr_set p (bs ! L) (block_base addrs L))) (Inr pad) [0..<n] = Inr p \<and>
    length p = SCRATCH_BYTES \<and>
    (\<forall>k < SCRATCH_BYTES. \<forall>L < n. block_base addrs L \<le> k \<and> k < block_base addrs L + BLOCK_BYTES \<longrightarrow>
       p ! k = bs ! L ! (k - block_base addrs L)) \<and>
    (\<forall>k < SCRATCH_BYTES. (\<forall>L < n. \<not> (block_base addrs L \<le> k \<and> k < block_base addrs L + BLOCK_BYTES)) \<longrightarrow>
       p ! k = pad ! k)"
  using assms(4)
proof (induction n)
  case 0
  then show ?case using assms(3) by simp
next
  case (Suc n)
  then obtain p where p: "foldl (\<lambda>r L. andthen r (\<lambda>p. arr_set p (bs ! L) (block_base addrs L))) (Inr pad) [0..<n] = Inr p"
    "length p = SCRATCH_BYTES"
    "\<forall>k < SCRATCH_BYTES. \<forall>L < n. block_base addrs L \<le> k \<and> k < block_base addrs L + BLOCK_BYTES \<longrightarrow>
       p ! k = bs ! L ! (k - block_base addrs L)"
    "\<forall>k < SCRATCH_BYTES. (\<forall>L < n. \<not> (block_base addrs L \<le> k \<and> k < block_base addrs L + BLOCK_BYTES)) \<longrightarrow>
       p ! k = pad ! k" by auto
  have len: "length (bs ! n) = BLOCK_BYTES" using assms(2) Suc.prems by (auto simp: blocks_ok_def)
  have fit: "block_base addrs n + length (bs ! n) \<le> length p"
    using block_base_bounds(3) [OF assms(1), of n] Suc.prems len p(2) by simp
  then obtain q where q: "arr_set p (bs ! n) (block_base addrs n) = Inr q" by simp
  note nth = nth_arr_set [OF q, unfolded p(2) len]
  have lq: "length q = SCRATCH_BYTES" using arr_set_length [OF q] p(2) by simp
  have dis: "\<not> (block_base addrs n \<le> k \<and> k < block_base addrs n + BLOCK_BYTES)"
    if "L < n" "k < block_base addrs L + BLOCK_BYTES" for k L
    using block_disjoint [OF assms(1) that(1)] Suc.prems that(2) by simp
  show ?case
    using p(1) q lq nth p(3,4) dis by (intro exI [of _ q]) (auto simp: less_Suc_eq)
qed

lemma write_total:
  assumes "addrs_ok addrs" "blocks_ok bs" "length pad = SCRATCH_BYTES"
  obtains p where "writeScratchpadBlocks pad addrs bs = Inr p" "length p = SCRATCH_BYTES"
  using write_prefix [OF assms order_refl] that unfolding writeScratchpadBlocks_def by blast

lemma blocks_ok_read:
  assumes "addrs_ok addrs" "length pad = SCRATCH_BYTES"
  shows "blocks_ok (readScratchpadBlocks pad addrs)"
proof -
  have "min BLOCK_BYTES (SCRATCH_BYTES - block_base addrs L) = BLOCK_BYTES" if "L < LANES" for L
    using block_base_bounds(3) [OF assms(1) that] by linarith
  then show ?thesis using assms(2) by (auto simp: blocks_ok_def readScratchpadBlocks_def)
qed

section \<open>Invariant of the loop\<close>

lemma mixLane_total:
  assumes "length lane = 32" "length block = BLOCK_BYTES"
  obtains l b where "mixLane lane block = Inr (l, b)" "length l = 32" "length b = BLOCK_BYTES"
proof -
  let ?cv = "map (\<lambda>i. readLEWord lane (i * 4)) [0..<8]" and ?m = "map (\<lambda>i. readLEWord block (i * 4)) [0..<16]"
  obtain c m where cm: "blake3ShortCompress ?cv ?m INNER_ROUNDS = (c, m)" by fastforce
  have "length c = 8" using length_compress [OF _ cm] by simp
  moreover have "leWords lane = Inr ?cv" "leWords block = Inr ?m"
    using assms by (simp_all add: leWords_Inr BLOCK_BYTES_def)
  ultimately show ?thesis using cm that by (simp add: mixLane_def)
qed

lemma shuffle_bound: "L < LANES \<Longrightarrow> LANE_SHUFFLE ! L = (5 * L + 1) mod 8"
proof -
  have "list_all (\<lambda>L. LANE_SHUFFLE ! L = (5 * L + 1) mod 8) [0..<8]" by code_simp
  then show "L < LANES \<Longrightarrow> LANE_SHUFFLE ! L = (5 * L + 1) mod 8"
    by (simp only: list_all_iff LANES_def set_upt atLeastLessThan_iff)  simp
qed

lemma mapR_total:
  "(\<And>x. x \<in> set xs \<Longrightarrow> \<exists>y. f x = Inr y \<and> P y) \<Longrightarrow>
   \<exists>ys. mapR f xs = Inr ys \<and> length ys = length xs \<and> (\<forall>y \<in> set ys. P y)"
proof (induction xs)
  case (Cons x xs)
  obtain y where "f x = Inr y" "P y" using Cons.prems [of x] by auto
  moreover obtain ys where "mapR f xs = Inr ys" "length ys = length xs" "\<forall>y \<in> set ys. P y"
    using Cons.IH Cons.prems by force
  ultimately show ?case by auto
qed simp

lemma mixStep_total:
  assumes "lanes_ok lanes" "blocks_ok blocks"
  obtains ls bs where "mixStep lanes blocks = Inr (ls, bs)" "lanes_ok ls" "blocks_ok bs"
proof -
  have "\<exists>y. mixLane (lanes ! L) (blocks ! L) = Inr y \<and> length (fst y) = 32 \<and> length (snd y) = BLOCK_BYTES"
    if "L \<in> set [0..<LANES]" for L
  proof -
    have "length (lanes ! L) = 32" "length (blocks ! L) = BLOCK_BYTES"
      using assms that by (auto simp: lanes_ok_def blocks_ok_def)
    then obtain l b where "mixLane (lanes ! L) (blocks ! L) = Inr (l, b)" "length l = 32" "length b = BLOCK_BYTES"
      by (rule mixLane_total)
    then show ?thesis by simp
  qed
  note all = this
  obtain ys where
    ys: "mapR (\<lambda>L. mixLane (lanes ! L) (blocks ! L)) [0..<LANES] = Inr ys" "length ys = LANES"
      "\<forall>y \<in> set ys. length (fst y) = 32 \<and> length (snd y) = BLOCK_BYTES"
    using mapR_total [of "[0..<LANES]" "\<lambda>L. mixLane (lanes ! L) (blocks ! L)"
        "\<lambda>y. length (fst y) = 32 \<and> length (snd y) = BLOCK_BYTES"] all by auto
  have "lanes_ok (map (\<lambda>L. map fst ys ! (LANE_SHUFFLE ! L)) [0..<LANES])"
  proof -
    have "length (fst (ys ! (LANE_SHUFFLE ! L))) = 32" "LANE_SHUFFLE ! L < length ys" if "L < LANES" for L
      using ys(2,3) shuffle_bound [OF that] by (simp_all add: LANES_def)
    then show ?thesis by (simp add: lanes_ok_def)
  qed
  moreover have "blocks_ok (map snd ys)" using ys by (auto simp: blocks_ok_def)
  ultimately show ?thesis using ys(1) that by (simp add: mixStep_def)
qed

definition pow_inv :: "bytes \<times> bytes list \<Rightarrow> bool" where
  "pow_inv st \<longleftrightarrow> length (fst st) = SCRATCH_BYTES \<and> lanes_ok (snd st)"

lemma pow_step_total:
  assumes "pow_inv st"
  shows "\<exists>st'. pow_step r st = Inr st' \<and> pow_inv st'"
proof -
  obtain pad lanes where st: "st = (pad, lanes)" by fastforce
  let ?a = "deriveAddresses lanes r"
  note a = addrs_ok_derive [of lanes r]
  have "blocks_ok (readScratchpadBlocks pad ?a)" using a assms st by (simp add: blocks_ok_read pow_inv_def)
  then obtain ls bs where m: "mixStep lanes (readScratchpadBlocks pad ?a) = Inr (ls, bs)" "lanes_ok ls" "blocks_ok bs"
    using mixStep_total assms st by (metis pow_inv_def snd_conv)
  then obtain p where "writeScratchpadBlocks pad ?a bs = Inr p" "length p = SCRATCH_BYTES"
    using write_total [OF a] assms st by (metis pow_inv_def fst_conv)
  with m show ?thesis by (simp add: pow_step_def st Let_def pow_inv_def)
qed

lemma pow_loop_total:
  "pow_inv st \<Longrightarrow> \<exists>st'. foldl (\<lambda>s r. andthen s (pow_step r)) (Inr st) rs = Inr st' \<and> pow_inv st'"
proof (induction rs arbitrary: st)
  case (Cons r rs)
  then show ?case using pow_step_total [of st r] by auto
qed simp

lemma initLanes_ok:
  assumes "\<And>d n. length (b3 d n) = n" "length seed = 32"
  obtains lanes where "initLanes b3 seed = Inr lanes" "lanes_ok lanes"
  using assms that by (auto simp: initLanes_def blake3Hash_def lanes_ok_def)

lemma serialiseLanes_eq:
  assumes "lanes_ok lanes"
  shows "serialiseLanes lanes = Inr (concat lanes)"
proof -
  have "foldl (\<lambda>r L. andthen r (\<lambda>out. arr_set out (lanes ! L) (L * 32))) (Inr (replicate (LANES * 32) 0)) [0..<n] =
      Inr (concat (take n lanes) @ replicate ((LANES - n) * 32) 0) \<and> length (concat (take n lanes)) = n * 32"
    if "n \<le> LANES" for n
    using that
  proof (induction n)
    case (Suc n)
    have n: "n < length lanes" "length (lanes ! n) = 32" using assms Suc.prems by (auto simp: lanes_ok_def)
    have "take (Suc n) lanes = take n lanes @ [lanes ! n]" using n by (simp add: take_Suc_conv_app_nth)
    moreover have "(LANES - n) * 32 = 32 + (LANES - Suc n) * 32" using Suc.prems by simp
    ultimately show ?case using Suc n by (simp add: replicate_add)
  qed simp
  from this [of LANES] assms show ?thesis by (simp add: serialiseLanes_def lanes_ok_def)
qed

section \<open>Initial scratchpad\<close>

lemma js_ushr_div: "0 \<le> x \<Longrightarrow> x < 2 ^ 32 \<Longrightarrow> k < 32 \<Longrightarrow> js_ushr x k = x div 2 ^ k"
  by (simp add: js_ushr_def to_uint32_def drop_bit_eq_div take_bit_eq_mod)

lemma le_bytes4: "le_bytes 4 n = [word_of_int n, word_of_int (n div 2 ^ 8),
    word_of_int (n div 2 ^ 16), word_of_int (n div 2 ^ 24)]"
  by (simp add: numeral_eq_Suc zdiv_zmult2_eq [symmetric])

lemma index_bytes_le: "i < 2 ^ 32 \<Longrightarrow> index_bytes i = le_bytes 4 (int i)"
proof -
  assume "i < 2 ^ 32"
  then have "int i < 2 ^ 32" by (metis of_nat_less_iff of_nat_numeral of_nat_power)
  then show ?thesis
    unfolding index_bytes_def le_bytes4 js_and_byte by (simp add: js_ushr_div)
qed

lemma writeLEWord_le: "writeLEWord x = le_bytes 4 x"
proof -
  have u: "0 \<le> to_uint32 x" "to_uint32 x < 2 ^ 32" using is_u32_to_uint32 [of x] by (simp_all add: is_u32_def)
  have "writeLEWord x = le_bytes 4 (to_uint32 x)"
    unfolding writeLEWord_def le_bytes4 js_and_byte Let_def using u by (simp add: js_ushr_div)
  also have "\<dots> = le_bytes 4 x" by (simp add: le_bytes_inj to_uint32_def take_bit_eq_mod)
  finally show ?thesis .
qed

lemma initScratchpad_eq:
  assumes "\<And>d n. length (b3 d n) = n" "length prev = 32"
  shows "initScratchpad b3 prev =
    Inr (concat (map (\<lambda>i. b3 (prev @ le_bytes 4 (int i)) BLOCK_BYTES) [0..<SCRATCH_BLOCKS]))"
proof -
  let ?c = "\<lambda>i. b3 (prev @ index_bytes i) BLOCK_BYTES"
  have "foldl (\<lambda>r i. andthen r (\<lambda>pad. arr_set pad (?c i) (i * BLOCK_BYTES)))
        (Inr (replicate SCRATCH_BYTES 0)) [0..<n] =
      Inr (concat (map ?c [0..<n]) @ replicate ((SCRATCH_BLOCKS - n) * BLOCK_BYTES) 0) \<and>
      length (concat (map ?c [0..<n])) = n * BLOCK_BYTES"
    if "n \<le> SCRATCH_BLOCKS" for n
    using that
  proof (induction n)
    case 0
    show ?case by (simp add: pow_sizes)
  next
    case (Suc n)
    have "(SCRATCH_BLOCKS - n) * BLOCK_BYTES = BLOCK_BYTES + (SCRATCH_BLOCKS - Suc n) * BLOCK_BYTES"
      using Suc.prems by (simp add: pow_sizes)
    with Suc show ?case by (simp add: assms(1) replicate_add)
  qed
  from this [of SCRATCH_BLOCKS]
  have "initScratchpad b3 prev = Inr (concat (map ?c [0..<SCRATCH_BLOCKS]))"
    by (simp add: initScratchpad_def blake3Xof_def assms(2))
  moreover have "map ?c [0..<SCRATCH_BLOCKS] = map (\<lambda>i. b3 (prev @ le_bytes 4 (int i)) BLOCK_BYTES) [0..<SCRATCH_BLOCKS]"
    by (intro map_cong refl) (simp add: index_bytes_le pow_sizes)
  ultimately show ?thesis by simp
qed

lemma initScratchpad_length:
  assumes "\<And>d n. length (b3 d n) = n" "initScratchpad b3 prev = Inr pad"
  shows "length pad = SCRATCH_BYTES" "length prev = 32"
proof -
  show "length prev = 32" using assms(2) by (simp add: initScratchpad_def throw_if_eq_Inr)
  then have "pad = concat (map (\<lambda>i. b3 (prev @ le_bytes 4 (int i)) BLOCK_BYTES) [0..<SCRATCH_BLOCKS])"
    using assms initScratchpad_eq by simp
  then show "length pad = SCRATCH_BYTES"
    using assms(1) by (simp add: length_concat comp_def sum_list_triv pow_sizes)
qed

section \<open>Words of byte strings\<close>

fun bytes_words :: "bytes \<Rightarrow> 32 word list" where
  "bytes_words (a # b # c # d # bs) = word_of_int (le_value [a, b, c, d]) # bytes_words bs"
| "bytes_words _ = []"

definition words_bytes :: "32 word list \<Rightarrow> bytes" where
  "words_bytes ws = concat (map (\<lambda>w. le_bytes 4 (uint w)) ws)"

lemma bit_uint_byte: "bit (uint (b :: byte)) n \<Longrightarrow> n < 8"
  by (simp add: bit_uint_iff)

lemma readLEWord_value:
  "readLEWord buf off = le_value [buf ! off, buf ! (off + 1), buf ! (off + 2), buf ! (off + 3)]"
proof -
  define x0 x1 x2 x3 where xs: "x0 = uint (buf ! off)" "x1 = uint (buf ! (off + 1))"
    "x2 = uint (buf ! (off + 2))" "x3 = uint (buf ! (off + 3))"
  have small: "bit x0 k \<Longrightarrow> k < 8" "bit x1 k \<Longrightarrow> k < 8" "bit x2 k \<Longrightarrow> k < 8" "bit x3 k \<Longrightarrow> k < 8" for k
    unfolding xs by (rule bit_uint_byte, assumption)+
  have l: "le_value [buf ! off, buf ! (off + 1), buf ! (off + 2), buf ! (off + 3)] =
      push_bit 8 (push_bit 8 (push_bit 8 x3 OR x2) OR x1) OR x0"
    by (simp add: push_or xs)
  have r: "readLEWord buf off = to_uint32 (js_or (js_or (js_or x0 (js_shl x1 8)) (js_shl x2 16)) (js_shl x3 24))"
    by (simp add: readLEWord_def xs)
  have R: "bit (readLEWord buf off) n \<longleftrightarrow> n < 32 \<and> (bit x0 n \<or> 8 \<le> n \<and> bit x1 (n - 8) \<or>
      16 \<le> n \<and> bit x2 (n - 16) \<or> 24 \<le> n \<and> bit x3 (n - 24))" for n
  proof (cases "n < 32")
    case True
    then show ?thesis
      unfolding r by (simp add: to_uint32_def js_or_def js_shl_def bit_take_bit_iff bit_or_iff
          bit_push_bit_iff bit_to_int32)
  qed (simp add: r to_uint32_def bit_take_bit_iff)
  have L: "bit (push_bit 8 (push_bit 8 (push_bit 8 x3 OR x2) OR x1) OR x0) n \<longleftrightarrow> (bit x0 n \<or> 8 \<le> n \<and> bit x1 (n - 8) \<or>
      16 \<le> n \<and> bit x2 (n - 16) \<or> 24 \<le> n \<and> bit x3 (n - 24))" for n
    by (auto simp: bit_or_iff bit_push_bit_iff)
  show ?thesis unfolding l
  proof (rule bit_eqI)
    fix n
    show "bit (readLEWord buf off) n = bit (push_bit 8 (push_bit 8 (push_bit 8 x3 OR x2) OR x1) OR x0) n"
      unfolding R L using small(1) [of n] small(2) [of "n - 8"] small(3) [of "n - 16"] small(4) [of "n - 24"]
      by linarith
  qed
qed

lemma length_bytes_words: "length (bytes_words bs) = length bs div 4"
  by (induction bs rule: bytes_words.induct) auto

lemma nth_bytes_words:
  "i < length bs div 4 \<Longrightarrow>
   bytes_words bs ! i = word_of_int (le_value [bs ! (i * 4), bs ! (i * 4 + 1), bs ! (i * 4 + 2), bs ! (i * 4 + 3)])"
proof (induction bs arbitrary: i rule: bytes_words.induct)
  case (1 a b c d bs)
  show ?case
  proof (cases i)
    case (Suc j)
    with "1.prems" have "j < length bs div 4" by simp
    from "1.IH" [OF this] Suc show ?thesis by (simp add: numeral_eq_Suc)
  qed (simp add: numeral_eq_Suc)
qed auto

lemma leWords_words:
  assumes "length buf mod 4 = 0"
  obtains ws where "leWords buf = Inr ws" "map w32 ws = bytes_words buf" "length ws = length buf div 4"
proof
  let ?ws = "map (\<lambda>i. readLEWord buf (i * 4)) [0..<length buf div 4]"
  show "leWords buf = Inr ?ws" by (rule leWords_Inr [OF assms])
  show "map w32 ?ws = bytes_words buf"
    by (rule nth_equalityI) (simp_all add: length_bytes_words nth_bytes_words readLEWord_value w32_def)
  show "length ?ws = length buf div 4" by simp
qed

lemma writeLEWords_words: "writeLEWords ws = words_bytes (map w32 ws)"
proof -
  have "le_bytes 4 (uint (w32 x)) = le_bytes 4 x" for x
    by (simp add: le_bytes_inj w32_def uint_word_of_int take_bit_eq_mod)
  then show ?thesis by (induction ws) (simp_all add: writeLEWords_def words_bytes_def writeLEWord_le)
qed

lemma length_words_bytes: "length (words_bytes ws) = 4 * length ws"
  by (induction ws) (simp_all add: words_bytes_def)

section \<open>Properties\<close>



text \<open>
  C8: an iteration writes exactly the eight blocks it has addressed, one inside each lane's own
  region of the scratchpad: the writes never throw, reading back at the same addresses returns the
  written blocks, and every other byte of the pad keeps its value.
\<close>
theorem scratchpad_write_read:
  fixes lanes :: "bytes list" and r :: nat
  assumes "length pad = SCRATCH_BYTES" and "blocks_ok bs"
  defines "addrs \<equiv> deriveAddresses lanes r"
  shows "\<exists>p. writeScratchpadBlocks pad addrs bs = Inr p \<and> length p = SCRATCH_BYTES \<and>
    readScratchpadBlocks p addrs = bs \<and>
    (\<forall>L < LANES. block_base addrs L div LANE_BYTES = L \<and>
       (block_base addrs L + BLOCK_BYTES - 1) div LANE_BYTES = L) \<and>
    (\<forall>k < SCRATCH_BYTES. (\<forall>L < LANES. k < block_base addrs L \<or> block_base addrs L + BLOCK_BYTES \<le> k) \<longrightarrow>
       p ! k = pad ! k)"
proof -
  have a: "addrs_ok addrs" unfolding addrs_def by (rule addrs_ok_derive)
  obtain p where p: "writeScratchpadBlocks pad addrs bs = Inr p" "length p = SCRATCH_BYTES"
    "\<And>k L. k < SCRATCH_BYTES \<Longrightarrow> L < LANES \<Longrightarrow> block_base addrs L \<le> k \<Longrightarrow> k < block_base addrs L + BLOCK_BYTES \<Longrightarrow>
       p ! k = bs ! L ! (k - block_base addrs L)"
    "\<And>k. k < SCRATCH_BYTES \<Longrightarrow> (\<forall>L < LANES. \<not> (block_base addrs L \<le> k \<and> k < block_base addrs L + BLOCK_BYTES)) \<Longrightarrow>
       p ! k = pad ! k"
    using write_prefix [OF a assms(2,1) order_refl] unfolding writeScratchpadBlocks_def by blast
  have "slice p (block_base addrs L) (block_base addrs L + BLOCK_BYTES) = bs ! L" if L: "L < LANES" for L
  proof (rule nth_equalityI)
    note fit = block_base_bounds(3) [OF a L]
    have len: "length (bs ! L) = BLOCK_BYTES" using assms(2) L by (simp add: blocks_ok_def)
    show "length (slice p (block_base addrs L) (block_base addrs L + BLOCK_BYTES)) = length (bs ! L)"
      using fit p(2) len by simp
    fix i assume "i < length (slice p (block_base addrs L) (block_base addrs L + BLOCK_BYTES))"
    then have "i < BLOCK_BYTES" by simp
    then show "slice p (block_base addrs L) (block_base addrs L + BLOCK_BYTES) ! i = bs ! L ! i"
      using p(2,3) fit L by (simp add: slice_def)
  qed
  then have "readScratchpadBlocks p addrs = bs"
    using assms(2) by (intro nth_equalityI) (simp_all add: readScratchpadBlocks_def blocks_ok_def)
  moreover have "block_base addrs L div LANE_BYTES = L \<and> (block_base addrs L + BLOCK_BYTES - 1) div LANE_BYTES = L"
    if L: "L < LANES" for L
    using block_base_bounds(1,2) [OF a L]
    by (auto intro!: div_nat_eqI simp: pow_sizes)
  moreover have "p ! k = pad ! k"
    if "k < SCRATCH_BYTES" "\<forall>L < LANES. k < block_base addrs L \<or> block_base addrs L + BLOCK_BYTES \<le> k" for k
    using p(4) [OF that(1)] that(2) by (meson not_le)
  ultimately show ?thesis using p(1,2) by blast
qed

theorem scratchpad_write_read_witness:
  "\<exists>p. writeScratchpadBlocks (replicate SCRATCH_BYTES 0) (deriveAddresses (replicate 8 (replicate 32 3)) 7)
       (replicate 8 (replicate 64 5)) = Inr p \<and>
     readScratchpadBlocks p (deriveAddresses (replicate 8 (replicate 32 3)) 7) = replicate 8 (replicate 64 5)"
proof -
  have "blocks_ok (replicate 8 (replicate 64 5))" by (simp add: blocks_ok_def pow_sizes)
  from scratchpad_write_read [OF length_replicate this] show ?thesis by blast
qed

lemma b3powScratch_result:
  assumes b3: "\<And>d n. length (b3 d n) = n"
  shows "((\<exists>res p. b3powScratch b3 header prev pad = Inr (res, p)) \<longleftrightarrow>
      length header = 80 \<and> length prev = 32 \<and> (\<forall>p. pad = Some p \<longrightarrow> length p = SCRATCH_BYTES)) \<and>
    (b3powScratch b3 header prev pad = Inr (res, p) \<longrightarrow>
      length (powHash res) = 32 \<and> iterations res = ITERATIONS \<and> length p = SCRATCH_BYTES)"
proof (cases "length header = 80 \<and> length prev = 32 \<and> (\<forall>p. pad = Some p \<longrightarrow> length p = SCRATCH_BYTES)")
  case True
  obtain p0 where p0: "(case pad of Some p \<Rightarrow> Inr p | None \<Rightarrow> initScratchpad b3 prev) = Inr p0"
      "length p0 = SCRATCH_BYTES"
  proof (cases pad)
    case None
    have i: "initScratchpad b3 prev =
        Inr (concat (map (\<lambda>i. b3 (prev @ le_bytes 4 (int i)) BLOCK_BYTES) [0..<SCRATCH_BLOCKS]))"
      using True by (intro initScratchpad_eq b3) simp
    show ?thesis by (rule that [OF _ initScratchpad_length(1) [OF b3 i]]) (simp add: None i)
  qed (use True that in simp)
  have "length (blake3Hash b3 header) = 32" by (simp add: blake3Hash_def b3)
  then obtain ls where ls: "initLanes b3 (blake3Hash b3 header) = Inr ls" "lanes_ok ls"
    by (rule initLanes_ok [OF b3])
  obtain p1 l1 where l1: "foldl (\<lambda>s r. andthen s (pow_step r)) (Inr (p0, ls)) [0..<ITERATIONS] = Inr (p1, l1)"
      "length p1 = SCRATCH_BYTES" "lanes_ok l1"
    using pow_loop_total [of "(p0, ls)" "[0..<ITERATIONS]"] p0(2) ls(2) by (auto simp: pow_inv_def)
  have len: "length (concat l1) = LANES * 32"
    using l1(3) by (simp add: lanes_ok_def length_concat sum_list_triv cong: map_cong)
  obtain t where t: "arr_set (replicate (LANES * 32 + 4) 0) (concat l1) 0 = Inr t" "length t = LANES * 32 + 4"
    using len by (simp add: arr_set_def)
  obtain t' where "arr_set t (slice header 76 80) (LANES * 32) = Inr t'"
    using t(2) True by (simp add: arr_set_def)
  then have "b3powScratch b3 header prev pad = Inr (\<lparr> powHash = blake3Hash b3 t', iterations = ITERATIONS \<rparr>, p1)"
    unfolding b3powScratch_def Let_def using True p0 ls(1) l1 t(1) serialiseLanes_eq [OF l1(3)] by simp
  then show ?thesis using True l1(2) by (auto simp: blake3Hash_def b3)
next
  case False
  have "b3powScratch b3 header prev pad \<noteq> Inr (res, p)" for res p
    using False by (cases pad) (auto simp: b3powScratch_def Let_def throw_if_def split: if_splits)
  then show ?thesis using False by blast
qed

lemma b3powScratch_exists:
  assumes "\<And>d n. length (b3 d n) = n"
    and "length header = 80" "length prev = 32" "\<forall>p. pad = Some p \<longrightarrow> length p = SCRATCH_BYTES"
  shows "\<exists>res p. b3powScratch b3 header prev pad = Inr (res, p)"
  using b3powScratch_result [of b3 header prev pad] assms by blast



lemma nbitsToTarget_eq: "nbitsToTarget nbits = targetFromBits nbits"
proof -
  have m: "js_and n 0x007fffff = n mod 2 ^ 23" "js_and n 0xff = n mod 256" for n
  proof -
    have "js_and n (mask k) = take_bit k n" if "k < 32" for k
      using that by (intro bit_eqI) (auto simp: js_and_def bit_simps bit_to_int32 to_int32_def)
    from this [of 23] this [of 8] show "js_and n 0x007fffff = n mod 2 ^ 23" "js_and n 0xff = n mod 256"
      by (simp_all add: mask_eq_exp_minus_1 take_bit_eq_mod)
  qed
  have "js_ushr nbits 24 mod 256 = nbits div 2 ^ 24 mod 256"
  proof -
    have "take_bit 8 (drop_bit 24 (take_bit 32 nbits)) = take_bit 8 (drop_bit 24 nbits)"
      by (simp add: take_bit_drop_bit)
    then show ?thesis by (simp add: js_ushr_def to_uint32_def take_bit_eq_mod drop_bit_eq_div)
  qed
  moreover have "(2 :: int) ^ nat (8 * k) = 256 ^ nat k" if "0 \<le> k" for k
    using that by (simp add: nat_mult_distrib power_mult)
  ultimately show ?thesis
    unfolding nbitsToTarget_def targetFromBits_eq m Let_def drop_bit_eq_div push_bit_eq_mult
    by (auto simp only: diff_ge_0_iff_ge not_le less_imp_le split: if_split)
qed

lemma intLE_value: "length buf = 32 \<Longrightarrow> intLE buf = Inr (le_value buf)"
proof -
  assume len: "length buf = 32"
  have "le_value buf = bigIntFromBytesLE (map ((!) buf) [0..<32])"
    using map_nth [of buf] len by simp
  then show ?thesis
    using len by (simp add: intLE_def bigIntFromBytesLE_def rev_map foldl_map del: bigIntFromBytesLE_value upt_rec_numeral)
qed

text \<open>
  \<^verbatim>\<open>checkPow\<close> and the pool's share classification agree: a header passes exactly when the
  little-endian integer of its hash is at most the target the pool derives from the same compact
  bits, whichever of the two target decoders is used.
\<close>
theorem checkPow_spec:
  assumes "\<And>d n. length (b3 d n) = n"
  shows "nbitsToTarget nbits = targetFromBits nbits \<and>
    (checkPow b3 header prev nbits pad = Inr ok \<longleftrightarrow>
      (\<exists>res p. b3powScratch b3 header prev pad = Inr (res, p) \<and>
         ok = (bigIntFromBytesLE (powHash res) \<le> targetFromBits nbits)))"
proof (cases "b3powScratch b3 header prev pad")
  case (Inr rp)
  obtain res p where rp: "rp = (res, p)" by fastforce
  have "length (powHash res) = 32"
    using b3powScratch_result [of b3 header prev pad res p] assms Inr rp by blast
  then show ?thesis using Inr by (auto simp: checkPow_def rp intLE_value nbitsToTarget_eq)
qed (simp add: checkPow_def nbitsToTarget_eq)

theorem checkPow_spec_witness:
  "\<exists>res p. b3powScratch (\<lambda>d n. replicate n 0) (replicate 80 1) (replicate 32 2) None = Inr (res, p) \<and>
     checkPow (\<lambda>d n. replicate n 0) (replicate 80 1) (replicate 32 2) 0x1d00ffff None =
       Inr (bigIntFromBytesLE (powHash res) \<le> targetFromBits 0x1d00ffff)"
proof -
  let ?b3 = "\<lambda>(d :: bytes) n. replicate n (0 :: byte)"
  have "length (?b3 d n) = n" for d n by simp
  note total = b3powScratch_exists [of ?b3 "replicate 80 1" "replicate 32 2" None, OF this]
    and spec = checkPow_spec [of ?b3 "0x1d00ffff" "replicate 80 1" "replicate 32 2" None, OF this]
  from total obtain res p where
    "b3powScratch ?b3 (replicate 80 1) (replicate 32 2) None = Inr (res, p)" by auto
  then show ?thesis using spec by blast
qed

end
