(* ===== verification/Pad_Cache.thy ===== *)
theory Pad_Cache
  imports B3pow
begin

text \<open>
  The cache of pristine scratchpads (\<^verbatim>\<open>lib/pad-cache.ts\<close>): an insertion-ordered map with
  move-to-end on a hit and eviction from the front. \<^verbatim>\<open>Date.now()\<close> is the argument \<open>now\<close>.

  The locale \<open>pad_source\<close> is what the share validator relies on: a source of pads that
  answers every request as \<^verbatim>\<open>initScratchpad\<close> would. It is interpreted on the cache and on the
  direct computation that \<^verbatim>\<open>b3powScratch\<close> falls back to, so a proof of work computed with the
  cache equals one computed without it.
\<close>

section \<open>Definitions\<close>

record pad_entry =
  pe_pad :: bytes
  pe_lastUsedMs :: int

record pad_cache =
  pc_capacity :: nat
  pc_map :: "(string, pad_entry) jsmap"
  pc_hits :: nat
  pc_misses :: nat
  pc_evictions :: nat

record pad_stats =
  ps_size :: nat
  ps_hits :: nat
  ps_misses :: nat
  ps_evictions :: nat

definition newPadCache :: "nat \<Rightarrow> pad_cache res" where
  "newPadCache capacity = throw_if (capacity < 1) (Error ''capacity must be >= 1'')
     (Inr \<lparr> pc_capacity = capacity, pc_map = [], pc_hits = 0, pc_misses = 0, pc_evictions = 0 \<rparr>)"

definition bytesKey :: "bytes \<Rightarrow> string" where
  "bytesKey b = foldl (\<lambda>s v. s @ ((if v < 16 then ''0'' else '''') @ hex_of_nat (unat v))) [] b"

text \<open>The eviction loop; the head of the list is the oldest key.\<close>

function evict_loop :: "nat \<Rightarrow> (string, pad_entry) jsmap \<Rightarrow> nat \<Rightarrow> (string, pad_entry) jsmap \<times> nat" where
  "evict_loop cap m evictions =
     (if length m \<le> cap then (m, evictions)
      else case m of
             [] \<Rightarrow> (m, evictions)
           | (oldestKey, _) # _ \<Rightarrow> evict_loop cap (jsmap_delete oldestKey m) (evictions + 1))"
  by pat_completeness auto
termination
  by (relation "measure (\<lambda>(_, m, _). length m)") (auto simp: le_imp_less_Suc length_delete_le)

declare evict_loop.simps [simp del]

definition evictOldest :: "pad_cache \<Rightarrow> pad_cache" where
  "evictOldest c = (case evict_loop (pc_capacity c) (pc_map c) (pc_evictions c) of
     (m, ev) \<Rightarrow> c\<lparr> pc_map := m, pc_evictions := ev \<rparr>)"

definition copy_pad :: "bytes \<Rightarrow> bytes res" where
  "copy_pad pad = arr_set (replicate SCRATCH_BYTES 0) pad 0"

definition getFresh :: "(bytes \<Rightarrow> nat \<Rightarrow> bytes) \<Rightarrow> int \<Rightarrow> bytes \<Rightarrow> pad_cache \<Rightarrow> bytes res \<times> pad_cache" where
  "getFresh b3 now prevBlockHashLE c =
     (if length prevBlockHashLE \<noteq> 32 then (Inl (Error ''prevBlockHashLE must be 32 bytes''), c)
      else let key = bytesKey prevBlockHashLE in
        case jsmap_get (pc_map c) key of
          None \<Rightarrow>
            (let c = c\<lparr> pc_misses := pc_misses c + 1 \<rparr> in
             case initScratchpad b3 prevBlockHashLE of
               Inl e \<Rightarrow> (Inl e, c)
             | Inr pad \<Rightarrow>
                 let entry = \<lparr> pe_pad = pad, pe_lastUsedMs = now \<rparr>;
                     c = evictOldest (c\<lparr> pc_map := jsmap_set key entry (pc_map c) \<rparr>)
                 in (copy_pad (pe_pad entry), c))
        | Some entry \<Rightarrow>
            let entry = entry\<lparr> pe_lastUsedMs := now \<rparr>;
                c = c\<lparr> pc_hits := pc_hits c + 1,
                       pc_map := jsmap_set key entry (jsmap_delete key (pc_map c)) \<rparr>
            in (copy_pad (pe_pad entry), c))"

definition clear_pads :: "pad_cache \<Rightarrow> pad_cache" where
  "clear_pads c = c\<lparr> pc_map := [] \<rparr>"

definition pad_cache_stats :: "pad_cache \<Rightarrow> pad_stats" where
  "pad_cache_stats c = \<lparr> ps_size = length (pc_map c), ps_hits = pc_hits c, ps_misses = pc_misses c,
     ps_evictions = pc_evictions c \<rparr>"

text \<open>A sequence of timed requests to a stateful source of pads.\<close>

fun requests :: "(int \<Rightarrow> bytes \<Rightarrow> 's \<Rightarrow> 'r \<times> 's) \<Rightarrow> (int \<times> bytes) list \<Rightarrow> 's \<Rightarrow> 'r list \<times> 's" where
  "requests get [] s = ([], s)"
| "requests get ((now, p) # rs) s =
     (let (r, s') = get now p s; (out, s'') = requests get rs s' in (r # out, s''))"

text \<open>The least-recently-used order, as a function of the request history.\<close>

definition last_n :: "nat \<Rightarrow> 'a list \<Rightarrow> 'a list" where
  "last_n n xs = drop (length xs - n) xs"

definition lru_keys :: "nat \<Rightarrow> bytes list \<Rightarrow> bytes list" where
  "lru_keys cap history = last_n cap (remdups history)"

section \<open>Keys\<close>

lemma foldl_andthen_Inl: "foldl (\<lambda>r i. andthen r (f i)) (Inl e) xs = Inl e"
  by (induction xs) simp_all


lemma bytesKey_hex: "bytesKey b = bytesToHex b"
proof -
  have step: "(if v < 16 then ''0'' else '''') @ hex_of_nat (unat v) = pad_start 2 (CHR ''0'') (hex_of_nat (unat v))"
    for v :: byte
  proof -
    have "v < 16 \<longleftrightarrow> unat v < 16" by (simp add: word_less_nat_alt)
    moreover have "length (hex_of_nat (unat v)) = (if unat v < 16 then 1 else 2)"
      using unat_byte_less [of v] hex_of_nat.simps [of "unat v"] hex_of_nat.simps [of "unat v div 16"]
      by (auto simp: less_mult_imp_div_less)
    ultimately show ?thesis by (simp add: pad_start_def)
  qed
  have "foldl (\<lambda>s v. s @ ((if v < 16 then ''0'' else '''') @ hex_of_nat (unat v))) a b = a @ bytesToHex b" for a
    unfolding step by (induction b arbitrary: a) (simp_all add: hex_of_byte)
  then show ?thesis by (simp add: bytesKey_def)
qed

lemma bytesKey_inj [simp]: "bytesKey a = bytesKey b \<longleftrightarrow> a = b"
  by (simp add: bytesKey_hex)

section \<open>Eviction\<close>

lemma evict_loop_eq: "jsmap_wf m \<Longrightarrow> evict_loop cap m ev = (last_n cap m, ev + (length m - cap))"
proof (induction cap m ev rule: evict_loop.induct)
  case (1 cap m ev)
  show ?case
  proof (cases "length m \<le> cap")
    case True
    then show ?thesis by (simp add: evict_loop.simps [of cap m] last_n_def)
  next
    case False
    then obtain k e m' where m: "m = (k, e) # m'" by (cases m) auto
    have del: "jsmap_delete k m = m'" using "1.prems" unfolding m by (rule jsmap_delete_head)
    have "evict_loop cap m' (ev + 1) = (last_n cap m', ev + 1 + (length m' - cap))"
      using "1.IH" [OF False m refl] "1.prems" del m by (simp add: jsmap_wf_def)
    moreover have "evict_loop cap m ev = evict_loop cap m' (ev + 1)"
      using False del by (subst evict_loop.simps) (simp add: m)
    ultimately show ?thesis using False by (simp add: last_n_def m Suc_diff_le)
  qed
qed

lemma map_last_n: "map f (last_n n xs) = last_n n (map f xs)"
  by (simp add: last_n_def drop_map)

lemma set_last_n: "set (last_n n xs) \<subseteq> set xs"
  by (simp add: last_n_def set_drop_subset)

lemma length_last_n [simp]: "length (last_n n xs) = min n (length xs)"
  by (simp add: last_n_def)

lemma distinct_last_n: "distinct xs \<Longrightarrow> distinct (last_n n xs)"
  by (simp add: last_n_def)

lemma last_n_snoc: "last_n (Suc n) (xs @ [x]) = last_n n xs @ [x]"
  by (simp add: last_n_def)

lemma last_n_split: "xs = take (length xs - n) xs @ last_n n xs"
  by (simp add: last_n_def)

section \<open>Recency order\<close>

lemma remdups_snoc: "remdups (xs @ [x]) = filter (\<lambda>y. y \<noteq> x) (remdups xs) @ [x]"
  by (induction xs) auto

lemma filter_neq_notin: "x \<notin> set xs \<Longrightarrow> filter (\<lambda>y. y \<noteq> x) xs = xs"
  by (induction xs) auto

lemma length_filter_neq: "distinct ys \<Longrightarrow> x \<in> set ys \<Longrightarrow> Suc (length (filter (\<lambda>y. y \<noteq> x) ys)) = length ys"
  by (induction ys) (auto simp: filter_neq_notin)

lemma filter_last_n:
  "filter P xs = filter P (take (length xs - n) xs) @ filter P (last_n n xs)"
  by (simp add: last_n_def flip: filter_append)

text \<open>Moving a key that is among the last \<open>n\<close> to the end.\<close>

lemma last_n_touch:
  assumes "distinct xs" "x \<in> set (last_n n xs)"
  shows "last_n n (filter (\<lambda>y. y \<noteq> x) xs @ [x]) = filter (\<lambda>y. y \<noteq> x) (last_n n xs) @ [x]"
proof -
  let ?a = "take (length xs - n) xs" and ?b = "last_n n xs"
  have "set ?a \<inter> set ?b = {}" using set_take_disj_set_drop_if_distinct [OF assms(1)] by (simp add: last_n_def)
  then have "x \<notin> set ?a" using assms(2) by blast
  then have f: "filter (\<lambda>y. y \<noteq> x) xs = ?a @ filter (\<lambda>y. y \<noteq> x) ?b"
    using filter_last_n [of "\<lambda>y. y \<noteq> x" xs n] by (simp add: filter_neq_notin)
  have "Suc (length (filter (\<lambda>y. y \<noteq> x) ?b)) = length ?b"
    by (rule length_filter_neq [OF distinct_last_n [OF assms(1)] assms(2)])
  then have "length (filter (\<lambda>y. y \<noteq> x) xs @ [x]) - n = length ?a" by (simp add: f)
  then show ?thesis unfolding last_n_def [of n "filter (\<lambda>y. y \<noteq> x) xs @ [x]"] by (simp add: f)
qed

text \<open>Adding a key that is not among the last \<open>n\<close>.\<close>

lemma last_n_append: "k \<le> length ys \<Longrightarrow> last_n k (xs @ ys) = last_n k ys"
  by (simp add: last_n_def)

lemma last_n_insert:
  assumes "x \<notin> set (last_n n xs)"
  shows "last_n n (filter (\<lambda>y. y \<noteq> x) xs @ [x]) = last_n n (last_n n xs @ [x])"
proof (cases "n \<le> length xs")
  case True
  have "filter (\<lambda>y. y \<noteq> x) xs @ [x] = filter (\<lambda>y. y \<noteq> x) (take (length xs - n) xs) @ last_n n xs @ [x]"
    using filter_last_n [of "\<lambda>y. y \<noteq> x" xs n] assms by (simp add: filter_neq_notin)
  then show ?thesis using True by (simp add: last_n_append)
next
  case False
  then have "last_n n xs = xs" by (simp add: last_n_def)
  with assms show ?thesis by (simp add: filter_neq_notin)
qed

section \<open>Sources of pads\<close>

locale pad_source =
  fixes b3 :: "bytes \<Rightarrow> nat \<Rightarrow> bytes"
    and get :: "int \<Rightarrow> bytes \<Rightarrow> 's \<Rightarrow> bytes res \<times> 's"
    and inv :: "'s \<Rightarrow> bool"
  assumes get_value: "inv s \<Longrightarrow> fst (get now p s) = initScratchpad b3 p"
    and get_inv: "inv s \<Longrightarrow> inv (snd (get now p s))"
begin

lemma requests_value:
  "inv s \<Longrightarrow> fst (requests get rs s) = map (\<lambda>(now, p). initScratchpad b3 p) rs \<and> inv (snd (requests get rs s))"
proof (induction rs arbitrary: s)
  case (Cons r rs)
  obtain now p where r: "r = (now, p)" by fastforce
  obtain v s' where g: "get now p s = (v, s')" by fastforce
  have "v = initScratchpad b3 p" "inv s'" using get_value [of s now p] get_inv [of s now p] Cons.prems g by auto
  with Cons.IH [of s'] g show ?case by (auto simp: r Let_def split: prod.splits)
qed simp

text \<open>A proof of work on the pad of a source is the one that initialises its own pad.\<close>

lemma pow_from_source:
  assumes "inv s" "length prev = 32" "length header = 80"
  shows "andthen (fst (get now prev s)) (\<lambda>pad. b3powScratch b3 header prev (Some pad)) =
    b3powScratch b3 header prev None"
  unfolding get_value [OF assms(1)] b3powScratch_def Let_def
  by (cases "initScratchpad b3 prev") (simp_all add: assms(2,3))

end

interpretation direct: pad_source b3 "\<lambda>now p s. (initScratchpad b3 p, s)" "\<lambda>s. True" for b3
  by unfold_locales simp_all

definition pads_ok :: "(bytes \<Rightarrow> nat \<Rightarrow> bytes) \<Rightarrow> pad_cache \<Rightarrow> bool" where
  "pads_ok b3 c \<longleftrightarrow> 1 \<le> pc_capacity c \<and> length (pc_map c) \<le> pc_capacity c \<and> jsmap_wf (pc_map c) \<and>
     (\<forall>(k, e) \<in> set (pc_map c). \<exists>p. k = bytesKey p \<and> initScratchpad b3 p = Inr (pe_pad e))"

lemma initScratchpad_Inr_length: "initScratchpad b3 prev = Inr pad \<Longrightarrow> length pad = SCRATCH_BYTES"
proof -
  have *: "length q = length p"
    if "foldl (\<lambda>r i. andthen r (\<lambda>pad. arr_set pad (f i) (g i))) (Inr p) ns = Inr q" for f g p q and ns :: "nat list"
    using that
  proof (induction ns arbitrary: p)
    case (Cons i ns)
    show ?case
    proof (cases "arr_set p (f i) (g i)")
      case (Inl e)
      with Cons.prems show ?thesis by (simp add: foldl_andthen_Inl)
    next
      case (Inr p')
      with Cons.prems Cons.IH [of p'] arr_set_length [OF Inr] show ?thesis by simp
    qed
  qed simp
  assume "initScratchpad b3 prev = Inr pad"
  then have "foldl (\<lambda>r i. andthen r (\<lambda>pad.
      arr_set pad (blake3Xof b3 (prev @ index_bytes i) BLOCK_BYTES) (i * BLOCK_BYTES)))
    (Inr (replicate SCRATCH_BYTES 0)) [0..<SCRATCH_BLOCKS] = Inr pad"
    by (simp add: initScratchpad_def throw_if_eq_Inr)
  from * [OF this] show "length pad = SCRATCH_BYTES" by simp
qed

lemma copy_pad_id: "length pad = SCRATCH_BYTES \<Longrightarrow> copy_pad pad = Inr pad"
  by (simp add: copy_pad_def)

lemma evictOldest_map:
  "jsmap_wf (pc_map c) \<Longrightarrow> evictOldest c =
     c\<lparr> pc_map := last_n (pc_capacity c) (pc_map c),
        pc_evictions := pc_evictions c + (length (pc_map c) - pc_capacity c) \<rparr>"
  by (simp add: evictOldest_def evict_loop_eq)

lemma getFresh_hit:
  assumes "pads_ok b3 c" "length p = 32" "jsmap_get (pc_map c) (bytesKey p) = Some e"
  shows "initScratchpad b3 p = Inr (pe_pad e)"
    "getFresh b3 now p c = (Inr (pe_pad e), c\<lparr> pc_hits := pc_hits c + 1,
       pc_map := jsmap_delete (bytesKey p) (pc_map c) @ [(bytesKey p, e\<lparr> pe_lastUsedMs := now \<rparr>)] \<rparr>)"
proof -
  from jsmap_get_Some_mem [OF assms(3)] assms(1) show i: "initScratchpad b3 p = Inr (pe_pad e)"
    by (auto simp: pads_ok_def)
  have "jsmap_get (jsmap_delete (bytesKey p) (pc_map c)) (bytesKey p) = None" by (simp add: jsmap_get_delete)
  then show "getFresh b3 now p c = (Inr (pe_pad e), c\<lparr> pc_hits := pc_hits c + 1,
       pc_map := jsmap_delete (bytesKey p) (pc_map c) @ [(bytesKey p, e\<lparr> pe_lastUsedMs := now \<rparr>)] \<rparr>)"
    using assms(2,3) by (simp add: getFresh_def Let_def copy_pad_id initScratchpad_Inr_length [OF i] jsmap_set_fresh)
qed

lemma getFresh_miss:
  fixes now :: int
  assumes "pads_ok b3 c" "length p = 32" "jsmap_get (pc_map c) (bytesKey p) = None" "initScratchpad b3 p = Inr pad"
  defines "m \<equiv> pc_map c @ [(bytesKey p, \<lparr> pe_pad = pad, pe_lastUsedMs = now \<rparr>)]"
  shows "getFresh b3 now p c = (Inr pad, c\<lparr> pc_misses := pc_misses c + 1,
       pc_map := last_n (pc_capacity c) m, pc_evictions := pc_evictions c + (length m - pc_capacity c) \<rparr>)"
proof -
  have "jsmap_wf m" using assms(1,3) by (auto simp: pads_ok_def jsmap_wf_def m_def map_of_eq_None_iff)
  then show ?thesis
    using assms(2-4)
    by (simp add: getFresh_def Let_def copy_pad_id initScratchpad_Inr_length [OF assms(4)] jsmap_set_fresh
        evictOldest_map flip: m_def)
qed

lemma jsmap_keys_delete: "map fst (jsmap_delete k m) = filter (\<lambda>y. y \<noteq> k) (map fst m)"
  by (induction m) auto

lemma set_jsmap_delete: "set (jsmap_delete k m) \<subseteq> set m"
  by (auto simp: AList.delete_eq)

lemma pads_ok_hit:
  assumes "pads_ok b3 c" "jsmap_get (pc_map c) k = Some e" "pe_pad e' = pe_pad e"
  shows "pads_ok b3 (c\<lparr> pc_hits := h, pc_map := jsmap_delete k (pc_map c) @ [(k, e')] \<rparr>)"
proof -
  have mem: "(k, e) \<in> set (pc_map c)" using assms(2) by (rule jsmap_get_Some_mem)
  have "Suc (length (filter (\<lambda>y. y \<noteq> k) (map fst (pc_map c)))) = length (map fst (pc_map c))"
    using assms(1) mem by (intro length_filter_neq) (force simp: pads_ok_def jsmap_wf_def)+
  then have "length (jsmap_delete k (pc_map c) @ [(k, e')]) = length (pc_map c)"
    using arg_cong [OF jsmap_keys_delete [of k "pc_map c"], of length] by simp
  moreover have "jsmap_wf (jsmap_delete k (pc_map c) @ [(k, e')])"
    using assms(1) by (auto simp: pads_ok_def jsmap_wf_def jsmap_keys_delete)
  moreover have "\<forall>(k, e) \<in> set (jsmap_delete k (pc_map c) @ [(k, e')]). \<exists>p. k = bytesKey p \<and> initScratchpad b3 p = Inr (pe_pad e)"
    using assms(1,3) mem set_jsmap_delete [of k "pc_map c"] by (force simp: pads_ok_def)
  ultimately show ?thesis using assms(1) by (simp add: pads_ok_def)
qed

lemma pads_ok_miss:
  assumes "pads_ok b3 c" "jsmap_get (pc_map c) (bytesKey p) = None" "initScratchpad b3 p = Inr (pe_pad e)"
  shows "pads_ok b3 (c\<lparr> pc_misses := n, pc_map := last_n (pc_capacity c) (pc_map c @ [(bytesKey p, e)]), pc_evictions := v \<rparr>)"
proof -
  have "distinct (map fst (pc_map c @ [(bytesKey p, e)]))"
    using assms(1,2) by (auto simp: pads_ok_def jsmap_wf_def map_of_eq_None_iff)
  then have "jsmap_wf (last_n (pc_capacity c) (pc_map c @ [(bytesKey p, e)]))"
    unfolding jsmap_wf_def map_last_n by (rule distinct_last_n)
  moreover have "\<forall>(k, e) \<in> set (last_n (pc_capacity c) (pc_map c @ [(bytesKey p, e)])).
      \<exists>p. k = bytesKey p \<and> initScratchpad b3 p = Inr (pe_pad e)"
    using assms(1,3) set_last_n [of "pc_capacity c" "pc_map c @ [(bytesKey p, e)]"] by (force simp: pads_ok_def)
  ultimately show ?thesis using assms(1) by (simp add: pads_ok_def)
qed

lemma pads_ok_getFresh:
  assumes "pads_ok b3 c"
  shows "fst (getFresh b3 now p c) = initScratchpad b3 p \<and> pads_ok b3 (snd (getFresh b3 now p c))"
proof (cases "length p = 32")
  case True
  show ?thesis
  proof (cases "jsmap_get (pc_map c) (bytesKey p)")
    case None
    show ?thesis
    proof (cases "initScratchpad b3 p")
      case (Inl e)
      then show ?thesis using True None assms by (simp add: getFresh_def pads_ok_def)
    next
      case (Inr pad)
      show ?thesis
        using getFresh_miss [OF assms True None Inr, of now]
          pads_ok_miss [OF assms None, of "\<lparr> pe_pad = pad, pe_lastUsedMs = now \<rparr>"] Inr by simp
    qed
  next
    case (Some e)
    show ?thesis
      using getFresh_hit(1) [OF assms True Some] getFresh_hit(2) [OF assms True Some, of now]
        pads_ok_hit [OF assms Some, of "e\<lparr> pe_lastUsedMs := now \<rparr>"] by simp
  qed
qed (use assms in \<open>simp add: getFresh_def initScratchpad_def\<close>)

interpretation cache: pad_source b3 "getFresh b3" "pads_ok b3" for b3
  by unfold_locales (simp_all add: pads_ok_getFresh)

section \<open>Least recently used\<close>

lemma lru_step:
  assumes "pads_ok b3 c" "length p = 32" "initScratchpad b3 p = Inr pad"
    and "map fst (pc_map c) = map bytesKey (lru_keys (pc_capacity c) hist)"
  shows "map fst (pc_map (snd (getFresh b3 now p c))) = map bytesKey (lru_keys (pc_capacity c) (hist @ [p])) \<and>
    pc_capacity (snd (getFresh b3 now p c)) = pc_capacity c"
proof (cases "jsmap_get (pc_map c) (bytesKey p)")
  case None
  let ?e = "\<lparr> pe_pad = pad, pe_lastUsedMs = now \<rparr>"
  have "p \<notin> set (lru_keys (pc_capacity c) hist)"
    using None assms(4) by (metis imageI list.set_map map_of_eq_None_iff)
  then have "lru_keys (pc_capacity c) (hist @ [p]) = last_n (pc_capacity c) (lru_keys (pc_capacity c) hist @ [p])"
    unfolding lru_keys_def remdups_snoc by (rule last_n_insert)
  then show ?thesis
    using getFresh_miss [OF assms(1,2) None assms(3), of now] assms(4) by (simp add: map_last_n)
next
  case (Some e)
  have "bytesKey p \<in> set (map fst (pc_map c))" using jsmap_get_Some_mem [OF Some] by force
  then have "p \<in> set (lru_keys (pc_capacity c) hist)" unfolding assms(4) by auto
  then have "lru_keys (pc_capacity c) (hist @ [p]) = filter (\<lambda>y. y \<noteq> p) (lru_keys (pc_capacity c) hist) @ [p]"
    unfolding lru_keys_def remdups_snoc by (intro last_n_touch) simp_all
  moreover have "map bytesKey (filter (\<lambda>y. y \<noteq> p) xs) = filter (\<lambda>y. y \<noteq> bytesKey p) (map bytesKey xs)" for xs
    by (induction xs) auto
  ultimately show ?thesis
    using getFresh_hit(2) [OF assms(1,2) Some, of now] assms(4) by (simp add: jsmap_keys_delete)
qed

lemma lru_requests:
  assumes "pads_ok b3 c" "\<forall>(now, p) \<in> set rs. \<exists>pad. initScratchpad b3 p = Inr pad"
    and "map fst (pc_map c) = map bytesKey (lru_keys (pc_capacity c) hist)"
  shows "map fst (pc_map (snd (requests (getFresh b3) rs c))) =
    map bytesKey (lru_keys (pc_capacity c) (hist @ map snd rs))"
  using assms
proof (induction rs arbitrary: c hist)
  case (Cons r rs)
  obtain now p where r: "r = (now, p)" by fastforce
  obtain pad where pad: "initScratchpad b3 p = Inr pad" using Cons.prems(2) r by auto
  then have "length p = 32" by (simp add: initScratchpad_def throw_if_eq_Inr)
  note st = lru_step [OF Cons.prems(1) this pad Cons.prems(3), of now]
  obtain v c' where g: "getFresh b3 now p c = (v, c')" by fastforce
  have "pads_ok b3 c'" using pads_ok_getFresh [OF Cons.prems(1), of now p] g by simp
  with Cons.IH [of c' "hist @ [p]"] Cons.prems(2) st g show ?case
    by (simp add: r Let_def case_prod_beta)
qed simp

lemma newPadCache_ok:
  "newPadCache cap = Inr c \<Longrightarrow> pads_ok b3 c \<and> pc_map c = [] \<and> pc_capacity c = cap"
  by (auto simp: newPadCache_def throw_if_eq_Inr pads_ok_def)

section \<open>Properties\<close>

text \<open>
  C9: the cache is transparent and bounded: for every sequence of requests to a new cache, each
  answer is what \<^verbatim>\<open>initScratchpad\<close> returns or throws for the same parent hash, and the number of
  cached pads never exceeds the capacity.
\<close>
theorem pad_cache_transparent:
  assumes "newPadCache cap = Inr c"
  shows "fst (requests (getFresh b3) rs c) = map (\<lambda>(now, p). initScratchpad b3 p) rs \<and>
    length (pc_map (snd (requests (getFresh b3) rs c))) \<le> pc_capacity (snd (requests (getFresh b3) rs c))"
  using cache.requests_value [of b3 c rs] newPadCache_ok [OF assms, of b3] by (simp add: pads_ok_def)

theorem pad_cache_transparent_witness:
  "\<exists>c. newPadCache 8 = Inr c \<and>
     fst (requests (getFresh (\<lambda>d n. replicate n 0)) [(0, replicate 32 1), (5, [])] c) =
       [initScratchpad (\<lambda>d n. replicate n 0) (replicate 32 1),
        Inl (Error ''prevBlockHashLE must be 32 bytes'')]"
proof -
  obtain c where c: "newPadCache 8 = Inr c" by (simp add: newPadCache_def)
  have "initScratchpad (\<lambda>d n. replicate n 0) [] = Inl (Error ''prevBlockHashLE must be 32 bytes'')"
    by (simp add: initScratchpad_def)
  with c pad_cache_transparent [OF c, of "\<lambda>d n. replicate n 0" "[(0, replicate 32 1), (5, [])]"]
  show ?thesis by auto
qed

text \<open>
  C20: the cache implements least-recently-used replacement: after any sequence of successful
  requests it holds exactly the pads of the \<^verbatim>\<open>capacity\<close> most recently requested distinct parents,
  ordered from the least to the most recently used.
\<close>
theorem pad_cache_lru:
  assumes "newPadCache cap = Inr c" and "\<forall>(now, p) \<in> set rs. \<exists>pad. initScratchpad b3 p = Inr pad"
  shows "jsmap_keys (pc_map (snd (requests (getFresh b3) rs c))) =
    map bytesKey (last_n cap (remdups (map snd rs)))"
  using lru_requests [of b3 c rs "[]"] newPadCache_ok [OF assms(1), of b3] assms(2)
  by (simp add: lru_keys_def jsmap_keys_def last_n_def)

theorem pad_cache_lru_witness:
  "\<exists>c. newPadCache 2 = Inr c \<and>
     jsmap_keys (pc_map (snd (requests (getFresh (\<lambda>d n. replicate n 0))
       [(0, replicate 32 1), (1, replicate 32 2), (2, replicate 32 1), (3, replicate 32 3)] c))) =
     [bytesKey (replicate 32 1), bytesKey (replicate 32 3)]"
proof -
  let ?b3 = "\<lambda>(d :: bytes) n. replicate n (0 :: byte)"
  let ?rs = "[(0, replicate 32 1), (1, replicate 32 2), (2, replicate 32 1), (3, replicate 32 3)] :: (int \<times> bytes) list"
  obtain c where c: "newPadCache 2 = Inr c" by (simp add: newPadCache_def)
  have "\<exists>pad. initScratchpad ?b3 (replicate 32 x) = Inr pad" for x
    using initScratchpad_eq [of ?b3 "replicate 32 x"] by auto
  then have ok: "\<forall>(now, p) \<in> set ?rs. \<exists>pad. initScratchpad ?b3 p = Inr pad" by auto
  have "last_n 2 (remdups (map snd ?rs)) = [replicate 32 1, replicate 32 3]"
    by (simp add: last_n_def numeral_eq_Suc)
  with pad_cache_lru [OF c ok] c show ?thesis by auto
qed

end
