(* ===== verification/Share_Validator.thy ===== *)
theory Share_Validator
  imports Pad_Cache Difficulty_Math
begin

text \<open>
  Validation of a submitted share (\<^verbatim>\<open>stratum/share-validator.ts\<close>): the header is rebuilt from the
  job and the submitted fields, hashed with B3PoW-Scratch on a pad of the cache, and compared
  with the share target and the network target. \<^verbatim>\<open>sha256\<close> and BLAKE3 are parameters.
\<close>

section \<open>Definitions\<close>

datatype share_reason = Stale | Duplicate | LowDiff | Invalid

record share_ok =
  so_isBlock :: bool
  so_meetsShare :: bool
  so_powHashHexBE :: string
  so_powInt :: int
  so_blockHashHexBE :: string
  so_serializedHeader :: bytes
  so_serializedBlockHex :: "string option"

datatype share_check = CheckOk share_ok | CheckFail share_reason "js_error option"

record job_context =
  jc_jobId :: string
  jc_coinb1Hex :: string
  jc_coinb2Hex :: string
  jc_merkleBranchesHexBE :: "string list"
  jc_version :: int
  jc_bits :: int
  jc_prevHashHexBE :: string
  jc_networkTargetHexBE :: string
  jc_txnsHex :: "string list"
  jc_height :: int

record share_input =
  si_job :: job_context
  si_extranonce1Hex :: string
  si_extranonce2Hex :: string
  si_ntime :: int
  si_nonce :: int
  si_shareDifficulty :: jsnum

record built_header =
  bh_header :: bytes
  bh_coinbase :: bytes
  bh_merkleRootLE :: bytes
  bh_prevHashLE :: bytes

definition buildHeader :: "(bytes \<Rightarrow> bytes) \<Rightarrow> share_input \<Rightarrow> built_header res" where
  "buildHeader sha s =
     andthen (hexToBytes (jc_coinb1Hex (si_job s))) (\<lambda>coinb1.
     andthen (hexToBytes (si_extranonce1Hex s)) (\<lambda>en1.
     andthen (hexToBytes (si_extranonce2Hex s)) (\<lambda>en2.
     andthen (hexToBytes (jc_coinb2Hex (si_job s))) (\<lambda>coinb2.
     let coinbase = concatBytes [coinb1, en1, en2, coinb2]; cbTxid = coinbaseTxId sha coinbase in
     andthen (computeMerkleRoot sha cbTxid (jc_merkleBranchesHexBE (si_job s))) (\<lambda>merkleRoot.
     andthen (hexToBytes (jc_prevHashHexBE (si_job s))) (\<lambda>prev. let prevHashLE = reverseBytes prev in
     andthen (serializeHeader
       \<lparr>h_version = jc_version (si_job s), h_prevHashHexBE = jc_prevHashHexBE (si_job s),
        h_merkleRootHexBE = bytesToHex (reverseBytes merkleRoot), h_ntime = si_ntime s,
        h_bits = jc_bits (si_job s), h_nonce = si_nonce s\<rparr>) (\<lambda>header.
     Inr \<lparr>bh_header = header, bh_coinbase = coinbase, bh_merkleRootLE = merkleRoot,
        bh_prevHashLE = prevHashLE\<rparr>)))))))"

text \<open>\<open>None\<close> is the low-difficulty refusal, \<open>Some (isBlock, meetsShare)\<close> acceptance.\<close>

definition classifyCandidate :: "int \<Rightarrow> int \<Rightarrow> int \<Rightarrow> (bool \<times> bool) option" where
  "classifyCandidate powInt shareTarget networkTarget =
     (let isBlock = powInt \<le> networkTarget; meetsShare = powInt \<le> shareTarget
      in if \<not> meetsShare \<and> \<not> isBlock then None else Some (isBlock, meetsShare))"

definition doubleSha256Local :: "(bytes \<Rightarrow> bytes) \<Rightarrow> bytes \<Rightarrow> bytes" where
  "doubleSha256Local sha b = sha (sha b)"

definition serializeBlockHex :: "bytes \<Rightarrow> bytes list \<Rightarrow> string" where
  "serializeBlockHex header txns = bytesToHex (concatBytes ([header, varInt (int (length txns))] @ txns))"

text \<open>The part of \<^verbatim>\<open>validateShare\<close> after the pad has been fetched.\<close>

definition checkBuilt ::
  "(bytes \<Rightarrow> nat \<Rightarrow> bytes) \<Rightarrow> (bytes \<Rightarrow> bytes) \<Rightarrow> share_input \<Rightarrow> built_header \<Rightarrow> bytes \<Rightarrow> share_check res" where
  "checkBuilt b3 sha s built pad =
     andthen (b3powScratch b3 (bh_header built) (bh_prevHashLE built) (Some pad)) (\<lambda>(r, _).
     let powLE = powHash r; powInt = bigIntFromBytesLE powLE in
     andthen (hexToBytes (jc_networkTargetHexBE (si_job s))) (\<lambda>t.
     let networkTarget = bigIntFromBytesLE (reverseBytes t) in
     andthen (targetFromShareDifficulty (si_shareDifficulty s)) (\<lambda>shareTarget.
     case classifyCandidate powInt shareTarget networkTarget of
       None \<Rightarrow> Inr (CheckFail LowDiff None)
     | Some (isBlock, meetsShare) \<Rightarrow>
         let blockHashLE = doubleSha256Local sha (bh_header built) in
         andthen (if isBlock
                  then andthen (mapR hexToBytes (jc_txnsHex (si_job s))) (\<lambda>txns.
                    Inr (Some (serializeBlockHex (bh_header built) (bh_coinbase built # txns))))
                  else Inr None) (\<lambda>serializedBlockHex.
         Inr (CheckOk \<lparr>so_isBlock = isBlock, so_meetsShare = meetsShare,
           so_powHashHexBE = bytesToHex (reverseBytes powLE), so_powInt = powInt,
           so_blockHashHexBE = bytesToHex (reverseBytes blockHashLE),
           so_serializedHeader = bh_header built, so_serializedBlockHex = serializedBlockHex\<rparr>)))))"

definition validateShare ::
  "(bytes \<Rightarrow> nat \<Rightarrow> bytes) \<Rightarrow> (bytes \<Rightarrow> bytes) \<Rightarrow> int \<Rightarrow> share_input \<Rightarrow> pad_cache \<Rightarrow> share_check res \<times> pad_cache" where
  "validateShare b3 sha now s padCache =
     (case buildHeader sha s of
        Inl e \<Rightarrow> (Inr (CheckFail Invalid (Some e)), padCache)
      | Inr built \<Rightarrow>
          let (pad, padCache) = getFresh b3 now (bh_prevHashLE built) padCache
          in (andthen pad (checkBuilt b3 sha s built), padCache))"

section \<open>Specification\<close>

text \<open>
  What a share is worth, without a cache: the proof of work of the rebuilt header as a number,
  compared with the two targets.
\<close>

definition share_pow :: "(bytes \<Rightarrow> nat \<Rightarrow> bytes) \<Rightarrow> built_header \<Rightarrow> bytes res" where
  "share_pow b3 built = andthen (b3powScratch b3 (bh_header built) (bh_prevHashLE built) None) (\<lambda>(r, _). Inr (powHash r))"

definition share_verdict ::
  "(bytes \<Rightarrow> nat \<Rightarrow> bytes) \<Rightarrow> (bytes \<Rightarrow> bytes) \<Rightarrow> share_input \<Rightarrow> share_check res" where
  "share_verdict b3 sha s = (case buildHeader sha s of
     Inl e \<Rightarrow> Inr (CheckFail Invalid (Some e))
   | Inr b \<Rightarrow>
       andthen (share_pow b3 b) (\<lambda>pow.
       andthen (hexToBytes (jc_networkTargetHexBE (si_job s))) (\<lambda>t.
       andthen (targetFromShareDifficulty (si_shareDifficulty s)) (\<lambda>shareTarget.
       if le_value pow > max shareTarget (le_value (rev t)) then Inr (CheckFail LowDiff None)
       else andthen (if le_value pow \<le> le_value (rev t)
               then andthen (mapR hexToBytes (jc_txnsHex (si_job s))) (\<lambda>txns.
                 Inr (Some (serializeBlockHex (bh_header b) (bh_coinbase b # txns))))
               else Inr None) (\<lambda>blk.
         Inr (CheckOk \<lparr>so_isBlock = le_value pow \<le> le_value (rev t), so_meetsShare = le_value pow \<le> shareTarget,
           so_powHashHexBE = bytesToHex (rev pow), so_powInt = le_value pow,
           so_blockHashHexBE = bytesToHex (rev (doubleSha256 sha (bh_header b))),
           so_serializedHeader = bh_header b, so_serializedBlockHex = blk\<rparr>))))))"

fun validate_all ::
  "(bytes \<Rightarrow> nat \<Rightarrow> bytes) \<Rightarrow> (bytes \<Rightarrow> bytes) \<Rightarrow> (int \<times> share_input) list \<Rightarrow> pad_cache \<Rightarrow> share_check res list" where
  "validate_all b3 sha [] c = []"
| "validate_all b3 sha ((now, s) # ss) c =
     (let (r, c') = validateShare b3 sha now s c in r # validate_all b3 sha ss c')"

section \<open>Lemmas\<close>

lemma buildHeader_eq:
  assumes "buildHeader sha s = Inr b"
  obtains c1 e1 e2 c2 prev where "hexToBytes (jc_coinb1Hex (si_job s)) = Inr c1"
    "hexToBytes (si_extranonce1Hex s) = Inr e1" "hexToBytes (si_extranonce2Hex s) = Inr e2"
    "hexToBytes (jc_coinb2Hex (si_job s)) = Inr c2" "hexToBytes (jc_prevHashHexBE (si_job s)) = Inr prev"
    "length prev = 32" "bh_coinbase b = c1 @ e1 @ e2 @ c2" "bh_prevHashLE b = rev prev"
    "computeMerkleRoot sha (doubleSha256 sha (c1 @ e1 @ e2 @ c2)) (jc_merkleBranchesHexBE (si_job s)) =
       Inr (bh_merkleRootLE b)"
    "length (bh_merkleRootLE b) = 32"
    "bh_header b = uint32LE (jc_version (si_job s)) @ rev prev @ bh_merkleRootLE b @
       uint32LE (si_ntime s) @ uint32LE (jc_bits (si_job s)) @ uint32LE (si_nonce s)"
  using assms
  by (auto simp: buildHeader_def andthen_eq_Inr throw_if_eq_Inr Let_def concatBytes_def coinbaseTxId_def
      serializeHeader_eq)

lemma buildHeader_lengths: "buildHeader sha s = Inr b \<Longrightarrow> length (bh_header b) = 80 \<and> length (bh_prevHashLE b) = 32"
  by (erule buildHeader_eq) simp

lemma checkBuilt_pow:
  "andthen pad (checkBuilt b3 sha s b) =
   andthen (andthen pad (\<lambda>p. b3powScratch b3 (bh_header b) (bh_prevHashLE b) (Some p))) (\<lambda>r.
     andthen (hexToBytes (jc_networkTargetHexBE (si_job s))) (\<lambda>t.
     andthen (targetFromShareDifficulty (si_shareDifficulty s)) (\<lambda>shareTarget.
     if le_value (powHash (fst r)) > max shareTarget (le_value (rev t)) then Inr (CheckFail LowDiff None)
     else andthen (if le_value (powHash (fst r)) \<le> le_value (rev t)
             then andthen (mapR hexToBytes (jc_txnsHex (si_job s))) (\<lambda>txns.
               Inr (Some (serializeBlockHex (bh_header b) (bh_coinbase b # txns))))
             else Inr None) (\<lambda>blk.
       Inr (CheckOk \<lparr>so_isBlock = le_value (powHash (fst r)) \<le> le_value (rev t),
         so_meetsShare = le_value (powHash (fst r)) \<le> shareTarget,
         so_powHashHexBE = bytesToHex (rev (powHash (fst r))), so_powInt = le_value (powHash (fst r)),
         so_blockHashHexBE = bytesToHex (rev (doubleSha256 sha (bh_header b))),
         so_serializedHeader = bh_header b, so_serializedBlockHex = blk\<rparr>)))))"
  by (cases pad) (auto simp: checkBuilt_def classifyCandidate_def doubleSha256Local_def doubleSha256_def Let_def
      andthen_def split: sum.splits option.splits)

context pad_source
begin

text \<open>A share checked on the pad of any source gets the verdict of the specification.\<close>

lemma verdict_from_source:
  assumes "inv s" and "buildHeader sha i = Inr b"
  shows "andthen (fst (get now (bh_prevHashLE b) s)) (checkBuilt b3 sha i b) = share_verdict b3 sha i"
proof -
  have "length (bh_prevHashLE b) = 32" "length (bh_header b) = 80"
    using buildHeader_lengths [OF assms(2)] by simp_all
  from pow_from_source [OF assms(1) this] show ?thesis
    unfolding checkBuilt_pow share_verdict_def assms(2) share_pow_def
    by (auto simp: andthen_def split: sum.splits)
qed

end

lemma validateShare_verdict:
  assumes "pads_ok b3 c"
  shows "fst (validateShare b3 sha now s c) = share_verdict b3 sha s" "pads_ok b3 (snd (validateShare b3 sha now s c))"
proof -
  show "fst (validateShare b3 sha now s c) = share_verdict b3 sha s"
  proof (cases "buildHeader sha s")
    case (Inr b)
    show ?thesis using cache.verdict_from_source [OF assms Inr, of now]
      by (simp add: validateShare_def Inr case_prod_beta)
  qed (simp add: validateShare_def share_verdict_def)
  show "pads_ok b3 (snd (validateShare b3 sha now s c))"
    using assms by (auto simp: validateShare_def case_prod_beta pads_ok_getFresh split: sum.splits)
qed

lemma share_verdict_ok:
  assumes "share_verdict b3 sha s = Inr (CheckOk r)"
  obtains b t st where "buildHeader sha s = Inr b" "hexToBytes (jc_networkTargetHexBE (si_job s)) = Inr t"
    "targetFromShareDifficulty (si_shareDifficulty s) = Inr st" "so_serializedHeader r = bh_header b"
    "so_isBlock r \<longleftrightarrow> so_powInt r \<le> le_value (rev t)" "so_meetsShare r \<longleftrightarrow> so_powInt r \<le> st"
    "so_isBlock r \<or> so_meetsShare r"
    "so_isBlock r \<longrightarrow> (\<exists>txns. mapR hexToBytes (jc_txnsHex (si_job s)) = Inr txns \<and>
       so_serializedBlockHex r = Some (serializeBlockHex (bh_header b) (bh_coinbase b # txns)))"
    "\<not> so_isBlock r \<longrightarrow> so_serializedBlockHex r = None"
  using assms
  by (auto simp: share_verdict_def andthen_eq_Inr split: sum.splits if_splits)

section \<open>Properties\<close>

text \<open>
  C4: The shared pad cache never changes a verdict: any sequence of shares checked against one
  new cache gets, share by share, the verdict of the specification that rebuilds the header,
  computes the proof of work from scratch and compares it with the two targets.
\<close>
theorem validateShare_cache_free:
  assumes "newPadCache cap = Inr c"
  shows "validate_all b3 sha shares c = map (\<lambda>(now, s). share_verdict b3 sha s) shares"
proof -
  have "pads_ok b3 c \<Longrightarrow> validate_all b3 sha shares c = map (\<lambda>(now, s). share_verdict b3 sha s) shares"
  proof (induction shares arbitrary: c)
    case (Cons x xs)
    then show ?case
      using validateShare_verdict [of b3 c sha "fst x" "snd x"]
      by (cases x) (auto simp: Let_def split: prod.splits)
  qed simp
  then show ?thesis using newPadCache_ok [OF assms] by blast
qed

theorem validateShare_cache_free_witness:
  "\<exists>c. newPadCache 8 = Inr c \<and>
     validate_all (\<lambda>d n. replicate n 0) (\<lambda>d. replicate 32 0)
       [(0, \<lparr>si_job = \<lparr>jc_jobId = ''0000001'', jc_coinb1Hex = ''01'', jc_coinb2Hex = '''', jc_merkleBranchesHexBE = [],
          jc_version = 1, jc_bits = 0, jc_prevHashHexBE = ''00'', jc_networkTargetHexBE = '''', jc_txnsHex = [],
          jc_height = 1\<rparr>, si_extranonce1Hex = ''abc'', si_extranonce2Hex = '''', si_ntime = 0, si_nonce = 0,
          si_shareDifficulty = Fin 1\<rparr>)] c = [Inr (CheckFail Invalid (Some (Error ''odd-length hex'')))]"
proof -
  obtain c where c: "newPadCache 8 = Inr c" by (simp add: newPadCache_def)
  show ?thesis
    by (rule exI [of _ c]) (simp add: c validateShare_cache_free [OF c] share_verdict_def buildHeader_def
        hexToBytes_def starts_with_def)
qed

end
