(* ===== verification/Address.thy ===== *)
theory Address
  imports Header
begin

text \<open>
  Bech32 and Bech32m addresses (\<^verbatim>\<open>lib/address.ts\<close>): checksum, parsing with the prefixes of the
  chain, regrouping of 5-bit symbols into bytes, witness programs and scripts. The checksum
  register is a 32-bit word, the symbols are integers.

  The register is linear over XOR and its step is injective, which gives burst-error detection;
  with the regrouping being lossless, a script determines its address.
\<close>

unbundle bit_operations_syntax

section \<open>Definitions\<close>

definition CHARSET :: string where
  "CHARSET = ''qpzry9x8gf2tvdw0s3jn54khce6mua7l''"

definition REVERSE :: "char \<Rightarrow> int option" where
  "REVERSE ch = map_option int (index_of ch CHARSET)"

definition ENCODING_BECH32 :: "32 word" where "ENCODING_BECH32 = 1"
definition ENCODING_BECH32M :: "32 word" where "ENCODING_BECH32M = 0x2bc830a3"

definition GEN :: "32 word list" where
  "GEN = [0x3b6a57b2, 0x26508e6d, 0x1ea119fa, 0x3d4233dd, 0x2a1462b3]"

definition polymod_step :: "32 word \<Rightarrow> int \<Rightarrow> 32 word" where
  "polymod_step chk v =
     (let top = signed_drop_bit 25 chk;
          chk = push_bit 5 (chk AND 0x1ffffff) XOR word_of_int v
      in foldl (\<lambda>chk i. if signed_drop_bit i top AND 1 \<noteq> 0 then chk XOR GEN ! i else chk) chk [0..<5])"

definition polymod :: "int list \<Rightarrow> 32 word" where
  "polymod values = foldl polymod_step 1 values"

definition hrpExpand :: "string \<Rightarrow> int list" where
  "hrpExpand hrp = map (\<lambda>c. drop_bit 5 (int (code c))) hrp @ [0] @ map (\<lambda>c. int (code c) AND 31) hrp"

datatype encoding = Bech32 | Bech32m
datatype network = Mainnet | Testnet | Regtest

definition verifyChecksum :: "string \<Rightarrow> int list \<Rightarrow> encoding option" where
  "verifyChecksum hrp data =
     (let v = polymod (hrpExpand hrp @ data)
      in if v = ENCODING_BECH32 then Some Bech32
         else if v = ENCODING_BECH32M then Some Bech32m else None)"

record address_info =
  ai_network :: network
  ai_hrp :: string
  ai_encoding :: encoding

text \<open>The loop that looks every character up.\<close>

fun lookup_all :: "string \<Rightarrow> int list option" where
  "lookup_all [] = Some []"
| "lookup_all (c # cs) =
     (case REVERSE c of None \<Rightarrow> None | Some v \<Rightarrow> map_option (Cons v) (lookup_all cs))"

definition network_of_hrp :: "string \<Rightarrow> network option" where
  "network_of_hrp hrp = (if hrp = ''b3'' then Some Mainnet else if hrp = ''tb3'' then Some Testnet
     else if hrp = ''b3rt'' then Some Regtest else None)"

definition parseB3Address :: "string \<Rightarrow> address_info option" where
  "parseB3Address addr =
     (let lower = to_lower addr; upper = to_upper addr in
      if addr \<noteq> lower \<and> addr \<noteq> upper then None
      else let a = lower in
      if length a < 8 \<or> length a > 90 then None
      else case last_index_of (CHR ''1'') a of
        None \<Rightarrow> None
      | Some sepPos \<Rightarrow>
          if sepPos < 1 \<or> sepPos + 7 > length a then None
          else let hrp = take sepPos a; dataPart = drop (sepPos + 1) a in
          case network_of_hrp hrp of
            None \<Rightarrow> None
          | Some network \<Rightarrow>
              (case lookup_all dataPart of
                 None \<Rightarrow> None
               | Some data \<Rightarrow>
                   (case verifyChecksum hrp data of
                      None \<Rightarrow> None
                    | Some enc \<Rightarrow> Some \<lparr> ai_network = network, ai_hrp = hrp, ai_encoding = enc \<rparr>)))"

definition isValidB3AddressForNetwork :: "string \<Rightarrow> network \<Rightarrow> bool" where
  "isValidB3AddressForNetwork addr network =
     (case parseB3Address addr of None \<Rightarrow> False | Some info \<Rightarrow> ai_network info = network)"

text \<open>The inner loop of \<^verbatim>\<open>convertBits\<close>, which emits a value while enough bits are left.\<close>

function emit_bits :: "int \<Rightarrow> nat \<Rightarrow> nat \<Rightarrow> int list \<Rightarrow> nat \<times> int list" where
  "emit_bits acc bits toBits ret =
     (if toBits \<le> bits \<and> 0 < toBits
      then let bits = bits - toBits
           in emit_bits acc bits toBits (ret @ [drop_bit bits acc AND (push_bit toBits 1 - 1)])
      else (bits, ret))"
  by pat_completeness auto
termination
  by (relation "measure (\<lambda>(_, bits, _, _). bits)") auto

declare emit_bits.simps [simp del]

fun convert_loop :: "int list \<Rightarrow> nat \<Rightarrow> nat \<Rightarrow> int \<Rightarrow> nat \<Rightarrow> int list \<Rightarrow> (int \<times> nat \<times> int list) option" where
  "convert_loop [] fromBits toBits acc bits ret = Some (acc, bits, ret)"
| "convert_loop (v # src) fromBits toBits acc bits ret =
     (if v < 0 \<or> drop_bit fromBits v \<noteq> 0 then None
      else let acc = (push_bit fromBits acc OR v) AND (push_bit (fromBits + toBits - 1) 1 - 1);
               (bits, ret) = emit_bits acc (bits + fromBits) toBits ret
           in convert_loop src fromBits toBits acc bits ret)"

definition convertBits :: "int list \<Rightarrow> nat \<Rightarrow> nat \<Rightarrow> bool \<Rightarrow> int list option" where
  "convertBits src fromBits toBits pad =
     (case convert_loop src fromBits toBits 0 0 [] of
        None \<Rightarrow> None
      | Some (acc, bits, ret) \<Rightarrow>
          let rest = push_bit (toBits - bits) acc AND (push_bit toBits 1 - 1) in
          if pad then Some (if bits > 0 then ret @ [rest] else ret)
          else if bits \<ge> fromBits \<or> rest \<noteq> 0 then None
          else Some ret)"

record witness_decoded =
  wd_network :: network
  witnessVersion :: int
  witnessProgram :: bytes
  wd_encoding :: encoding

definition decodeWitnessAddress :: "string \<Rightarrow> witness_decoded option" where
  "decodeWitnessAddress addr =
     (case parseB3Address addr of
        None \<Rightarrow> None
      | Some info \<Rightarrow>
          let lower = to_lower addr in
          case last_index_of (CHR ''1'') lower of
            None \<Rightarrow> None
          | Some sepPos \<Rightarrow>
          case lookup_all (drop (sepPos + 1) lower) of
            None \<Rightarrow> None
          | Some data \<Rightarrow>
              if length data < 7 then None
              else let ver = data ! 0 in
              if ver < 0 \<or> ver > 16 then None
              else if ver = 0 \<and> ai_encoding info \<noteq> Bech32 then None
              else if ver \<ge> 1 \<and> ai_encoding info \<noteq> Bech32m then None
              else (case convertBits (slice data 1 (length data - 6)) 5 8 False of
                 None \<Rightarrow> None
               | Some program \<Rightarrow>
                   if length program < 2 \<or> length program > 40 then None
                   else if ver = 0 \<and> length program \<noteq> 20 \<and> length program \<noteq> 32 then None
                   else Some \<lparr> wd_network = ai_network info, witnessVersion = ver,
                     witnessProgram = map word_of_int program, wd_encoding = ai_encoding info \<rparr>))"

definition addressToScriptPubKey :: "string \<Rightarrow> bytes option" where
  "addressToScriptPubKey addr =
     (case decodeWitnessAddress addr of
        None \<Rightarrow> None
      | Some w \<Rightarrow>
          let opVersion = (if witnessVersion w = 0 then 0x00 else 0x50 + witnessVersion w)
          in Some ([word_of_int opVersion, word_of_int (int (length (witnessProgram w)))] @ witnessProgram w))"

section \<open>The checksum register is linear\<close>

definition sel :: "32 word \<Rightarrow> nat \<Rightarrow> 32 word \<Rightarrow> 32 word" where
  "sel c n x = (if bit c n then x else 0)"

lemma sel_xor: "sel (a XOR b) n x = sel a n x XOR sel b n x"
  by (simp add: sel_def bit_xor_iff)

lemma top_bit: "i < 5 \<Longrightarrow> signed_drop_bit i (signed_drop_bit 25 c) AND 1 \<noteq> 0 \<longleftrightarrow> bit (c :: 32 word) (25 + i)"
proof -
  assume "i < 5"
  have "(x AND 1 \<noteq> 0) = bit x 0" for x :: "32 word" by (simp add: and_one_eq bit_0 odd_iff_mod_2_eq_one)
  with \<open>i < 5\<close> show ?thesis by (auto simp: bit_signed_drop_bit_iff add.commute)
qed

lemma polymod_step_eq:
  "polymod_step c v = push_bit 5 (c AND 0x1ffffff) XOR word_of_int v XOR
     sel c 25 0x3b6a57b2 XOR sel c 26 0x26508e6d XOR sel c 27 0x1ea119fa XOR
     sel c 28 0x3d4233dd XOR sel c 29 0x2a1462b3"
proof -
  have up: "[0..<5] = [0, 1, 2, 3, 4 :: nat]" by (simp add: upt_rec)
  have x: "(if bit c n then y XOR g else y) = y XOR sel c n g" for y g n by (simp add: sel_def)
  have t: "(signed_drop_bit 0 (signed_drop_bit 25 c) AND 1 \<noteq> 0) = bit c 25"
    "(signed_drop_bit 1 (signed_drop_bit 25 c) AND 1 \<noteq> 0) = bit c 26"
    "(signed_drop_bit 2 (signed_drop_bit 25 c) AND 1 \<noteq> 0) = bit c 27"
    "(signed_drop_bit 3 (signed_drop_bit 25 c) AND 1 \<noteq> 0) = bit c 28"
    "(signed_drop_bit 4 (signed_drop_bit 25 c) AND 1 \<noteq> 0) = bit c 29"
    using top_bit [of 0 c] top_bit [of 1 c] top_bit [of 2 c] top_bit [of 3 c] top_bit [of 4 c] by simp_all
  have g: "GEN ! 0 = 0x3b6a57b2" "GEN ! 1 = 0x26508e6d" "GEN ! 2 = 0x1ea119fa" "GEN ! 3 = 0x3d4233dd"
    "GEN ! 4 = 0x2a1462b3" by (simp_all add: GEN_def)
  show ?thesis unfolding polymod_step_def Let_def up foldl.simps t g x by (simp only: xor.assoc)
qed

lemma polymod_step_linear:
  "polymod_step a u XOR polymod_step b v = polymod_step (a XOR b) (u XOR v)"
  unfolding polymod_step_eq sel_xor bit.conj_xor_distrib2 push_bit_xor word_wi_log_defs(4) [symmetric]
  by (simp only: xor.assoc xor.commute xor.left_commute)

lemma polymod_fold_linear:
  "length us = length vs \<Longrightarrow>
   foldl polymod_step a us XOR foldl polymod_step b vs = foldl polymod_step (a XOR b) (map2 (XOR) us vs)"
proof (induction us vs arbitrary: a b rule: list_induct2)
  case (Cons u us v vs)
  show ?case using Cons.IH [of "polymod_step a u" "polymod_step b v"] by (simp add: polymod_step_linear)
qed simp

section \<open>The register step is injective\<close>

lemma small_bits: "0 \<le> v \<Longrightarrow> v < 32 \<Longrightarrow> bit v n \<Longrightarrow> n < 5" for v :: int
proof -
  assume "0 \<le> v" "v < 32"
  then have "take_bit 5 v = v" by (simp add: take_bit_int_eq_self)
  then show "bit v n \<Longrightarrow> n < 5" by (metis bit_take_bit_iff)
qed


lemma step_zero:
  assumes "polymod_step c 0 = 0" "drop_bit 30 c = 0"
  shows "c = 0"
proof -
  have "push_bit 5 x AND mask 5 = (0 :: 32 word)" for x
    by (rule bit_eqI) (auto simp: bit_and_iff bit_push_bit_iff bit_mask_iff)
  then have low: "push_bit 5 x AND 31 = (0 :: 32 word)" for x by (simp add: mask_eq_exp_minus_1)
  have "(polymod_step c 0) AND 31 = 0" using assms(1) by simp
  then have top: "\<not> bit c 25 \<and> \<not> bit c 26 \<and> \<not> bit c 27 \<and> \<not> bit c 28 \<and> \<not> bit c 29"
    unfolding polymod_step_eq bit.conj_xor_distrib2 low
    by (cases "bit c 25"; cases "bit c 26"; cases "bit c 27"; cases "bit c 28"; cases "bit c 29")
      (simp_all add: sel_def)
  then have p: "push_bit 5 (c AND 0x1ffffff) = 0" using assms(1) by (simp add: polymod_step_eq sel_def)
  show "c = 0"
  proof (rule bit_eqI)
    fix n assume "possible_bit TYPE(32 word) n"
    then have n: "n < 32" by simp
    have m: "(0x1ffffff :: 32 word) = mask 25" by (simp add: mask_eq_exp_minus_1)
    have a: "bit c n \<Longrightarrow> n < 25 \<Longrightarrow> bit (push_bit 5 (c AND 0x1ffffff)) (n + 5)"
      unfolding m by (simp add: bit_and_iff bit_push_bit_iff bit_mask_iff)
    consider "n < 25" | "25 \<le> n" "n < 30" | "30 \<le> n" by linarith
    then show "bit c n = bit 0 n"
    proof cases
      case 1
      then show ?thesis using a p by auto
    next
      case 2
      then have "n = 25 \<or> n = 26 \<or> n = 27 \<or> n = 28 \<or> n = 29" by arith
      then show ?thesis using top by auto
    next
      case 3
      have "bit (drop_bit 30 c) (n - 30) = bit c n" using 3 by (simp add: bit_drop_bit_eq)
      with assms(2) show ?thesis by simp
    qed
  qed
qed

lemma drop30_word: "0 \<le> v \<Longrightarrow> v < 32 \<Longrightarrow> drop_bit 30 (word_of_int v :: 32 word) = 0"
  by (rule bit_eqI) (auto simp: bit_drop_bit_eq bit_word_of_int_iff dest: small_bits)

lemma drop30_step: "0 \<le> v \<Longrightarrow> v < 32 \<Longrightarrow> drop_bit 30 (polymod_step c v) = 0"
proof -
  assume v: "0 \<le> v" "v < 32"
  have m: "(0x1ffffff :: 32 word) = mask 25" by (simp add: mask_eq_exp_minus_1)
  have "drop_bit 30 (push_bit 5 (c AND 0x1ffffff)) = 0"
    unfolding m by (rule bit_eqI) (auto simp: bit_and_iff bit_push_bit_iff bit_mask_iff bit_drop_bit_eq)
  moreover have "drop_bit 30 (sel c n g) = 0" if "drop_bit 30 g = 0" for n g using that by (simp add: sel_def)
  moreover have "drop_bit 30 (0x3b6a57b2 :: 32 word) = 0" "drop_bit 30 (0x26508e6d :: 32 word) = 0"
    "drop_bit 30 (0x1ea119fa :: 32 word) = 0" "drop_bit 30 (0x3d4233dd :: 32 word) = 0"
    "drop_bit 30 (0x2a1462b3 :: 32 word) = 0" by code_simp+
  ultimately show ?thesis unfolding polymod_step_eq drop_bit_xor using drop30_word [OF v] by simp
qed

lemma zeros_inj: "foldl polymod_step c (replicate k 0) = 0 \<Longrightarrow> drop_bit 30 c = 0 \<Longrightarrow> c = 0"
proof (induction k arbitrary: c)
  case (Suc k)
  have "polymod_step c 0 = 0" using Suc by (simp add: drop30_step)
  then show ?case using Suc.prems(2) by (rule step_zero)
qed simp

section \<open>A short window of symbols\<close>

lemma step_small:
  assumes "unat c < 2 ^ 25" "0 \<le> v" "v < 32"
  shows "unat (polymod_step c v) = 32 * unat c + nat v"
proof -
  have c: "take_bit 25 c = c"
    using assms(1) by (simp add: word_unat_eq_iff unsigned_take_bit_eq take_bit_nat_eq_self)
  have "\<not> bit c n" if "25 \<le> n" for n using c that by (metis bit_take_bit_iff not_le)
  then have s: "polymod_step c v = push_bit 5 (c AND 0x1ffffff) XOR word_of_int v"
    by (simp add: polymod_step_eq sel_def)
  have m: "c AND 0x1ffffff = c" using c by (simp add: take_bit_eq_mask mask_eq_exp_minus_1)
  have z: "push_bit 5 c AND word_of_int v = 0"
  proof (rule bit_eqI)
    fix n
    show "bit (push_bit 5 c AND word_of_int v) n = bit (0 :: 32 word) n"
      using small_bits [OF assms(2,3), of n] by (auto simp: bit_and_iff bit_push_bit_iff bit_word_of_int_iff)
  qed
  have "polymod_step c v = push_bit 5 c + word_of_int v"
    unfolding s m disjunctive_xor_eq_or [OF z] by (rule disjunctive_add_eq_or [OF z, symmetric])
  also have "\<dots> = word_of_nat (32 * unat c + nat v)"
    using assms by (simp add: push_bit_eq_mult mult.commute)
  finally have "unat (polymod_step c v) = (32 * unat c + nat v) mod 2 ^ LENGTH(32)"
    by (simp only: unat_of_nat)
  moreover have "32 * unat c + nat v < 2 ^ LENGTH(32)" using assms by simp
  ultimately show ?thesis by (simp only: mod_less)
qed

lemma window_value:
  assumes "length ds \<le> 6" "\<forall>d \<in> set ds. 0 \<le> d \<and> d < 32" "unat c < 32 ^ (6 - length ds)"
  shows "unat (foldl polymod_step c ds) = foldl (\<lambda>a d. 32 * a + nat d) (unat c) ds"
  using assms
proof (induction ds arbitrary: c)
  case (Cons d ds)
  have d: "0 \<le> d" "d < 32" using Cons.prems(2) by auto
  have "unat c < 32 ^ (6 - Suc (length ds))" using Cons.prems(3) by simp
  also have "(32 :: nat) ^ (6 - Suc (length ds)) \<le> 32 ^ 5" by (rule power_increasing) simp_all
  finally have u: "unat (polymod_step c d) = 32 * unat c + nat d" using d by (intro step_small) simp_all
  have "6 - length ds = Suc (6 - Suc (length ds))" using Cons.prems(1) by simp
  then have "(32 :: nat) ^ (6 - length ds) = 32 * 32 ^ (6 - Suc (length ds))" by (simp only: power_Suc)
  then have "unat (polymod_step c d) < 32 ^ (6 - length ds)"
    using u d Cons.prems(3) by simp
  with Cons u show ?case by simp
qed simp

lemma fold_digits_zero:
  "foldl (\<lambda>a d. 32 * a + nat d) n ds = (0 :: nat) \<Longrightarrow> n = 0 \<and> (\<forall>d \<in> set ds. nat d = 0)"
proof (induction ds arbitrary: n)
  case (Cons d ds)
  have "32 * n + nat d = 0 \<and> (\<forall>d \<in> set ds. nat d = 0)"
    by (rule Cons.IH) (use Cons.prems in \<open>simp only: foldl.simps\<close>)
  then show ?case by auto
qed simp

text \<open>A window of at most six symbols that are not all zero leaves a nonzero register.\<close>

lemma window_nonzero:
  assumes "length ds \<le> 6" "\<forall>d \<in> set ds. 0 \<le> d \<and> d < 32" "foldl polymod_step 0 ds = 0"
  shows "\<forall>d \<in> set ds. d = 0"
proof -
  have "foldl (\<lambda>a d. 32 * a + nat d) 0 ds = 0"
    using window_value [OF assms(1,2), of 0] assms(3) by simp
  then show ?thesis using fold_digits_zero [of 0 ds] assms(2) by force
qed

lemma drop30_fold:
  "drop_bit 30 c = 0 \<Longrightarrow> \<forall>d \<in> set ds. 0 \<le> d \<and> d < 32 \<Longrightarrow> drop_bit 30 (foldl polymod_step c ds) = 0"
  by (induction ds arbitrary: c) (simp_all add: drop30_step)

lemma xor_small: "0 \<le> a \<Longrightarrow> a < 32 \<Longrightarrow> 0 \<le> b \<Longrightarrow> b < 32 \<Longrightarrow> 0 \<le> a XOR b \<and> a XOR b < 32" for a b :: int
proof -
  assume ab: "0 \<le> a" "a < 32" "0 \<le> b" "b < 32"
  then have "take_bit 5 (a XOR b) = a XOR b" by (simp add: take_bit_xor take_bit_int_eq_self)
  then show ?thesis
    using take_bit_nonnegative [of 5 "a XOR b"] take_bit_int_less_exp [of 5 "a XOR b"] by simp
qed

lemma polymod_burst:
  assumes "length ws = length us" "length ws \<le> 6"
    "\<forall>d \<in> set ws. 0 \<le> d \<and> d < 32" "\<forall>d \<in> set us. 0 \<le> d \<and> d < 32"
    "polymod (xs @ ws @ ys) = polymod (xs @ us @ ys)"
  shows "ws = us"
proof -
  let ?c = "foldl polymod_step 1 xs" and ?d = "map2 (XOR) ws us"
  have d: "\<forall>d \<in> set ?d. 0 \<le> d \<and> d < 32"
  proof
    fix d assume "d \<in> set ?d"
    then obtain a b where "d = a XOR b" "a \<in> set ws" "b \<in> set us" by (auto elim: in_set_zipE)
    then show "0 \<le> d \<and> d < 32" using assms(3,4) by (simp add: xor_small)
  qed
  have "map2 (XOR) ys ys = replicate (length ys) (0 :: int)" by (induction ys) simp_all
  then have "foldl polymod_step (foldl polymod_step 0 ?d) (replicate (length ys) 0) =
      foldl polymod_step ?c (ws @ ys) XOR foldl polymod_step ?c (us @ ys)"
    using assms(1) by (subst polymod_fold_linear) simp_all
  also have "\<dots> = 0" using assms(5) by (simp add: polymod_def)
  finally have "foldl polymod_step 0 ?d = 0"
    by (rule zeros_inj) (rule drop30_fold [OF _ d], simp)
  with window_nonzero [OF _ d] assms(1,2) have z: "\<forall>d \<in> set ?d. d = 0" by simp
  show "ws = us"
  proof (rule nth_equalityI [OF assms(1)])
    fix i assume "i < length ws"
    then have "?d ! i \<in> set ?d" using assms(1) by (intro nth_mem) simp
    with z have "?d ! i = 0" by blast
    then have "ws ! i XOR us ! i = 0" using \<open>i < length ws\<close> assms(1) by simp
    then have "(ws ! i XOR us ! i) XOR us ! i = us ! i" by simp
    then show "ws ! i = us ! i" by (simp add: xor.assoc)
  qed
qed

section \<open>Regrouping of bits\<close>

text \<open>The \<open>w\<close> low bits of a number, most significant first.\<close>

definition be_bits :: "nat \<Rightarrow> int \<Rightarrow> bool list" where
  "be_bits w x = map (bit x) (rev [0..<w])"

definition bit_string :: "nat \<Rightarrow> int list \<Rightarrow> bool list" where
  "bit_string w xs = concat (map (be_bits w) xs)"

lemma length_be_bits [simp]: "length (be_bits w x) = w"
  by (simp add: be_bits_def)

lemma length_bit_string [simp]: "length (bit_string w xs) = w * length xs"
  by (induction xs) (simp_all add: bit_string_def)

lemma bit_string_simps [simp]:
  "bit_string w [] = []" "bit_string w (x # xs) = be_bits w x @ bit_string w xs"
  "bit_string w (xs @ ys) = bit_string w xs @ bit_string w ys"
  by (simp_all add: bit_string_def)

lemma nth_be_bits: "i < w \<Longrightarrow> be_bits w x ! i = bit x (w - Suc i)"
  by (simp add: be_bits_def rev_nth)

lemma be_bits_split: "be_bits (a + b) x = be_bits a (drop_bit b x) @ be_bits b x"
proof (rule nth_equalityI)
  fix i assume "i < length (be_bits (a + b) x)"
  then show "be_bits (a + b) x ! i = (be_bits a (drop_bit b x) @ be_bits b x) ! i"
    by (auto simp: nth_be_bits nth_append bit_drop_bit_eq add.commute)
qed simp

lemma be_bits_cong: "(\<And>i. i < w \<Longrightarrow> bit x i = bit y i) \<Longrightarrow> be_bits w x = be_bits w y"
  by (simp add: be_bits_def)

lemma be_bits_eq_iff: "be_bits w x = be_bits w y \<longleftrightarrow> (\<forall>i < w. bit x i = bit y i)"
  by (auto simp: be_bits_def)

lemma be_bits_zero_iff: "be_bits w x = replicate w False \<longleftrightarrow> (\<forall>i < w. \<not> bit x i)"
proof -
  have "replicate w False = be_bits w 0" by (rule nth_equalityI) (simp_all add: nth_be_bits)
  then show ?thesis by (simp add: be_bits_eq_iff)
qed

lemma be_bits_inj:
  assumes "0 \<le> x" "x < 2 ^ w" "0 \<le> y" "y < 2 ^ w" "be_bits w x = be_bits w y"
  shows "x = y"
proof -
  have "take_bit w x = x" "take_bit w y = y" using assms by (simp_all add: take_bit_int_eq_self)
  moreover have "take_bit w x = take_bit w y"
    by (rule bit_eqI) (use assms(5) in \<open>auto simp: be_bits_eq_iff bit_take_bit_iff\<close>)
  ultimately show ?thesis by metis
qed

lemma bit_string_inj:
  assumes "\<forall>x \<in> set xs. 0 \<le> x \<and> x < 2 ^ w" "\<forall>y \<in> set ys. 0 \<le> y \<and> y < 2 ^ w"
    "length xs = length ys" "bit_string w xs = bit_string w ys"
  shows "xs = ys"
  using assms(3,1,2,4)
proof (induction xs ys rule: list_induct2)
  case (Cons x xs y ys)
  have "be_bits w x = be_bits w y \<and> bit_string w xs = bit_string w ys"
    using Cons.prems(3) by (simp add: append_eq_append_conv)
  then show ?case using Cons be_bits_inj [of x w y] by simp
qed simp

lemma symbol_ok: "\<not> (v < 0 \<or> drop_bit 5 v \<noteq> 0) \<longleftrightarrow> 0 \<le> v \<and> v < 32" for v :: int
proof -
  have "v div 32 = 0 \<longleftrightarrow> v < 32" if "0 \<le> v" using that by (auto simp: zdiv_eq_0_iff)
  then show ?thesis by (auto simp: drop_bit_eq_div)
qed

lemma emit_bits_8: "n < 16 \<Longrightarrow> emit_bits acc n 8 ret =
    (if 8 \<le> n then (n - 8, ret @ [drop_bit (n - 8) acc AND 255]) else (n, ret))"
proof -
  assume "n < 16"
  then have "\<not> 8 \<le> n - 8" by simp
  then have "emit_bits acc (n - 8) 8 r = (n - 8, r)" for r by (simp add: emit_bits.simps [of acc "n - 8"])
  then show ?thesis by (subst emit_bits.simps) (simp add: Let_def push_bit_eq_mult)
qed

lemma acc_bits:
  assumes "n \<le> 7" "0 \<le> v" "v < 32"
  shows "be_bits (n + 5) ((push_bit 5 acc OR v) AND (push_bit 12 1 - 1)) = be_bits n acc @ be_bits 5 v"
proof -
  have m: "(push_bit 12 1 - 1 :: int) = mask 12" by (simp add: mask_eq_exp_minus_1 push_bit_eq_mult)
  have "be_bits n (drop_bit 5 ((push_bit 5 acc OR v) AND mask 12)) = be_bits n acc"
    using assms(1) small_bits [OF assms(2,3)]
    by (intro be_bits_cong) (auto simp: bit_drop_bit_eq bit_and_iff bit_or_iff bit_push_bit_iff bit_mask_iff)
  moreover have "be_bits 5 ((push_bit 5 acc OR v) AND mask 12) = be_bits 5 v"
    by (intro be_bits_cong) (auto simp: bit_and_iff bit_or_iff bit_push_bit_iff bit_mask_iff)
  ultimately show ?thesis unfolding m be_bits_split by simp
qed

lemma byte_bits: "8 \<le> n \<Longrightarrow> be_bits n acc = be_bits 8 (drop_bit (n - 8) acc AND 255) @ be_bits (n - 8) acc"
proof -
  assume n: "8 \<le> n"
  have m: "(255 :: int) = mask 8" by (simp add: mask_eq_exp_minus_1)
  have "be_bits 8 (drop_bit (n - 8) acc AND 255) = be_bits 8 (drop_bit (n - 8) acc)"
    unfolding m by (intro be_bits_cong) (simp add: bit_and_iff bit_mask_iff)
  with be_bits_split [of 8 "n - 8" acc] n show ?thesis by simp
qed

lemma byte_range: "0 \<le> x AND 255 \<and> x AND 255 < 256" for x :: int
  using take_bit_eq_mask [of 8 x] by (simp add: mask_eq_exp_minus_1 take_bit_eq_mod)

lemma convert_loop_spec:
  assumes "n \<le> 7" "\<forall>x \<in> set ret. 0 \<le> x \<and> x < 256"
  shows "if \<forall>v \<in> set src. 0 \<le> v \<and> v < 32
    then \<exists>acc' n' ret'. convert_loop src 5 8 acc n ret = Some (acc', n', ret') \<and> n' \<le> 7 \<and>
      (\<forall>x \<in> set ret'. 0 \<le> x \<and> x < 256) \<and>
      bit_string 8 ret @ be_bits n acc @ bit_string 5 src = bit_string 8 ret' @ be_bits n' acc'
    else convert_loop src 5 8 acc n ret = None"
  using assms
proof (induction src arbitrary: acc n ret)
  case (Cons v src)
  show ?case
  proof (cases "0 \<le> v \<and> v < 32")
    case True
    define acc' where "acc' = (push_bit 5 acc OR v) AND (push_bit 12 1 - 1)"
    have b: "be_bits (n + 5) acc' = be_bits n acc @ be_bits 5 v"
      unfolding acc'_def using Cons.prems(1) True by (intro acc_bits) simp_all
    define n' where "n' = (if 8 \<le> n + 5 then n - 3 else n + 5)"
    define ret' where "ret' = (if 8 \<le> n + 5 then ret @ [drop_bit (n - 3) acc' AND 255] else ret)"
    have e: "emit_bits acc' (n + 5) 8 ret = (n', ret')"
      using Cons.prems(1) by (simp add: emit_bits_8 n'_def ret'_def)
    have inv: "n' \<le> 7" "\<forall>x \<in> set ret'. 0 \<le> x \<and> x < 256"
      using Cons.prems byte_range by (auto simp: n'_def ret'_def)
    have s: "bit_string 8 ret @ be_bits n acc @ be_bits 5 v = bit_string 8 ret' @ be_bits n' acc'"
      unfolding b [symmetric] using byte_bits [of "n + 5" acc'] by (auto simp: n'_def ret'_def)
    have step: "convert_loop (v # src) 5 8 acc n ret = convert_loop src 5 8 acc' n' ret'"
      using True symbol_ok [of v] e by (simp add: acc'_def Let_def)
    show ?thesis using Cons.IH [OF inv, of acc'] True s unfolding step by (auto simp flip: append_assoc)
  next
    case False
    then have "v < 0 \<or> drop_bit 5 v \<noteq> 0" using symbol_ok [of v] by blast
    then have "convert_loop (v # src) 5 8 acc n ret = None" by (simp only: convert_loop.simps if_True)
    moreover have "\<not> (\<forall>v \<in> set (v # src). 0 \<le> v \<and> v < 32)" using False by (meson list.set_intros(1))
    ultimately show ?thesis by (simp only: if_False)
  qed
qed simp

lemma rest_zero:
  assumes "n \<le> 7"
  shows "push_bit (8 - n) acc AND (push_bit 8 1 - 1) = 0 \<longleftrightarrow> be_bits n acc = replicate n False"
proof -
  have m: "(push_bit 8 1 - 1 :: int) = mask 8" by (simp add: mask_eq_exp_minus_1 push_bit_eq_mult)
  have b: "bit (push_bit (8 - n) acc AND mask 8) i \<longleftrightarrow> i < 8 \<and> 8 - n \<le> i \<and> bit acc (i - (8 - n))" for i
    by (auto simp: bit_and_iff bit_push_bit_iff bit_mask_iff)
  show ?thesis
  proof
    assume "push_bit (8 - n) acc AND (push_bit 8 1 - 1) = 0"
    then have z: "\<not> bit (push_bit (8 - n) acc AND mask 8) i" for i unfolding m by simp
    have "\<not> bit acc i" if "i < n" for i
      using z [of "i + (8 - n)"] b [of "i + (8 - n)"] that assms by simp
    then show "be_bits n acc = replicate n False" by (simp add: be_bits_zero_iff)
  next
    assume "be_bits n acc = replicate n False"
    then have "\<not> bit acc i" if "i < n" for i using that by (simp add: be_bits_zero_iff)
    then have "\<not> bit (push_bit (8 - n) acc AND mask 8) i" for i unfolding b by auto
    then show "push_bit (8 - n) acc AND (push_bit 8 1 - 1) = 0"
      unfolding m by (intro bit_eqI) simp
  qed
qed

lemma convertBits_iff:
  "convertBits src 5 8 False = Some r \<longleftrightarrow>
     (\<forall>v \<in> set src. 0 \<le> v \<and> v < 32) \<and> (\<forall>x \<in> set r. 0 \<le> x \<and> x < 256) \<and>
     (\<exists>k < 5. bit_string 5 src = bit_string 8 r @ replicate k False)"
proof (cases "\<forall>v \<in> set src. 0 \<le> v \<and> v < 32")
  case True
  then obtain acc n ret where l: "convert_loop src 5 8 0 0 [] = Some (acc, n, ret)" "n \<le> 7"
      "\<forall>x \<in> set ret. 0 \<le> x \<and> x < 256" "bit_string 5 src = bit_string 8 ret @ be_bits n acc"
    using convert_loop_spec [of 0 "[]" src 0] by (auto simp: be_bits_def)
  have c: "convertBits src 5 8 False = Some r \<longleftrightarrow> n < 5 \<and> be_bits n acc = replicate n False \<and> r = ret"
    using l(1) rest_zero [OF l(2), of acc] by (auto simp: convertBits_def Let_def)
  show ?thesis
  proof
    assume "convertBits src 5 8 False = Some r"
    with c l True show "(\<forall>v \<in> set src. 0 \<le> v \<and> v < 32) \<and> (\<forall>x \<in> set r. 0 \<le> x \<and> x < 256) \<and>
     (\<exists>k < 5. bit_string 5 src = bit_string 8 r @ replicate k False)" by auto
  next
    assume a: "(\<forall>v \<in> set src. 0 \<le> v \<and> v < 32) \<and> (\<forall>x \<in> set r. 0 \<le> x \<and> x < 256) \<and>
     (\<exists>k < 5. bit_string 5 src = bit_string 8 r @ replicate k False)"
    then obtain k where k: "k < 5" "bit_string 8 ret @ be_bits n acc = bit_string 8 r @ replicate k False"
      using l(4) by auto
    from arg_cong [OF k(2), of length] have "8 * length ret + n = 8 * length r + k" by simp
    then have "length ret = length r" using k(1) l(2) by linarith
    then have "n = k" using \<open>8 * length ret + n = 8 * length r + k\<close> by simp
    with k have "bit_string 8 ret = bit_string 8 r" "be_bits n acc = replicate n False"
      by (simp_all add: append_eq_append_conv)
    then show "convertBits src 5 8 False = Some r"
      using bit_string_inj [of ret 8 r] l(3) a \<open>length ret = length r\<close> \<open>n = k\<close> k(1) c by simp
  qed
next
  case False
  then have "convert_loop src 5 8 0 0 [] = None" using convert_loop_spec [of 0 "[]" src 0] by (simp split: if_splits)
  with False show ?thesis by (auto simp: convertBits_def)
qed

section \<open>Accepted addresses\<close>

lemma lookup_all_range: "lookup_all s = Some vs \<Longrightarrow> length vs = length s \<and> (\<forall>v \<in> set vs. 0 \<le> v \<and> v < 32)"
proof (induction s arbitrary: vs)
  case (Cons c s)
  have "index_of c xs = Some i \<Longrightarrow> i < length xs" for i xs
    by (induction xs arbitrary: i) (auto split: if_splits)
  from this [of CHARSET] have "REVERSE c = Some v \<Longrightarrow> 0 \<le> v \<and> v < 32" for v
    by (auto simp: REVERSE_def CHARSET_def)
  with Cons show ?case by (auto split: option.splits)
qed simp

lemma index_of_inj: "index_of a xs = Some i \<Longrightarrow> index_of b xs = Some i \<Longrightarrow> a = b"
  by (induction xs arbitrary: i) (auto split: if_splits)

lemma lookup_all_inj: "lookup_all s = Some vs \<Longrightarrow> lookup_all t = Some vs \<Longrightarrow> s = t"
proof (induction s arbitrary: t vs)
  case Nil
  then show ?case by (cases t) (auto split: option.splits)
next
  case (Cons c s)
  then obtain v ws where v: "REVERSE c = Some v" "lookup_all s = Some ws" "vs = v # ws" by (auto split: option.splits)
  then obtain d t' where t: "t = d # t'" using Cons.prems(2) by (cases t) auto
  with Cons.prems(2) v have "REVERSE d = Some v" "lookup_all t' = Some ws" by (auto split: option.splits)
  with v t Cons.IH [of ws t'] show ?case by (auto simp: REVERSE_def dest: index_of_inj)
qed

text \<open>The parts of an accepted address.\<close>

definition address_parts :: "string \<Rightarrow> string \<Rightarrow> string \<Rightarrow> int list \<Rightarrow> bool" where
  "address_parts addr hrp dataPart vs \<longleftrightarrow>
     to_lower addr = hrp @ CHR ''1'' # dataPart \<and> CHR ''1'' \<notin> set dataPart \<and> lookup_all dataPart = Some vs"

lemma last_index_of_parts:
  "CHR ''1'' \<notin> set d \<Longrightarrow> last_index_of (CHR ''1'') (h @ CHR ''1'' # d) = Some (length h)"
proof -
  assume d: "CHR ''1'' \<notin> set d"
  have "last_index_of (CHR ''1'') d = None" using d by (induction d) auto
  then show ?thesis by (induction h) auto
qed

lemma parseB3Address_SomeD:
  assumes "parseB3Address addr = Some info"
  obtains dataPart vs where "address_parts addr (ai_hrp info) dataPart vs"
    "network_of_hrp (ai_hrp info) = Some (ai_network info)"
    "verifyChecksum (ai_hrp info) vs = Some (ai_encoding info)"
    "last_index_of (CHR ''1'') (to_lower addr) = Some (length (ai_hrp info))" "6 \<le> length vs"
proof -
  let ?a = "to_lower addr"
  obtain p where p: "last_index_of (CHR ''1'') ?a = Some p" "\<not> (p < 1 \<or> p + 7 > length ?a)"
    using assms by (auto simp: parseB3Address_def Let_def split: if_splits option.splits)
  obtain vs where r: "lookup_all (drop (p + 1) ?a) = Some vs" "network_of_hrp (take p ?a) = Some (ai_network info)"
      "verifyChecksum (take p ?a) vs = Some (ai_encoding info)" "ai_hrp info = take p ?a"
    using assms p by (auto simp: parseB3Address_def Let_def split: if_splits option.splits)
  have "p < length ?a" "?a ! p = CHR ''1''" using last_index_of_bound [OF p(1)] by auto
  then have a: "?a = take p ?a @ CHR ''1'' # drop (p + 1) ?a" by (metis Suc_eq_plus1 id_take_nth_drop)
  have "CHR ''1'' \<notin> set (drop (p + 1) ?a)" using last_index_of_after [OF p(1)] by simp
  with a r(1,4) have "address_parts addr (ai_hrp info) (drop (p + 1) ?a) vs" by (simp add: address_parts_def)
  moreover have "length (take p ?a) = p" using \<open>p < length ?a\<close> by simp
  moreover have "6 \<le> length vs" using lookup_all_range [OF r(1)] p(2) by auto
  ultimately show ?thesis using that r p(1) by simp
qed

lemma network_of_hrp_inj: "network_of_hrp a = Some n \<Longrightarrow> network_of_hrp b = Some n \<Longrightarrow> a = b"
  by (auto simp: network_of_hrp_def split: if_splits)

lemma verifyChecksum_polymod:
  "verifyChecksum hrp vs = Some e \<Longrightarrow>
   polymod (hrpExpand hrp @ vs) = (case e of Bech32 \<Rightarrow> ENCODING_BECH32 | Bech32m \<Rightarrow> ENCODING_BECH32M)"
  by (auto simp: verifyChecksum_def Let_def split: if_splits)

lemma hrp_no_sep: "network_of_hrp h = Some n \<Longrightarrow> CHR ''1'' \<notin> set h"
  by (auto simp: network_of_hrp_def split: if_splits)

lemma first_sep_eq: "h @ x # d = g @ x # e \<Longrightarrow> x \<notin> set h \<Longrightarrow> x \<notin> set g \<Longrightarrow> h = g \<and> d = e"
proof (induction h arbitrary: g)
  case Nil
  then show ?case by (cases g) auto
next
  case (Cons a h)
  then show ?case by (cases g) auto
qed

lemma lookup_all_append:
  "lookup_all (x @ y) = Some vs \<Longrightarrow> \<exists>a b. lookup_all x = Some a \<and> lookup_all y = Some b \<and> vs = a @ b"
proof (induction x arbitrary: vs)
  case (Cons c x)
  then obtain v ws where v: "REVERSE c = Some v" "lookup_all (x @ y) = Some ws" "vs = v # ws"
    by (auto split: option.splits)
  from Cons.IH [OF v(2)] obtain a b where "lookup_all x = Some a" "lookup_all y = Some b" "ws = a @ b" by blast
  with v show ?case by auto
qed simp

lemma burst_equal:
  assumes "verifyChecksum h (x @ u @ y) = Some e" "verifyChecksum h (x @ v @ y) = Some e"
    "length u = length v" "length u \<le> 6"
    "\<forall>d \<in> set u. 0 \<le> d \<and> d < 32" "\<forall>d \<in> set v. 0 \<le> d \<and> d < 32"
  shows "u = v"
  using verifyChecksum_polymod [OF assms(1)] verifyChecksum_polymod [OF assms(2)]
  by (intro polymod_burst [OF assms(3-6), of "hrpExpand h @ x" y]) simp

lemma split_three: "i \<le> j \<Longrightarrow> xs = take i xs @ slice xs i j @ drop j xs"
proof -
  assume "i \<le> j"
  then have "drop j xs = drop (j - i) (drop i xs)" by simp
  then have "slice xs i j @ drop j xs = drop i xs" unfolding slice_def by (simp only: append_take_drop_id)
  then show ?thesis by simp
qed

text \<open>What a decoded address consists of.\<close>

lemma decode_parts:
  assumes "decodeWitnessAddress addr = Some w"
  obtains info dataPart ver src chk prog where "parseB3Address addr = Some info"
    "address_parts addr (ai_hrp info) dataPart (ver # src @ chk)" "length chk = 6"
    "0 \<le> ver" "ver \<le> 16" "ai_encoding info = (if ver = 0 then Bech32 else Bech32m)"
    "convertBits src 5 8 False = Some prog" "2 \<le> length prog" "length prog \<le> 40"
    "ver = 0 \<longrightarrow> length prog = 20 \<or> length prog = 32"
    "w = \<lparr> wd_network = ai_network info, witnessVersion = ver, witnessProgram = map word_of_int prog,
      wd_encoding = ai_encoding info \<rparr>"
    "verifyChecksum (ai_hrp info) (ver # src @ chk) = Some (ai_encoding info)"
    "network_of_hrp (ai_hrp info) = Some (ai_network info)"
proof -
  obtain info where i: "parseB3Address addr = Some info"
    using assms by (auto simp: decodeWitnessAddress_def split: option.splits)
  obtain dp vs where pt: "address_parts addr (ai_hrp info) dp vs"
      "network_of_hrp (ai_hrp info) = Some (ai_network info)"
      "verifyChecksum (ai_hrp info) vs = Some (ai_encoding info)"
      "last_index_of (CHR ''1'') (to_lower addr) = Some (length (ai_hrp info))"
    by (rule parseB3Address_SomeD [OF i])
  have "drop (length (ai_hrp info) + 1) (to_lower addr) = dp" using pt(1) by (simp add: address_parts_def)
  then have lk: "lookup_all (drop (length (ai_hrp info) + 1) (to_lower addr)) = Some vs"
    using pt(1) by (simp add: address_parts_def)
  note d = assms [unfolded decodeWitnessAddress_def i option.case Let_def pt(4) lk]
  have len: "7 \<le> length vs" using d by (simp split: if_splits)
  define src where "src = slice vs 1 (length vs - 6)"
  define chk where "chk = drop (length vs - 6) vs"
  have "vs = take 1 vs @ slice vs 1 (length vs - 6) @ drop (length vs - 6) vs"
    using len by (intro split_three) simp_all
  moreover have "take 1 vs = [vs ! 0]" using len by (cases vs) simp_all
  ultimately have vs: "vs = vs ! 0 # src @ chk" unfolding src_def chk_def by simp
  obtain prog where pr: "convertBits src 5 8 False = Some prog"
    using d by (auto simp: src_def split: if_splits option.splits)
  note d' = d [folded src_def, unfolded pr option.case]
  have c: "0 \<le> vs ! 0 \<and> vs ! 0 \<le> 16 \<and> ai_encoding info = (if vs ! 0 = 0 then Bech32 else Bech32m) \<and>
      2 \<le> length prog \<and> length prog \<le> 40 \<and> (vs ! 0 = 0 \<longrightarrow> length prog = 20 \<or> length prog = 32) \<and>
      w = \<lparr> wd_network = ai_network info, witnessVersion = vs ! 0, witnessProgram = map word_of_int prog,
        wd_encoding = ai_encoding info \<rparr>"
    using d' by (auto split: if_splits)
  have "length chk = 6" using len by (simp add: chk_def)
  then show ?thesis
    using c pr pt(1-3) vs by (intro that [OF i, of dp "vs ! 0" src chk prog]) simp_all
qed

lemma byte_of_int_inj: "0 \<le> a \<Longrightarrow> a < 256 \<Longrightarrow> 0 \<le> b \<Longrightarrow> b < 256 \<Longrightarrow> (word_of_int a :: byte) = word_of_int b \<Longrightarrow> a = b"
  by (metis mod_pos_pos_trivial uint_byte_of_int)

lemma bytes_of_ints_inj:
  assumes "\<forall>x \<in> set xs. 0 \<le> x \<and> x < 256" "\<forall>y \<in> set ys. 0 \<le> y \<and> y < 256"
    "map (word_of_int :: int \<Rightarrow> byte) xs = map word_of_int ys"
  shows "xs = ys"
proof (rule nth_equalityI)
  show len: "length xs = length ys" using map_eq_imp_length_eq [OF assms(3)] .
  fix i assume i: "i < length xs"
  then have "(word_of_int (xs ! i) :: byte) = word_of_int (ys ! i)"
    using arg_cong [OF assms(3), of "\<lambda>l. l ! i"] len by simp
  then show "xs ! i = ys ! i" using assms(1,2) i len by (intro byte_of_int_inj) auto
qed

text \<open>Regrouping is injective: the padding is shorter than a symbol.\<close>

lemma convertBits_inj:
  assumes "convertBits a 5 8 False = Some r" "convertBits b 5 8 False = Some r"
  shows "a = b"
proof -
  obtain k where k: "k < 5" "bit_string 5 a = bit_string 8 r @ replicate k False"
    using assms(1) unfolding convertBits_iff by blast
  obtain l where l: "l < 5" "bit_string 5 b = bit_string 8 r @ replicate l False"
    using assms(2) unfolding convertBits_iff by blast
  have "5 * length a = 8 * length r + k" "5 * length b = 8 * length r + l"
    using arg_cong [OF k(2), of length] arg_cong [OF l(2), of length] by simp_all
  then have "length a = length b" using k(1) l(1) by linarith
  moreover have "k = l" using \<open>length a = length b\<close> \<open>5 * length a = _\<close> \<open>5 * length b = _\<close> by linarith
  ultimately show ?thesis
    using assms k(2) l(2) unfolding convertBits_iff by (intro bit_string_inj [of a 5 b]) simp_all
qed

lemma script_bytes:
  assumes "addressToScriptPubKey a = Some spk" "decodeWitnessAddress a = Some w"
  shows "hd spk = word_of_int (if witnessVersion w = 0 then 0x00 else 0x50 + witnessVersion w)"
    "drop 2 spk = witnessProgram w"
  using assms by (auto simp: addressToScriptPubKey_def Let_def)

section \<open>Properties\<close>

text \<open>
  C11: the checksum detects every burst of up to six characters: two accepted addresses with the
  same encoding that differ only inside a window of six consecutive characters of the data part
  (in particular in one character, or by a transposition) are the same address.
\<close>
theorem address_burst_detected:
  assumes "parseB3Address a = Some i" and "parseB3Address b = Some j" and "ai_encoding i = ai_encoding j"
    and "to_lower a = ai_hrp i @ CHR ''1'' # p @ u @ s" and "to_lower b = ai_hrp i @ CHR ''1'' # p @ v @ s"
    and "length u = length v" and "length u \<le> 6"
  shows "u = v"
proof -
  obtain d vs where a: "address_parts a (ai_hrp i) d vs" "network_of_hrp (ai_hrp i) = Some (ai_network i)"
      "verifyChecksum (ai_hrp i) vs = Some (ai_encoding i)" by (rule parseB3Address_SomeD [OF assms(1)])
  obtain e ws where b: "address_parts b (ai_hrp j) e ws" "network_of_hrp (ai_hrp j) = Some (ai_network j)"
      "verifyChecksum (ai_hrp j) ws = Some (ai_encoding j)" by (rule parseB3Address_SomeD [OF assms(2)])
  have "d = p @ u @ s" using a assms(4) by (simp add: address_parts_def)
  moreover have "ai_hrp j = ai_hrp i \<and> e = p @ v @ s"
    using b(1) assms(5) hrp_no_sep [OF a(2)] hrp_no_sep [OF b(2)]
    by (intro first_sep_eq [of _ "CHR ''1''"]) (simp_all add: address_parts_def)
  ultimately have l: "lookup_all (p @ u @ s) = Some vs" "lookup_all (p @ v @ s) = Some ws" "ai_hrp j = ai_hrp i"
    using a(1) b(1) by (simp_all add: address_parts_def)
  obtain xp xu xs where x: "lookup_all p = Some xp" "lookup_all u = Some xu" "lookup_all s = Some xs" "vs = xp @ xu @ xs"
    using l(1) by (blast dest: lookup_all_append)
  obtain xv where y: "lookup_all v = Some xv" "ws = xp @ xv @ xs"
    using l(2) x(1,3) by (fastforce dest: lookup_all_append)
  have "xu = xv"
    using burst_equal [of "ai_hrp i" xp xu xs "ai_encoding i" xv] a(3) b(3) assms(3,6,7) l(3) x y
      lookup_all_range [OF x(2)] lookup_all_range [OF y(1)] by simp
  then show "u = v" using lookup_all_inj x(2) y(1) by blast
qed

lemma sample_address_parse:
  "parseB3Address ''tb31pqypqaa88d8'' = Some \<lparr> ai_network = Testnet, ai_hrp = ''tb3'', ai_encoding = Bech32m \<rparr>"
  "parseB3Address ''TB31PQYPQAA88D8'' = Some \<lparr> ai_network = Testnet, ai_hrp = ''tb3'', ai_encoding = Bech32m \<rparr>"
  by code_simp+

lemma sample_address_script:
  "addressToScriptPubKey ''tb31pqypqaa88d8'' = Some [0x51, 2, 1, 2]"
  "addressToScriptPubKey ''TB31PQYPQAA88D8'' = Some [0x51, 2, 1, 2]"
  by code_simp+

text \<open>A window of the two spellings of the sample address.\<close>

theorem address_burst_detected_witness: "drop 9 (to_lower ''tb31pqypqaa88d8'') = drop 9 (to_lower ''TB31PQYPQAA88D8'')"
proof -
  have "to_lower ''tb31pqypqaa88d8'' = ''tb3'' @ CHR ''1'' # ''pqypq'' @ ''aa88d8'' @ []"
    "to_lower ''TB31PQYPQAA88D8'' = ''tb3'' @ CHR ''1'' # ''pqypq'' @ ''aa88d8'' @ []"
    "length ''aa88d8'' = length ''aa88d8''" "length ''aa88d8'' \<le> 6" by code_simp+
  note w = address_burst_detected [OF sample_address_parse(1,2), unfolded address_info.simps, OF refl this]
  have "drop 9 (to_lower ''tb31pqypqaa88d8'') = ''aa88d8''" "drop 9 (to_lower ''TB31PQYPQAA88D8'') = ''aa88d8''"
    by code_simp+
  with w show ?thesis by simp
qed

text \<open>
  \<^verbatim>\<open>convertBits(src, 5, 8, false)\<close> succeeds exactly when the symbols are 5-bit and their bit string
  is that of whole bytes followed by fewer than five zero bits, and then returns those bytes.
\<close>
theorem convertBits_regroups:
  "convertBits src 5 8 False = Some r \<longleftrightarrow>
     (\<forall>v \<in> set src. 0 \<le> v \<and> v < 32) \<and> (\<forall>x \<in> set r. 0 \<le> x \<and> x < 256) \<and>
     (\<exists>k < 5. bit_string 5 src = bit_string 8 r @ replicate k False)"
  by (rule convertBits_iff)

theorem convertBits_regroups_witness: "convertBits [1, 0] 5 8 False = Some [8]"
proof -
  have "bit_string 5 [1, 0] = bit_string 8 [8] @ replicate 2 False" by code_simp
  then show ?thesis unfolding convertBits_regroups by (auto intro!: exI [of _ 2])
qed

text \<open>
  C12: a script determines its address: on one network, two addresses with the same scriptPubKey
  are equal up to case, so no two spellings of a payout destination exist.
\<close>
theorem script_determines_address:
  assumes "addressToScriptPubKey a = Some spk" and "addressToScriptPubKey b = Some spk"
    and "map_option ai_network (parseB3Address a) = map_option ai_network (parseB3Address b)"
  shows "to_lower a = to_lower b"
proof -
  obtain w where w: "decodeWitnessAddress a = Some w"
    using assms(1) by (auto simp: addressToScriptPubKey_def split: option.splits)
  obtain x where x: "decodeWitnessAddress b = Some x"
    using assms(2) by (auto simp: addressToScriptPubKey_def split: option.splits)
  obtain i d va sa ca pa where A: "parseB3Address a = Some i"
    "address_parts a (ai_hrp i) d (va # sa @ ca)" "length ca = 6" "0 \<le> va" "va \<le> 16"
    "ai_encoding i = (if va = 0 then Bech32 else Bech32m)" "convertBits sa 5 8 False = Some pa"
    "w = \<lparr> wd_network = ai_network i, witnessVersion = va, witnessProgram = map word_of_int pa, wd_encoding = ai_encoding i \<rparr>"
    "verifyChecksum (ai_hrp i) (va # sa @ ca) = Some (ai_encoding i)" "network_of_hrp (ai_hrp i) = Some (ai_network i)"
    by (rule decode_parts [OF w])
  obtain j e vb sb cb pb where B: "parseB3Address b = Some j"
    "address_parts b (ai_hrp j) e (vb # sb @ cb)" "length cb = 6" "0 \<le> vb" "vb \<le> 16"
    "ai_encoding j = (if vb = 0 then Bech32 else Bech32m)" "convertBits sb 5 8 False = Some pb"
    "x = \<lparr> wd_network = ai_network j, witnessVersion = vb, witnessProgram = map word_of_int pb, wd_encoding = ai_encoding j \<rparr>"
    "verifyChecksum (ai_hrp j) (vb # sb @ cb) = Some (ai_encoding j)" "network_of_hrp (ai_hrp j) = Some (ai_network j)"
    by (rule decode_parts [OF x])
  have spk: "(word_of_int (if va = 0 then 0x00 else 0x50 + va) :: byte) = word_of_int (if vb = 0 then 0x00 else 0x50 + vb)"
    "map (word_of_int :: int \<Rightarrow> byte) pa = map word_of_int pb"
    using script_bytes [OF assms(1) w] script_bytes [OF assms(2) x]
    unfolding A(8) B(8) witness_decoded.simps by simp_all
  have "(if va = 0 then 0x00 else 0x50 + va) = (if vb = 0 then 0x00 else 0x50 + vb)"
    using A(4,5) B(4,5) by (intro byte_of_int_inj spk(1)) (simp_all split: if_splits)
  then have v: "va = vb" using A(4) B(4) by (simp split: if_splits)
  have "pa = pb" using A(7) B(7) spk(2) unfolding convertBits_iff by (intro bytes_of_ints_inj) simp_all
  then have s: "sa = sb" using convertBits_inj A(7) B(7) by blast
  have h: "ai_hrp i = ai_hrp j" using assms(3) A(1,10) B(1,10) by (intro network_of_hrp_inj) simp_all
  have ra: "\<forall>d \<in> set ca. 0 \<le> d \<and> d < 32" "\<forall>d \<in> set cb. 0 \<le> d \<and> d < 32"
    using A(2) B(2) lookup_all_range unfolding address_parts_def by fastforce+
  have "ca = cb"
    using burst_equal [of "ai_hrp i" "va # sa" ca "[]" "ai_encoding i" cb] A(3,6,9) B(3,6,9) v s h ra by simp
  then show ?thesis using A(2) B(2) v s h lookup_all_inj unfolding address_parts_def by metis
qed

theorem script_determines_address_witness: "to_lower ''tb31pqypqaa88d8'' = to_lower ''TB31PQYPQAA88D8''"
proof -
  have "map_option ai_network (parseB3Address ''tb31pqypqaa88d8'') = map_option ai_network (parseB3Address ''TB31PQYPQAA88D8'')"
    unfolding sample_address_parse by simp
  then show ?thesis by (rule script_determines_address [OF sample_address_script(1) sample_address_script(2)])
qed

end
