(* ===== verification/Job_Manager.thy ===== *)
theory Job_Manager
  imports Share_Validator Address
begin

text \<open>
  Block templates become Stratum jobs (\<^verbatim>\<open>stratum/job-manager.ts\<close>): the coinbase transaction split
  around the extranonce, the Merkle branches, and the polling loop with its cache of jobs.

  \<^verbatim>\<open>getBlockTemplate\<close> is the argument \<open>r\<close> of \<open>poll\<close>: a template or the exception it threw. Job objects are
  shared between \<^verbatim>\<open>currentJob\<close> and \<^verbatim>\<open>jobsById\<close> and mutated in place, so the manager keeps a store of
  objects and both fields hold references into it. The module's \<^verbatim>\<open>jobCounter\<close> is a field of the state.
\<close>

section \<open>Templates and jobs\<close>

record template_tx =
  tx_data :: string
  tx_hash :: string
  tx_txid :: "string option"

record block_template =
  tpl_version :: int
  tpl_previousblockhash :: string
  tpl_transactions :: "template_tx list"
  tpl_coinbasevalue :: int
  tpl_target :: string
  tpl_mintime :: int
  tpl_curtime :: int
  tpl_bits :: string
  tpl_height :: int
  tpl_default_witness_commitment :: "string option"

record stratum_job = job_context +
  sj_cleanJobs :: bool
  sj_ntimeMin :: int
  sj_ntimeRoll :: int

definition workSignature :: "block_template \<Rightarrow> string" where
  "workSignature tpl = tpl_previousblockhash tpl @ ''|'' @ dec_of_int (int (length (tpl_transactions tpl))) @ ''|'' @
     tpl_bits tpl @ ''|'' @ dec_of_int (tpl_version tpl)"

definition cleanJobsFor :: "string \<Rightarrow> string \<Rightarrow> bool" where
  "cleanJobsFor lastPrev nextPrev \<longleftrightarrow> lastPrev \<noteq> nextPrev"

section \<open>The coinbase\<close>

lemma js_ushr_less: "0 < a \<Longrightarrow> 0 \<le> js_ushr a 8 \<and> js_ushr a 8 < a"
proof -
  assume a: "0 < a"
  have "js_ushr a 8 = take_bit 32 a div 256" by (simp add: js_ushr_def to_uint32_def drop_bit_eq_div)
  moreover have "0 \<le> take_bit 32 a" "take_bit 32 a \<le> a" using a by (simp_all add: take_bit_int_less_eq_self_iff)
  moreover have "256 * (take_bit 32 a div 256) \<le> take_bit 32 a" by simp
  moreover have "0 \<le> take_bit 32 a div 256" by (simp add: pos_imp_zdiv_nonneg_iff)
  ultimately show ?thesis using a by linarith
qed

text \<open>The digit loop of \<^verbatim>\<open>scriptNumPush\<close>.\<close>

function num_bytes :: "int \<Rightarrow> int list" where
  "num_bytes a = (if a > 0 then js_and a 0xff # num_bytes (js_ushr a 8) else [])"
  by pat_completeness auto
termination
  by (relation "measure nat") (auto simp: js_ushr_less)

declare num_bytes.simps [simp del]

definition scriptNumPush :: "int \<Rightarrow> bytes" where
  "scriptNumPush n =
     (if n = 0 then [0x00]
      else let negative = n < 0;
               bytes = num_bytes \<bar>n\<bar>;
               lastIdx = length bytes - 1;
               last = bytes ! lastIdx;
               bytes = (if js_and last 0x80 \<noteq> 0 then bytes @ [if negative then 0x80 else 0x00]
                        else if negative then bytes[lastIdx := js_or last 0x80] else bytes)
           in word_of_int (int (length bytes)) # map word_of_int bytes)"

definition pool_tag :: string where
  "pool_tag = ''/B3Chain Pool/''"

text \<open>\<^verbatim>\<open>TextEncoder\<close> on an ASCII string.\<close>

definition ascii_bytes :: "string \<Rightarrow> bytes" where
  "ascii_bytes s = map (\<lambda>c. word_of_nat (code c)) s"

definition buildCoinbase :: "block_template \<Rightarrow> string \<Rightarrow> string \<Rightarrow> (string \<times> string) res" where
  "buildCoinbase tpl payoutAddress poolTag =
     (case addressToScriptPubKey payoutAddress of
        None \<Rightarrow> Inl (Error ''B3POOL_PAYOUT_ADDRESS is not a valid bech32 address'')
      | Some spk \<Rightarrow>
          let heightPush = scriptNumPush (tpl_height tpl);
              extranoncePlaceholder = replicate 8 0;
              tagBytes = ascii_bytes poolTag
          in throw_if (length tagBytes > 75) (Error ''pool tag too long'') (
          let tagPush = concatBytes [[word_of_nat (length tagBytes)], tagBytes];
              scriptSig = concatBytes [heightPush, extranoncePlaceholder, tagPush]
          in throw_if (length scriptSig > 100) (Error ''coinbase scriptSig > 100 bytes'') (
          let prevout = replicate 32 0 @ replicate 4 0xff;
              sequence = uint32LE 0xffffffff;
              valueBytes = le_bytes 8 (tpl_coinbasevalue tpl);
              vout0 = concatBytes [valueBytes, varInt (int (length spk)), spk]
          in andthen (case tpl_default_witness_commitment tpl of
                Some wc \<Rightarrow> if wc = [] then Inr [vout0] else andthen (hexToBytes wc) (\<lambda>wcSpk.
                  Inr [vout0, concatBytes [replicate 8 0, varInt (int (length wcSpk)), wcSpk]])
              | None \<Rightarrow> Inr [vout0]) (\<lambda>vouts.
          let version = uint32LE 1;
              txinCount = [1];
              txoutCount = [word_of_nat (length vouts)];
              locktime = uint32LE 0;
              coinb1 = concatBytes [version, txinCount, prevout, varInt (int (length scriptSig)), heightPush];
              coinb2 = concatBytes ([tagPush, sequence, txoutCount] @ vouts @ [locktime])
          in Inr (bytesToHex coinb1, bytesToHex coinb2)))))"

section \<open>Merkle branches\<close>

definition combineHashesBE :: "(bytes \<Rightarrow> bytes) \<Rightarrow> string \<Rightarrow> string \<Rightarrow> string res" where
  "combineHashesBE sha aBE bBE =
     andthen (hexToBytes aBE) (\<lambda>a.
     andthen (hexToBytes bBE) (\<lambda>b.
     andthen (arr_set (replicate 64 0) (reverseBytes a) 0) (\<lambda>concat.
     andthen (arr_set concat (reverseBytes b) 32) (\<lambda>concat.
     Inr (bytesToHex (reverseBytes (sha (sha concat))))))))"

text \<open>One level of the tree: the pairs from position 2 on, the last one with itself when odd.\<close>

fun pairLevel :: "(bytes \<Rightarrow> bytes) \<Rightarrow> string option list \<Rightarrow> string option list res" where
  "pairLevel sha [] = Inr []"
| "pairLevel sha [left] =
     (case left of Some l \<Rightarrow> andthen (combineHashesBE sha l l) (\<lambda>h. Inr [Some h]) | None \<Rightarrow> Inr [None])"
| "pairLevel sha (left # right # rest) =
     andthen (case (left, right) of
         (Some l, Some r) \<Rightarrow> andthen (combineHashesBE sha l r) (\<lambda>h. Inr (Some h))
       | _ \<Rightarrow> Inr None) (\<lambda>x.
     andthen (pairLevel sha rest) (\<lambda>xs. Inr (x # xs)))"

lemma length_pairLevel: "pairLevel sha level = Inr next \<Longrightarrow> length next = (length level + 1) div 2"
  by (induction sha level arbitrary: "next" rule: pairLevel.induct)
     (auto simp: andthen_eq_Inr split: option.splits)

function branchLoop :: "(bytes \<Rightarrow> bytes) \<Rightarrow> string option list \<Rightarrow> string list res" where
  "branchLoop sha level =
     (if length level > 1 then
        let here = (case level ! 1 of Some sibling \<Rightarrow> [sibling] | None \<Rightarrow> []) in
        andthen (pairLevel sha (drop 2 level)) (\<lambda>next.
        andthen (branchLoop sha (None # next)) (\<lambda>branches. Inr (here @ branches)))
      else Inr [])"
  by pat_completeness auto
termination
  by (relation "measure (\<lambda>(_, level). length level)") (auto dest!: length_pairLevel)

declare branchLoop.simps [simp del]

definition computeMerkleBranches :: "(bytes \<Rightarrow> bytes) \<Rightarrow> string list \<Rightarrow> string list res" where
  "computeMerkleBranches sha txidsHexBE =
     (if txidsHexBE = [] then Inr [] else branchLoop sha (None # map Some txidsHexBE))"

section \<open>Jobs\<close>

text \<open>\<^verbatim>\<open>parseInt(tpl.bits, 16)\<close>; a \<^verbatim>\<open>NaN\<close> acts as 0 in every use of the bits.\<close>

definition bits_number :: "string \<Rightarrow> int" where
  "bits_number s = (case parse_hex_int s of None \<Rightarrow> 0 | Some n \<Rightarrow> n)"

definition buildJob ::
  "(bytes \<Rightarrow> bytes) \<Rightarrow> string \<Rightarrow> block_template \<Rightarrow> bool \<Rightarrow> int \<Rightarrow> (stratum_job \<times> int) res" where
  "buildJob sha payoutAddress tpl cleanJobs jobCounter =
     andthen (buildCoinbase tpl payoutAddress pool_tag) (\<lambda>(coinb1Hex, coinb2Hex).
     let txns = map tx_data (tpl_transactions tpl);
         branches = map (\<lambda>tx. case tx_txid tx of Some t \<Rightarrow> t | None \<Rightarrow> tx_hash tx) (tpl_transactions tpl)
     in andthen (computeMerkleBranches sha branches) (\<lambda>merkleBranches.
     let jobCounter = (jobCounter + 1) mod 0xfffffff;
         jobId = pad_start 7 (CHR ''0'') (hex_of_int jobCounter)
     in Inr (\<lparr>jc_jobId = jobId, jc_coinb1Hex = coinb1Hex, jc_coinb2Hex = coinb2Hex,
          jc_merkleBranchesHexBE = merkleBranches, jc_version = tpl_version tpl, jc_bits = bits_number (tpl_bits tpl),
          jc_prevHashHexBE = tpl_previousblockhash tpl, jc_networkTargetHexBE = tpl_target tpl, jc_txnsHex = txns,
          jc_height = tpl_height tpl, sj_cleanJobs = cleanJobs, sj_ntimeMin = tpl_mintime tpl,
          sj_ntimeRoll = tpl_curtime tpl\<rparr>, jobCounter)))"

record job_manager =
  jm_lastTemplateHash :: string
  jm_lastWorkSig :: string
  jm_lastPrev :: string
  jm_currentJob :: "nat option"
  jm_jobsById :: "(string, nat) jsmap"
  jm_jobCounter :: int
  jm_objects :: "stratum_job list"

definition maxJobs :: nat where "maxJobs = 32"

definition newJobManager :: job_manager where
  "newJobManager = \<lparr>jm_lastTemplateHash = '''', jm_lastWorkSig = '''', jm_lastPrev = '''', jm_currentJob = None,
     jm_jobsById = [], jm_jobCounter = 0, jm_objects = []\<rparr>"

definition getCurrent :: "job_manager \<Rightarrow> stratum_job option" where
  "getCurrent s = map_option (\<lambda>r. jm_objects s ! r) (jm_currentJob s)"

definition getById :: "job_manager \<Rightarrow> string \<Rightarrow> stratum_job option" where
  "getById s i = map_option (\<lambda>r. jm_objects s ! r) (jsmap_get (jm_jobsById s) i)"

datatype jm_event = JobEvent stratum_job | TemplateError js_error

text \<open>The second half of \<^verbatim>\<open>poll\<close>, from the point where a new job is needed.\<close>

definition pollBuild ::
  "(bytes \<Rightarrow> bytes) \<Rightarrow> string \<Rightarrow> block_template \<Rightarrow> string \<Rightarrow> string \<Rightarrow> bool \<Rightarrow> job_manager \<Rightarrow>
   job_manager \<times> jm_event list \<times> js_error option" where
  "pollBuild sha payoutAddress tpl workSig timeSig clean s =
     (let s = s\<lparr>jm_lastTemplateHash := timeSig, jm_lastWorkSig := workSig, jm_lastPrev := tpl_previousblockhash tpl\<rparr> in
      case buildJob sha payoutAddress tpl clean (jm_jobCounter s) of
        Inl e \<Rightarrow> (s, [], Some e)
      | Inr (job, jobCounter) \<Rightarrow>
          let ref = length (jm_objects s);
              jobsById = jsmap_set (jc_jobId job) ref (jm_jobsById s);
              jobsById = (if length jobsById > maxJobs then jsmap_delete (hd (jsmap_keys jobsById)) jobsById else jobsById)
          in (s\<lparr>jm_jobCounter := jobCounter, jm_objects := jm_objects s @ [job], jm_currentJob := Some ref,
                jm_jobsById := jobsById\<rparr>, [JobEvent job], None))"

text \<open>
  One \<^verbatim>\<open>poll\<close>: the new state, the events emitted, and the exception that rejects its promise.
\<close>

definition poll ::
  "(bytes \<Rightarrow> bytes) \<Rightarrow> string \<Rightarrow> block_template res \<Rightarrow> job_manager \<Rightarrow> job_manager \<times> jm_event list \<times> js_error option" where
  "poll sha payoutAddress r s =
     (case r of
        Inl e \<Rightarrow> (s, [TemplateError e], None)
      | Inr tpl \<Rightarrow>
          let workSig = workSignature tpl;
              timeSig = workSig @ ''|'' @ dec_of_int (tpl_curtime tpl);
              clean = cleanJobsFor (jm_lastPrev s) (tpl_previousblockhash tpl)
          in case jm_currentJob s of
               Some cur \<Rightarrow>
                 if timeSig = jm_lastTemplateHash s then (s, [], None)
                 else if \<not> clean \<and> workSig = jm_lastWorkSig s then
                   let job = (jm_objects s ! cur)\<lparr>sj_ntimeRoll := tpl_curtime tpl, sj_cleanJobs := False\<rparr>
                   in (s\<lparr>jm_objects := (jm_objects s)[cur := job], jm_lastTemplateHash := timeSig\<rparr>, [JobEvent job], None)
                 else pollBuild sha payoutAddress tpl workSig timeSig clean s
             | None \<Rightarrow> pollBuild sha payoutAddress tpl workSig timeSig clean s)"

section \<open>The Merkle tree\<close>

text \<open>Bitcoin's Merkle root: hash neighbours in pairs, the last one with itself when odd, until one is left.\<close>

fun merkle_level :: "(bytes \<Rightarrow> bytes) \<Rightarrow> bytes list \<Rightarrow> bytes list" where
  "merkle_level h [] = []"
| "merkle_level h [x] = [h (x @ x)]"
| "merkle_level h (x # y # xs) = h (x @ y) # merkle_level h xs"

lemma length_merkle_level: "length (merkle_level h xs) = (length xs + 1) div 2"
  by (induction h xs rule: merkle_level.induct) auto

function merkle_root :: "(bytes \<Rightarrow> bytes) \<Rightarrow> bytes list \<Rightarrow> bytes" where
  "merkle_root h xs = (case xs of [] \<Rightarrow> replicate 32 0 | [x] \<Rightarrow> x | _ \<Rightarrow> merkle_root h (merkle_level h xs))"
  by pat_completeness auto
termination
  by (relation "measure (\<lambda>(h, xs). length xs)") (auto simp: length_merkle_level)

declare merkle_root.simps [simp del]

abbreviation display_hash :: "bytes \<Rightarrow> string" where
  "display_hash b \<equiv> bytesToHex (rev b)"

lemma combineHashesBE_display:
  "length a = 32 \<Longrightarrow> length b = 32 \<Longrightarrow>
   combineHashesBE sha (display_hash a) (display_hash b) = Inr (display_hash (doubleSha256 sha (a @ b)))"
  by (simp add: combineHashesBE_def doubleSha256_def)

lemma pairLevel_display:
  assumes "\<forall>t \<in> set ts. length t = 32"
  shows "pairLevel sha (map (Some \<circ> display_hash) ts) = Inr (map (Some \<circ> display_hash) (merkle_level (doubleSha256 sha) ts))"
  using assms
proof (induction ts rule: induct_list012)
  case (3 x y ts)
  then show ?case by (simp add: combineHashesBE_display del: map_map)
qed (simp_all add: combineHashesBE_display)

lemma merkle_level_lengths:
  assumes "\<And>b. length (h b) = 32"
  shows "\<forall>t \<in> set (merkle_level h ts). length t = 32"
proof (induction ts rule: induct_list012)
  case (3 x y ts)
  have "length (h (x @ y)) = 32" by (rule assms)
  with 3 show ?case by simp
next
  case (2 x)
  have "length (h (x @ x)) = 32" by (rule assms)
  then show ?case by simp
qed simp

lemma branchLoop_root:
  assumes "\<And>b. length (sha b) = 32" "length cb = 32" "\<forall>t \<in> set ts. length t = 32"
  shows "\<exists>brs. branchLoop sha (None # map (Some \<circ> display_hash) ts) = Inr brs \<and>
    computeMerkleRoot sha cb brs = Inr (merkle_root (doubleSha256 sha) (cb # ts))"
  using assms(2,3)
proof (induction ts arbitrary: cb rule: length_induct)
  case (1 ts)
  show ?case
  proof (cases ts)
    case Nil
    then show ?thesis by (subst branchLoop.simps, subst merkle_root.simps) simp
  next
    case (Cons t rest)
    let ?next = "merkle_level (doubleSha256 sha) rest" and ?cb = "doubleSha256 sha (cb @ t)"
    have h32: "length (doubleSha256 sha b) = 32" for b using assms(1) by (simp add: doubleSha256_def)
    have "length ?next < length ts" using Cons by (simp add: length_merkle_level)
    moreover have "\<forall>t \<in> set ?next. length t = 32" by (rule merkle_level_lengths) (rule h32)
    ultimately obtain brs where brs: "branchLoop sha (None # map (Some \<circ> display_hash) ?next) = Inr brs"
      "computeMerkleRoot sha ?cb brs = Inr (merkle_root (doubleSha256 sha) (?cb # ?next))"
      using "1.IH" [rule_format, of ?next ?cb] h32 [of "cb @ t"] by auto
    have "branchLoop sha (None # map (Some \<circ> display_hash) ts) = Inr (display_hash t # brs)"
      using brs(1) "1.prems"(2) Cons pairLevel_display [of rest sha]
      by (subst branchLoop.simps) (simp add: comp_def)
    moreover have "computeMerkleRoot sha cb (display_hash t # brs) = Inr (merkle_root (doubleSha256 sha) (cb # ts))"
      using brs(2) "1.prems" Cons by (subst merkle_root.simps) (simp add: computeMerkleRoot_hex del: computeMerkleRoot.simps)
    ultimately show ?thesis by blast
  qed
qed

lemma branches_give_root:
  assumes "\<And>b. length (sha b) = 32" "length cb = 32" "\<forall>t \<in> set ts. length t = 32"
  obtains brs where "computeMerkleBranches sha (map display_hash ts) = Inr brs"
    "computeMerkleRoot sha cb brs = Inr (merkle_root (doubleSha256 sha) (cb # ts))"
proof -
  from branchLoop_root [of sha cb ts, OF assms] obtain brs where
    brs: "branchLoop sha (None # map (Some \<circ> display_hash) ts) = Inr brs"
      "computeMerkleRoot sha cb brs = Inr (merkle_root (doubleSha256 sha) (cb # ts))" by blast
  moreover have "computeMerkleBranches sha (map display_hash ts) = Inr brs"
    using brs(1) by (cases ts) (auto simp: computeMerkleBranches_def branchLoop.simps comp_def)
  ultimately show thesis using that by blast
qed

section \<open>Height pushes\<close>

text \<open>
  What the node expects at the start of the coinbase script: \<^verbatim>\<open>CScript() << nHeight\<close>
  (\<^verbatim>\<open>src/script/script.h\<close>, used by \<^verbatim>\<open>ContextualCheckBlock\<close>).
\<close>

function abs_digits :: "64 word \<Rightarrow> bytes" where
  "abs_digits absvalue = (if absvalue \<noteq> 0 then ucast (absvalue AND 0xff) # abs_digits (drop_bit 8 absvalue) else [])"
  by pat_completeness auto
termination
proof (relation "measure unat", simp)
  fix w :: "64 word" assume "w \<noteq> 0"
  then have "0 < unat w" by (simp add: unat_gt_0)
  then show "(drop_bit 8 w, w) \<in> measure unat" by (simp add: unat_drop_bit_eq drop_bit_eq_div unat_div)
qed

declare abs_digits.simps [simp del]

definition scriptnum_serialize :: "int \<Rightarrow> bytes" where
  "scriptnum_serialize value =
     (if value = 0 then []
      else let neg = value < 0;
               absvalue = (if neg then NOT (word_of_int value) + 1 else word_of_int value);
               result = abs_digits absvalue
           in if last result AND 0x80 \<noteq> 0 then result @ [if neg then 0x80 else 0]
              else if neg then result[length result - 1 := last result OR 0x80] else result)"

definition appendDataSize :: "nat \<Rightarrow> bytes" where
  "appendDataSize n =
     (if n < 0x4c then [word_of_nat n]
      else if n \<le> 0xff then [0x4c, word_of_nat n]
      else if n \<le> 0xffff then 0x4d # le_bytes 2 (int n)
      else 0x4e # le_bytes 4 (int n))"

definition push_int64 :: "int \<Rightarrow> bytes" where
  "push_int64 n =
     (if n = - 1 \<or> (1 \<le> n \<and> n \<le> 16) then [word_of_int (n + (0x51 - 1))]
      else if n = 0 then [0x00]
      else appendDataSize (length (scriptnum_serialize n)) @ scriptnum_serialize n)"

lemma js_and_ff: "(word_of_int (js_and a 0xff) :: byte) = word_of_int a"
  by (rule js_and_byte)

lemma ucast_and_ff: "(ucast ((word_of_int a :: 64 word) AND 0xff) :: byte) = word_of_int a"
proof -
  have m: "(0xff :: 64 word) = mask 8" by (simp add: mask_eq_exp_minus_1)
  show ?thesis unfolding m
    by (rule bit_eqI) (auto simp only: bit_and_iff bit_mask_iff bit_ucast_iff bit_word_of_int_iff, simp_all)
qed

lemma num_bytes_digits: "0 \<le> a \<Longrightarrow> a < 2 ^ 32 \<Longrightarrow> map word_of_int (num_bytes a) = abs_digits (word_of_int a)"
proof (induction a rule: num_bytes.induct)
  case (1 a)
  show ?case
  proof (cases "a = 0")
    case False
    have sh: "js_ushr a 8 = a div 256" using js_ushr_div [of a 8] "1.prems" by simp
    have "(word_of_int a :: 64 word) \<noteq> 0"
      using False "1.prems" by (simp add: word_of_int_eq_0_iff zdvd_not_zless)
    moreover have "drop_bit 8 (word_of_int a :: 64 word) = word_of_int (a div 256)"
      using "1.prems" by (intro word_uint_eqI) (simp add: unsigned_drop_bit_eq drop_bit_eq_div uint_word_of_int take_bit_eq_mod uint_div)
    moreover have "map word_of_int (num_bytes (a div 256)) = abs_digits (word_of_int (a div 256))"
      using "1.IH" "1.prems" False by (simp add: sh)
    ultimately show ?thesis using False "1.prems"
      by (subst num_bytes.simps, subst abs_digits.simps) (simp add: sh js_and_ff ucast_and_ff)
  qed (simp add: num_bytes.simps abs_digits.simps)
qed

lemma length_num_bytes: "a < 256 ^ k \<Longrightarrow> a < 2 ^ 32 \<Longrightarrow> length (num_bytes a) \<le> k"
proof (induction k arbitrary: a)
  case (Suc k)
  show ?case
  proof (cases "a > 0")
    case True
    have "js_ushr a 8 = a div 256" using js_ushr_div [of a 8] Suc.prems True by simp
    moreover have "a div 256 < 256 ^ k" using Suc.prems(1) by (simp add: div_less_iff_less_mult mult.commute)
    moreover have "a div 256 < 2 ^ 32" using Suc.prems(2) True by linarith
    ultimately show ?thesis using Suc.IH [of "a div 256"] True by (subst num_bytes.simps) simp
  qed (simp add: num_bytes.simps)
qed (simp add: num_bytes.simps)

lemma num_top_bit: "js_and x 0x80 \<noteq> 0 \<longleftrightarrow> (word_of_int x :: byte) AND 0x80 \<noteq> 0"
proof -
  have "js_and x 0x80 = to_int32 x AND 2 ^ 7" by (simp add: js_and_def to_int32_def)
  then have "js_and x 0x80 \<noteq> 0 \<longleftrightarrow> bit x 7" by (simp only: and_exp_eq_0_iff_not_bit bit_to_int32) simp
  moreover have "(word_of_int x :: byte) AND 0x80 = word_of_int x AND 2 ^ 7" by simp
  then have "(word_of_int x :: byte) AND 0x80 \<noteq> 0 \<longleftrightarrow> bit x 7"
    by (simp only: and_exp_eq_0_iff_not_bit bit_word_of_int_iff) simp
  ultimately show ?thesis by simp
qed

lemma or_top_bit: "(word_of_int (js_or x 0x80) :: byte) = word_of_int x OR 0x80"
  by (rule bit_eqI) (auto simp: bit_word_of_int_iff js_or_def bit_simps bit_to_int32)

lemma num_bytes_nonempty: "0 < a \<Longrightarrow> num_bytes a \<noteq> []"
  by (subst num_bytes.simps) simp

lemma scriptNumPush_serialize:
  assumes "n \<noteq> 0" "\<bar>n\<bar> < 2 ^ 32"
  shows "scriptNumPush n = appendDataSize (length (scriptnum_serialize n)) @ scriptnum_serialize n"
proof -
  let ?ds = "num_bytes \<bar>n\<bar>"
  have ne: "?ds \<noteq> []" using assms(1) by (intro num_bytes_nonempty) simp
  have "(NOT (word_of_int n :: 64 word)) + 1 = word_of_int (- n)" by (simp add: minus_eq_not_plus_1 [symmetric])
  then have abs: "(if n < 0 then NOT (word_of_int n :: 64 word) + 1 else word_of_int n) = word_of_int \<bar>n\<bar>" by simp
  have ws: "abs_digits (word_of_int \<bar>n\<bar>) = map word_of_int ?ds" using num_bytes_digits [of "\<bar>n\<bar>"] assms by simp
  have last: "?ds ! (length ?ds - 1) = last ?ds" using ne by (simp add: last_conv_nth)
  have "length ?ds \<le> 4" using assms(2) by (intro length_num_bytes) simp_all
  then have short: "length (scriptnum_serialize n) < 0x4c"
    unfolding scriptnum_serialize_def Let_def abs ws by (auto simp: assms(1))
  have "scriptNumPush n = word_of_nat (length (scriptnum_serialize n)) # scriptnum_serialize n"
    unfolding scriptNumPush_def scriptnum_serialize_def Let_def abs ws last num_top_bit
    using assms(1) ne by (auto simp: last_map map_update or_top_bit)
  then show ?thesis using short by (simp add: appendDataSize_def)
qed

text \<open>
  C24: The height push of the pool's coinbase is the one the node demands, except for heights 1
  to 16: for every height below $2^{32}$ other than these the bytes agree with \<^verbatim>\<open>CScript() << nHeight\<close>, and
  for 1 to 16 they never do, since the node uses the one-byte opcodes there.
\<close>
theorem height_push_matches_node:
  assumes "0 \<le> n" "n < 2 ^ 32"
  shows "scriptNumPush n = push_int64 n \<longleftrightarrow> \<not> (1 \<le> n \<and> n \<le> 16)"
proof (cases "1 \<le> n \<and> n \<le> 16")
  case True
  then have "2 \<le> length (scriptNumPush n)"
    using num_bytes_nonempty [of n] by (auto simp: scriptNumPush_def Let_def Suc_le_eq)
  then show ?thesis using True by (auto simp: push_int64_def)
next
  case False
  with assms show ?thesis
    using scriptNumPush_serialize [of n] by (cases "n = 0") (auto simp: push_int64_def scriptNumPush_def)
qed

theorem height_push_matches_node_witness:
  "scriptNumPush 840000 = push_int64 840000 \<and> scriptNumPush 7 \<noteq> push_int64 7"
  using height_push_matches_node [of 840000] height_push_matches_node [of 7] by simp

section \<open>The coinbase transaction\<close>

text \<open>The serialisation of a coinbase transaction with one input and a list of outputs.\<close>

definition serialize_coinbase :: "bytes \<Rightarrow> (int \<times> bytes) list \<Rightarrow> bytes" where
  "serialize_coinbase scriptSig outs =
     uint32LE 1 @ varInt 1 @ (replicate 32 0 @ replicate 4 0xff) @ varInt (int (length scriptSig)) @ scriptSig @
     uint32LE 0xffffffff @ varInt (int (length outs)) @
     concat (map (\<lambda>(v, spk). le_bytes 8 v @ varInt (int (length spk)) @ spk) outs) @ uint32LE 0"

text \<open>The two halves before printing, and the outputs after the first.\<close>

definition coinb1_bytes :: "block_template \<Rightarrow> string \<Rightarrow> bytes" where
  "coinb1_bytes tpl tag = uint32LE 1 @ [1] @ (replicate 32 0 @ replicate 4 0xff) @
     varInt (int (length (scriptNumPush (tpl_height tpl)) + (8 + (1 + length tag)))) @ scriptNumPush (tpl_height tpl)"

definition coinb2_bytes :: "string \<Rightarrow> (int \<times> bytes) list \<Rightarrow> bytes" where
  "coinb2_bytes tag outs = (word_of_nat (length tag) # ascii_bytes tag) @ uint32LE 0xffffffff @
     [word_of_nat (length outs)] @ concat (map (\<lambda>(v, spk). le_bytes 8 v @ varInt (int (length spk)) @ spk) outs) @
     uint32LE 0"

definition wc_outputs :: "block_template \<Rightarrow> (int \<times> bytes) list \<Rightarrow> bool" where
  "wc_outputs tpl outs \<longleftrightarrow> (case tpl_default_witness_commitment tpl of
     None \<Rightarrow> outs = []
   | Some wc \<Rightarrow> if wc = [] then outs = [] else \<exists>b. hexToBytes wc = Inr b \<and> outs = [(0, b)])"

lemma wc_outputs_count: "wc_outputs tpl outs \<Longrightarrow> length outs \<le> 1"
  by (auto simp: wc_outputs_def split: option.splits if_splits)

lemma varInt_small: "n < 0xfd \<Longrightarrow> varInt n = [word_of_int n]"
  by (simp add: varInt_def)

lemma le_bytes_8_0: "le_bytes 8 0 = replicate 8 (0 :: byte)"
  by (simp add: numeral_eq_Suc)

lemma buildCoinbase_eq:
  assumes "buildCoinbase tpl addr tag = Inr (c1, c2)"
  obtains spk outs where "addressToScriptPubKey addr = Some spk" "wc_outputs tpl outs"
    "c1 = bytesToHex (coinb1_bytes tpl tag)" "c2 = bytesToHex (coinb2_bytes tag ((tpl_coinbasevalue tpl, spk) # outs))"
  using assms
  by (auto simp: buildCoinbase_def Let_def throw_if_eq_Inr andthen_eq_Inr concatBytes_def coinb1_bytes_def
      coinb2_bytes_def wc_outputs_def ascii_bytes_def le_bytes_8_0 simp del: bytesToHex_Cons bytesToHex_append
      split: option.splits if_splits)

text \<open>
  C17: Whatever 8 extranonce bytes are put between the two halves of the coinbase, the result
  is a well-formed coinbase transaction: its script is the height push, the extranonce and the
  pool tag and has the announced length, its first output pays the whole coinbase value to the
  payout address, and the second carries the template's witness commitment, if there is one.
\<close>
theorem coinbase_well_formed:
  assumes "buildCoinbase tpl addr tag = Inr (c1, c2)" and "length en = 8"
  shows "\<exists>b1 b2 spk outs. hexToBytes c1 = Inr b1 \<and> hexToBytes c2 = Inr b2 \<and> addressToScriptPubKey addr = Some spk \<and>
    b1 @ en @ b2 = serialize_coinbase
      (scriptNumPush (tpl_height tpl) @ en @ word_of_nat (length tag) # ascii_bytes tag)
      ((tpl_coinbasevalue tpl, spk) # outs) \<and>
    (case tpl_default_witness_commitment tpl of
       None \<Rightarrow> outs = []
     | Some wc \<Rightarrow> if wc = [] then outs = [] else \<exists>b. hexToBytes wc = Inr b \<and> outs = [(0, b)])"
proof -
  obtain spk outs where o: "addressToScriptPubKey addr = Some spk" "wc_outputs tpl outs"
    "c1 = bytesToHex (coinb1_bytes tpl tag)" "c2 = bytesToHex (coinb2_bytes tag ((tpl_coinbasevalue tpl, spk) # outs))"
    using assms(1) by (rule buildCoinbase_eq)
  have "coinb1_bytes tpl tag @ en @ coinb2_bytes tag ((tpl_coinbasevalue tpl, spk) # outs) =
    serialize_coinbase (scriptNumPush (tpl_height tpl) @ en @ word_of_nat (length tag) # ascii_bytes tag)
      ((tpl_coinbasevalue tpl, spk) # outs)"
    using assms(2) wc_outputs_count [OF o(2)]
    by (simp add: serialize_coinbase_def coinb1_bytes_def coinb2_bytes_def ascii_bytes_def varInt_small)
  with o show ?thesis unfolding wc_outputs_def by (intro exI conjI) (assumption | simp)+
qed

section \<open>Blocks\<close>

definition tx_id :: "template_tx \<Rightarrow> string" where
  "tx_id tx = (case tx_txid tx of Some t \<Rightarrow> t | None \<Rightarrow> tx_hash tx)"

lemma buildJob_eq:
  assumes "buildJob sha addr tpl clean ctr = Inr (job, ctr')"
  obtains brs where "buildCoinbase tpl addr pool_tag = Inr (jc_coinb1Hex job, jc_coinb2Hex job)"
    "computeMerkleBranches sha (map tx_id (tpl_transactions tpl)) = Inr (jc_merkleBranchesHexBE job)"
    "jc_txnsHex job = map tx_data (tpl_transactions tpl)" "jc_prevHashHexBE job = tpl_previousblockhash tpl"
    "jc_networkTargetHexBE job = tpl_target tpl" "sj_cleanJobs job = clean" "sj_ntimeRoll job = tpl_curtime tpl"
    "jc_version job = tpl_version tpl"
    "ctr' = (ctr + 1) mod 0xfffffff" "jc_jobId job = pad_start 7 (CHR ''0'') (hex_of_int ctr')"
  using assms by (auto simp: buildJob_def andthen_eq_Inr Let_def tx_id_def [abs_def])

text \<open>
  C1: A share that is reported as a block yields a block that is consistent with its template:
  for a job built from a template and any cache state, the serialised block is the header, the
  transaction count, the coinbase and the template's transactions in order; the header's
  Merkle root is the root of the tree over the coinbase's id and the template's transaction
  ids; its parent is the template's; and its proof of work meets the template's target.
\<close>
theorem block_commits_to_template:
  assumes "\<And>b. length (sha b) = 32"
    and "buildJob sha addr tpl clean ctr = Inr (job, ctr')" and "si_job s = job_context.truncate job"
    and "map tx_id (tpl_transactions tpl) = map display_hash ts" and "\<forall>t \<in> set ts. length t = 32"
    and "pads_ok b3 c" and "fst (validateShare b3 sha now s c) = Inr (CheckOk r)" and "so_isBlock r"
  shows "\<exists>coinbase txns prev target. mapR hexToBytes (map tx_data (tpl_transactions tpl)) = Inr txns \<and>
    so_serializedBlockHex r = Some (bytesToHex (so_serializedHeader r @ varInt (int (length txns) + 1) @ coinbase @ concat txns)) \<and>
    slice (so_serializedHeader r) 36 68 = merkle_root (doubleSha256 sha) (doubleSha256 sha coinbase # ts) \<and>
    hexToBytes (tpl_previousblockhash tpl) = Inr prev \<and> slice (so_serializedHeader r) 4 36 = rev prev \<and>
    hexToBytes (tpl_target tpl) = Inr target \<and> so_powInt r \<le> le_value (rev target)"
proof -
  have v: "share_verdict b3 sha s = Inr (CheckOk r)" using validateShare_verdict(1) [OF assms(6)] assms(7) by metis
  from assms(2) have job: "computeMerkleBranches sha (map display_hash ts) = Inr (jc_merkleBranchesHexBE (si_job s))"
    "jc_txnsHex (si_job s) = map tx_data (tpl_transactions tpl)" "jc_prevHashHexBE (si_job s) = tpl_previousblockhash tpl"
    "jc_networkTargetHexBE (si_job s) = tpl_target tpl"
    by (rule buildJob_eq, simp add: assms(3,4) job_context.defs)+
  obtain b t txns where b: "buildHeader sha s = Inr b" "hexToBytes (tpl_target tpl) = Inr t"
    "so_serializedHeader r = bh_header b" "so_powInt r \<le> le_value (rev t)"
    "mapR hexToBytes (map tx_data (tpl_transactions tpl)) = Inr txns"
    "so_serializedBlockHex r = Some (serializeBlockHex (bh_header b) (bh_coinbase b # txns))"
    using v by (rule share_verdict_ok) (use assms(8) in \<open>auto simp: job\<close>)
  have dh: "length (doubleSha256 sha x) = 32" for x using assms(1) by (simp add: doubleSha256_def)
  obtain prev where p: "hexToBytes (tpl_previousblockhash tpl) = Inr prev" "length prev = 32"
    "computeMerkleRoot sha (doubleSha256 sha (bh_coinbase b)) (jc_merkleBranchesHexBE (si_job s)) = Inr (bh_merkleRootLE b)"
    "length (bh_merkleRootLE b) = 32"
    "bh_header b = uint32LE (jc_version (si_job s)) @ rev prev @ bh_merkleRootLE b @
       uint32LE (si_ntime s) @ uint32LE (jc_bits (si_job s)) @ uint32LE (si_nonce s)"
    using b(1) by (rule buildHeader_eq) (simp add: job)
  have root: "bh_merkleRootLE b = merkle_root (doubleSha256 sha) (doubleSha256 sha (bh_coinbase b) # ts)"
    using branches_give_root [of sha "doubleSha256 sha (bh_coinbase b)" ts] assms(1,5) dh p(3) job(1) by force
  have "slice (bh_header b) 36 68 = bh_merkleRootLE b" "slice (bh_header b) 4 36 = rev prev"
    using p(2,4) by (simp_all add: p(5) slice_def)
  then show ?thesis using b p(1) root
    by (intro exI [of _ "bh_coinbase b"] exI [of _ txns] exI [of _ prev] exI [of _ t])
       (simp add: serializeBlockHex_def concatBytes_def add.commute)
qed

text \<open>A concrete template, with constant hash functions, on which the properties are evaluated.\<close>

definition sample_template :: block_template where
  "sample_template = \<lparr>tpl_version = 0x20000000, tpl_previousblockhash = bytesToHex (replicate 32 7), tpl_transactions = [],
     tpl_coinbasevalue = 5000000000, tpl_target = bytesToHex (replicate 32 0xff), tpl_mintime = 1, tpl_curtime = 2,
     tpl_bits = ''1d3fffff'', tpl_height = 17, tpl_default_witness_commitment = None\<rparr>"

definition sample_address :: string where "sample_address = ''tb31pqypqaa88d8''"

abbreviation sample_sha :: "bytes \<Rightarrow> bytes" where "sample_sha \<equiv> \<lambda>_. replicate 32 0"
abbreviation sample_b3 :: "bytes \<Rightarrow> nat \<Rightarrow> bytes" where "sample_b3 \<equiv> \<lambda>_ n. replicate n 0"

lemma sample_coinbase: "\<exists>c1 c2. buildCoinbase sample_template sample_address pool_tag = Inr (c1, c2)"
proof -
  obtain spk where "addressToScriptPubKey sample_address = Some spk"
  proof -
    have "addressToScriptPubKey sample_address \<noteq> None" unfolding sample_address_def by code_simp
    then show thesis using that by auto
  qed
  moreover have "scriptNumPush 17 = [1, 17]" by code_simp
  ultimately show ?thesis
    by (simp add: buildCoinbase_def Let_def sample_template_def pool_tag_def ascii_bytes_def concatBytes_def)
qed

theorem coinbase_well_formed_witness:
  "\<exists>c1 c2 b1 b2 spk. buildCoinbase sample_template sample_address pool_tag = Inr (c1, c2) \<and>
     hexToBytes c1 = Inr b1 \<and> hexToBytes c2 = Inr b2 \<and> addressToScriptPubKey sample_address = Some spk \<and>
     b1 @ replicate 8 9 @ b2 = serialize_coinbase
       (scriptNumPush 17 @ replicate 8 9 @ 14 # ascii_bytes ''/B3Chain Pool/'') [(5000000000, spk)]"
proof -
  obtain c1 c2 where c: "buildCoinbase sample_template sample_address pool_tag = Inr (c1, c2)"
    using sample_coinbase by blast
  from coinbase_well_formed [OF this, of "replicate 8 9"] have
    "\<exists>b1 b2 spk. hexToBytes c1 = Inr b1 \<and> hexToBytes c2 = Inr b2 \<and> addressToScriptPubKey sample_address = Some spk \<and>
       b1 @ replicate 8 9 @ b2 = serialize_coinbase
         (scriptNumPush 17 @ replicate 8 9 @ 14 # ascii_bytes ''/B3Chain Pool/'') [(5000000000, spk)]"
    by (simp add: sample_template_def pool_tag_def)
  with c show ?thesis by blast
qed

lemma b3powScratch_hash: "b3powScratch b3 h p pad = Inr (r, q) \<Longrightarrow> \<exists>t. powHash r = blake3Hash b3 t"
  by (auto simp: b3powScratch_def andthen_eq_Inr throw_if_eq_Inr Let_def)

lemma sample_block:
  assumes "buildJob sample_sha sample_address sample_template True 0 = Inr (job, ctr)"
  defines "s \<equiv> \<lparr>si_job = job_context.truncate job, si_extranonce1Hex = ''00000001'', si_extranonce2Hex = ''00000002'',
    si_ntime = 2, si_nonce = 3, si_shareDifficulty = Fin 1\<rparr>"
  shows "\<exists>r. share_verdict sample_b3 sample_sha s = Inr (CheckOk r) \<and> so_isBlock r"
proof -
  obtain c1 c2 where c: "jc_coinb1Hex job = bytesToHex c1" "jc_coinb2Hex job = bytesToHex c2"
    and j: "jc_merkleBranchesHexBE job = []" "jc_txnsHex job = []" "jc_prevHashHexBE job = bytesToHex (replicate 32 7)"
      "jc_networkTargetHexBE job = bytesToHex (replicate 32 0xff)"
    using assms(1)
    by (elim buildJob_eq buildCoinbase_eq) (simp add: sample_template_def computeMerkleBranches_def)
  have hex: "hexToBytes ''00000001'' = Inr [0, 0, 0, 1]" "hexToBytes ''00000002'' = Inr [0, 0, 0, 2]" by code_simp+
  obtain b where b: "buildHeader sample_sha s = Inr b"
    using hex c j by (auto simp: buildHeader_def s_def job_context.defs Let_def serializeHeader_eq coinbaseTxId_def doubleSha256_def)
  have "length (bh_header b) = 80 \<and> length (bh_prevHashLE b) = 32" using b by (rule buildHeader_lengths)
  then obtain r q where r: "b3powScratch sample_b3 (bh_header b) (bh_prevHashLE b) None = Inr (r, q)"
    using b3powScratch_exists [of sample_b3 "bh_header b" "bh_prevHashLE b" None] by auto
  then have "powHash r = replicate 32 0" using b3powScratch_hash [OF r] by (auto simp: blake3Hash_def)
  then have pow: "share_pow sample_b3 b = Inr (replicate 32 0)" by (simp add: share_pow_def r)
  have z: "le_value (replicate n 0) = 0" for n by (induction n) simp_all
  obtain t where "targetFromShareDifficulty (Fin 1) = Inr t" using targetFromShareDifficulty_int [of 1] by simp
  then have "targetFromShareDifficulty (si_shareDifficulty s) = Inr t" "hexToBytes (jc_networkTargetHexBE (si_job s)) = Inr (replicate 32 0xff)"
    "jc_txnsHex (si_job s) = []"
    by (simp_all add: s_def j job_context.defs)
  moreover have "0 \<le> max t (le_value (replicate 32 0xff))" by (simp add: le_max_iff_disj)
  ultimately show ?thesis using b pow z by (simp add: share_verdict_def not_less)
qed

theorem block_commits_to_template_witness:
  "\<exists>job ctr c r coinbase. buildJob sample_sha sample_address sample_template True 0 = Inr (job, ctr) \<and>
     newPadCache 8 = Inr c \<and>
     fst (validateShare sample_b3 sample_sha 0 \<lparr>si_job = job_context.truncate job, si_extranonce1Hex = ''00000001'',
       si_extranonce2Hex = ''00000002'', si_ntime = 2, si_nonce = 3, si_shareDifficulty = Fin 1\<rparr> c) = Inr (CheckOk r) \<and>
     so_serializedBlockHex r = Some (bytesToHex (so_serializedHeader r @ varInt 1 @ coinbase))"
proof -
  obtain job ctr where job: "buildJob sample_sha sample_address sample_template True 0 = Inr (job, ctr)"
    using sample_coinbase by (auto simp: buildJob_def Let_def computeMerkleBranches_def sample_template_def)
  let ?s = "\<lparr>si_job = job_context.truncate job, si_extranonce1Hex = ''00000001'', si_extranonce2Hex = ''00000002'',
    si_ntime = 2, si_nonce = 3, si_shareDifficulty = Fin 1\<rparr>"
  obtain c where c: "newPadCache 8 = Inr c" by (simp add: newPadCache_def)
  then have ok: "pads_ok sample_b3 c" using newPadCache_ok by blast
  obtain r where r: "fst (validateShare sample_b3 sample_sha 0 ?s c) = Inr (CheckOk r)" "so_isBlock r"
    using sample_block [OF job] validateShare_verdict(1) [OF ok, of sample_sha 0 ?s] by auto
  have "\<exists>coinbase. so_serializedBlockHex r = Some (bytesToHex (so_serializedHeader r @ varInt 1 @ coinbase))"
    using block_commits_to_template [OF _ job _ _ _ ok r, of "[]"] by (auto simp: sample_template_def)
  with job c r(1) show ?thesis by blast
qed

section \<open>The polling loop\<close>

text \<open>
  States reachable by polls that did not throw, with templates whose parent hash contains no
  separator (it is hexadecimal).
\<close>

definition template_sane :: "block_template res \<Rightarrow> bool" where
  "template_sane r \<longleftrightarrow> (case r of Inl _ \<Rightarrow> True | Inr tpl \<Rightarrow> CHR ''|'' \<notin> set (tpl_previousblockhash tpl))"

inductive jm_reachable :: "(bytes \<Rightarrow> bytes) \<Rightarrow> string \<Rightarrow> job_manager \<Rightarrow> bool" for sha addr where
  init: "jm_reachable sha addr newJobManager"
| poll: "jm_reachable sha addr s \<Longrightarrow> template_sane r \<Longrightarrow> poll sha addr r s = (s', evs, None) \<Longrightarrow> jm_reachable sha addr s'"

inductive_cases jm_reachableE: "jm_reachable sha addr s"

definition jm_inv :: "job_manager \<Rightarrow> bool" where
  "jm_inv s \<longleftrightarrow> jsmap_wf (jm_jobsById s) \<and> length (jm_jobsById s) \<le> maxJobs \<and>
     (\<forall>(i, r) \<in> set (jm_jobsById s). r < length (jm_objects s) \<and> jc_jobId (jm_objects s ! r) = i) \<and>
     (case jm_currentJob s of
        None \<Rightarrow> jm_objects s = []
      | Some r \<Rightarrow> r < length (jm_objects s) \<and>
          jsmap_get (jm_jobsById s) (jc_jobId (jm_objects s ! r)) = Some r \<and>
          jc_prevHashHexBE (jm_objects s ! r) = jm_lastPrev s \<and>
          takeWhile (\<lambda>c. c \<noteq> CHR ''|'') (jm_lastTemplateHash s) = jm_lastPrev s)"

lemma takeWhile_separator: "c \<notin> set xs \<Longrightarrow> takeWhile (\<lambda>d. d \<noteq> c) (xs @ c # ys) = xs"
  by (induction xs) auto

lemma signature_prev:
  "CHR ''|'' \<notin> set (tpl_previousblockhash tpl) \<Longrightarrow>
   takeWhile (\<lambda>c. c \<noteq> CHR ''|'') (workSignature tpl @ rest) = tpl_previousblockhash tpl"
  by (simp add: workSignature_def takeWhile_separator)

lemma jm_inv_init: "jm_inv newJobManager"
  by (simp add: jm_inv_def newJobManager_def)

text \<open>Adding a job and trimming the oldest keeps the new job and the bound.\<close>

definition trim_jobs :: "(string, nat) jsmap \<Rightarrow> (string, nat) jsmap" where
  "trim_jobs m = (if length m > maxJobs then jsmap_delete (hd (jsmap_keys m)) m else m)"

lemma trim_jobs_ok:
  fixes i :: string and r :: nat
  assumes wf: "jsmap_wf m" and len: "length m \<le> maxJobs"
  defines "m' \<equiv> trim_jobs (jsmap_set i r m)"
  shows "jsmap_wf m' \<and> length m' \<le> maxJobs \<and> jsmap_get m' i = Some r \<and> set m' \<subseteq> insert (i, r) (set m)"
proof (cases "length (jsmap_set i r m) > maxJobs")
  case True
  then have none: "jsmap_get m i = None" using len by (auto simp: jsmap_set_length split: if_splits)
  then have set: "jsmap_set i r m = m @ [(i, r)]" by (rule jsmap_set_fresh)
  then obtain k v m2 where m: "m = (k, v) # m2" using True by (cases m) (auto simp: maxJobs_def)
  have wf': "jsmap_wf ((k, v) # m2 @ [(i, r)])" using jsmap_wf_set [OF wf, of i r] set m by simp
  then have m': "m' = m2 @ [(i, r)]"
    using True set m unfolding m'_def trim_jobs_def jsmap_keys_def by (simp del: delete_simps)
  have "jsmap_get m2 i = None" using none m by (auto split: if_splits)
  then show ?thesis using wf' m' m len by (auto simp: jsmap_wf_def map_add_def)
next
  case False
  then have "m' = jsmap_set i r m" by (simp add: m'_def trim_jobs_def)
  moreover have "set (jsmap_set i r m) \<subseteq> insert (i, r) (set m)" by (induction m) auto
  ultimately show ?thesis using wf False by (simp add: jsmap_get_set)
qed

lemma jm_inv_build:
  assumes inv: "jm_inv s" and sane: "CHR ''|'' \<notin> set (tpl_previousblockhash tpl)"
    and p: "pollBuild sha addr tpl (workSignature tpl) (workSignature tpl @ ''|'' @ dec_of_int (tpl_curtime tpl)) clean s = (s', evs, None)"
  shows "jm_inv s' \<and> jm_lastPrev s' = tpl_previousblockhash tpl \<and> jm_currentJob s' \<noteq> None"
proof -
  obtain job ctr where job: "buildJob sha addr tpl clean (jm_jobCounter s) = Inr (job, ctr)"
    using p by (auto simp: pollBuild_def Let_def split: sum.splits)
  let ?ref = "length (jm_objects s)" and ?m = "trim_jobs (jsmap_set (jc_jobId job) (length (jm_objects s)) (jm_jobsById s))"
  have s': "jm_jobsById s' = ?m" "jm_objects s' = jm_objects s @ [job]" "jm_currentJob s' = Some ?ref"
    "jm_lastPrev s' = tpl_previousblockhash tpl"
    "jm_lastTemplateHash s' = workSignature tpl @ ''|'' @ dec_of_int (tpl_curtime tpl)"
    using p job by (auto simp: pollBuild_def Let_def trim_jobs_def)
  have m: "jsmap_wf ?m \<and> length ?m \<le> maxJobs \<and> jsmap_get ?m (jc_jobId job) = Some ?ref \<and>
      set ?m \<subseteq> insert (jc_jobId job, ?ref) (set (jm_jobsById s))"
    using inv by (intro trim_jobs_ok) (simp_all add: jm_inv_def)
  have "\<forall>(i, r) \<in> set ?m. r < length (jm_objects s @ [job]) \<and> jc_jobId ((jm_objects s @ [job]) ! r) = i"
    using m inv by (fastforce simp: jm_inv_def nth_append)
  moreover have "jc_prevHashHexBE job = tpl_previousblockhash tpl" using job by (rule buildJob_eq)
  ultimately show ?thesis using m s' signature_prev [OF sane] by (simp add: jm_inv_def)
qed

lemma jm_inv_poll:
  assumes inv: "jm_inv s" and sane: "template_sane r" and p: "poll sha addr r s = (s', evs, None)"
  shows "jm_inv s' \<and> (\<forall>tpl. r = Inr tpl \<longrightarrow> jm_lastPrev s' = tpl_previousblockhash tpl \<and> jm_currentJob s' \<noteq> None)"
proof (cases r)
  case (Inl e)
  then show ?thesis using assms by (auto simp: poll_def)
next
  case (Inr tpl)
  let ?ts = "workSignature tpl @ ''|'' @ dec_of_int (tpl_curtime tpl)"
  have tpl: "CHR ''|'' \<notin> set (tpl_previousblockhash tpl)" using sane Inr by (simp add: template_sane_def)
  show ?thesis
  proof (cases "jm_currentJob s")
    case None
    then show ?thesis using jm_inv_build [OF inv tpl] p Inr by (auto simp: poll_def Let_def)
  next
    case (Some cur)
    consider "?ts = jm_lastTemplateHash s" | "?ts \<noteq> jm_lastTemplateHash s"
        "\<not> cleanJobsFor (jm_lastPrev s) (tpl_previousblockhash tpl)" "workSignature tpl = jm_lastWorkSig s"
      | "pollBuild sha addr tpl (workSignature tpl) ?ts (cleanJobsFor (jm_lastPrev s) (tpl_previousblockhash tpl)) s = (s', evs, None)"
      using p Inr Some by (auto simp: poll_def Let_def split: if_splits)
    then show ?thesis
    proof cases
      case 1
      then have "s' = s" using p Inr Some by (auto simp: poll_def Let_def)
      moreover have "jm_lastPrev s = tpl_previousblockhash tpl"
        using inv Some 1 signature_prev [OF tpl, of "''|'' @ dec_of_int (tpl_curtime tpl)"] by (simp add: jm_inv_def)
      ultimately show ?thesis using inv Inr Some by simp
    next
      case 2
      let ?job = "(jm_objects s ! cur)\<lparr>sj_ntimeRoll := tpl_curtime tpl, sj_cleanJobs := False\<rparr>"
      have s': "s' = s\<lparr>jm_objects := (jm_objects s)[cur := ?job], jm_lastTemplateHash := ?ts\<rparr>"
        using p Inr Some 2 by (auto simp: poll_def Let_def)
      have prev: "jm_lastPrev s = tpl_previousblockhash tpl" using 2 by (simp add: cleanJobsFor_def)
      have same: "k < length (jm_objects s) \<Longrightarrow> jc_jobId ((jm_objects s)[cur := ?job] ! k) = jc_jobId (jm_objects s ! k)" for k
        by (cases "k = cur") simp_all
      show ?thesis using inv Some Inr prev same signature_prev [OF tpl, of "''|'' @ dec_of_int (tpl_curtime tpl)"]
        by (auto simp: s' jm_inv_def split: prod.splits)
    next
      case 3
      then show ?thesis using jm_inv_build [OF inv tpl] Inr by blast
    qed
  qed
qed

lemma jm_reachable_inv: "jm_reachable sha addr s \<Longrightarrow> jm_inv s"
  by (induction rule: jm_reachable.induct) (use jm_inv_init jm_inv_poll in blast)+

text \<open>
  C25: In every state the polling loop reaches without an exception, at most 32 jobs are kept,
  the current job can be looked up by its id, and every lookup returns a job of that id; and
  after a poll that got a template, the current job is built on that template's parent block.
\<close>
theorem polling_invariant:
  assumes "jm_reachable sha addr s" and "template_sane (Inr tpl)" and "poll sha addr (Inr tpl) s = (s', evs, None)"
  shows "length (jm_jobsById s') \<le> maxJobs \<and>
    (\<exists>job. getCurrent s' = Some job \<and> getById s' (jc_jobId job) = Some job \<and>
       jc_prevHashHexBE job = tpl_previousblockhash tpl) \<and>
    (\<forall>i job. getById s' i = Some job \<longrightarrow> jc_jobId job = i)"
proof -
  have inv: "jm_inv s'" "jm_lastPrev s' = tpl_previousblockhash tpl" "jm_currentJob s' \<noteq> None"
    using jm_inv_poll [OF jm_reachable_inv [OF assms(1)] assms(2,3)] by auto
  then obtain r where r: "jm_currentJob s' = Some r" by auto
  have "jc_jobId job = i" if "getById s' i = Some job" for i job
    using that inv(1) by (auto simp: getById_def jm_inv_def dest!: jsmap_get_Some_mem)
  moreover have "getCurrent s' = Some (jm_objects s' ! r)" "getById s' (jc_jobId (jm_objects s' ! r)) = Some (jm_objects s' ! r)"
    "jc_prevHashHexBE (jm_objects s' ! r) = tpl_previousblockhash tpl"
    using inv r by (simp_all add: getCurrent_def getById_def jm_inv_def)
  moreover have "length (jm_jobsById s') \<le> maxJobs" using inv(1) by (simp add: jm_inv_def)
  ultimately show ?thesis by blast
qed

lemma hex_digit_no_bar: "d < 16 \<Longrightarrow> hex_digit d \<noteq> CHR ''|''"
proof
  assume d: "d < 16" and "hex_digit d = CHR ''|''"
  then have "(if d < 10 then 48 + d else 87 + d) = code (CHR ''|'')" by (metis code_hex_digit)
  moreover have "code (CHR ''|'') = 124" by (simp add: code_def)
  ultimately show False using d by (simp split: if_splits)
qed

lemma bytesToHex_no_bar: "CHR ''|'' \<notin> set (bytesToHex b)"
proof (induction b)
  case (Cons x b)
  have "unat x div 16 < 16" using unat_byte_less [of x] by simp
  then show ?case using Cons hex_digit_no_bar [of "unat x div 16"] hex_digit_no_bar [of "unat x mod 16"] by auto
qed simp

theorem polling_invariant_witness:
  "\<exists>s' evs job. poll sample_sha sample_address (Inr sample_template) newJobManager = (s', evs, None) \<and>
     getCurrent s' = Some job \<and> getById s' (jc_jobId job) = Some job \<and>
     jc_prevHashHexBE job = bytesToHex (replicate 32 7)"
proof -
  obtain job ctr where "buildJob sample_sha sample_address sample_template True 0 = Inr (job, ctr)"
    using sample_coinbase by (auto simp: buildJob_def Let_def computeMerkleBranches_def sample_template_def)
  moreover have sane: "template_sane (Inr sample_template)"
    by (simp add: template_sane_def sample_template_def bytesToHex_no_bar)
  moreover have "length (tpl_previousblockhash sample_template) = 64" by (simp add: sample_template_def)
  then have "cleanJobsFor [] (tpl_previousblockhash sample_template)" by (auto simp: cleanJobsFor_def)
  ultimately obtain s' evs where p: "poll sample_sha sample_address (Inr sample_template) newJobManager = (s', evs, None)"
    by (simp add: poll_def newJobManager_def pollBuild_def Let_def)
  have "tpl_previousblockhash sample_template = bytesToHex (replicate 32 7)" by (simp add: sample_template_def)
  with polling_invariant [OF jm_reachable.init sane p] p show ?thesis by metis
qed

end
