(* ===== verification/Vardiff.thy ===== *)
theory Vardiff
  imports Js_Number
begin

text \<open>
  Per-connection variable difficulty (\<^verbatim>\<open>stratum/difficulty.ts\<close>). Difficulties and parameters are
  doubles, the clock is in integer milliseconds and is an argument of the operations.
  \<open>vd_ok\<close> is the invariant: the difficulty is a double inside \<^verbatim>\<open>[minDiff, maxDiff]\<close>.
\<close>

section \<open>Definitions\<close>

record vardiff_params =
  targetSeconds :: jsnum
  retuneSeconds :: jsnum
  minDiff :: jsnum
  maxDiff :: jsnum
  initialDiff :: jsnum
  maxStep :: jsnum

record vardiff =
  vd_params :: vardiff_params
  currentDiff :: jsnum
  windowStart :: int
  sharesInWindow :: nat

text \<open>The parameters of a connection under the default configuration.\<close>

definition default_params :: vardiff_params where
  "default_params = \<lparr> targetSeconds = Fin 600, retuneSeconds = Fin 30,
     minDiff = to_num (1 / 1000000), maxDiff = Fin 16000000, initialDiff = Fin 1024, maxStep = Fin 4 \<rparr>"

definition newVardiff :: "vardiff_params \<Rightarrow> int \<Rightarrow> vardiff" where
  "newVardiff params startTime =
     \<lparr> vd_params = params, currentDiff = initialDiff params, windowStart = startTime, sharesInWindow = 0 \<rparr>"

definition onShareAccepted :: "vardiff \<Rightarrow> vardiff" where
  "onShareAccepted v = v\<lparr> sharesInWindow := sharesInWindow v + 1 \<rparr>"

definition window_elapsed :: "vardiff \<Rightarrow> int \<Rightarrow> jsnum" where
  "window_elapsed v now = js_div (num_of_bigint (now - windowStart v)) (Fin 1000)"

text \<open>The multiplier of a retune: the ratio clamped to the step size.\<close>

definition retune_multiplier :: "vardiff_params \<Rightarrow> jsnum \<Rightarrow> nat \<Rightarrow> jsnum" where
  "retune_multiplier p elapsed shares =
     (let observedInterval = (if 0 < shares then js_div elapsed (num_of_bigint (int shares)) else elapsed);
          ratio = (if js_lt (Fin 0) (targetSeconds p)
                   then if js_lt (Fin 0) observedInterval
                        then js_div (targetSeconds p) observedInterval else Fin 1
                   else Fin 1);
          multiplier = ratio;
          multiplier = (if js_lt (maxStep p) multiplier then maxStep p else multiplier)
      in if js_lt multiplier (js_div (Fin 1) (maxStep p)) then js_div (Fin 1) (maxStep p) else multiplier)"

definition clamp_diff :: "vardiff_params \<Rightarrow> jsnum \<Rightarrow> jsnum" where
  "clamp_diff p n =
     (let n = (if js_lt n (minDiff p) then minDiff p else n)
      in if js_lt (maxDiff p) n then maxDiff p else n)"

definition maybeRetune :: "int \<Rightarrow> vardiff \<Rightarrow> jsnum option \<times> vardiff" where
  "maybeRetune now v =
     (let p = vd_params v; elapsed = window_elapsed v now in
      if js_lt elapsed (retuneSeconds p) then (None, v)
      else let v = (if sharesInWindow v = 0 then v\<lparr> windowStart := now \<rparr> else v) in
      if sharesInWindow v = 0 \<and> js_lt elapsed (targetSeconds p) then (None, v)
      else let multiplier = retune_multiplier p elapsed (sharesInWindow v);
               nxt = clamp_diff p (js_mul (currentDiff v) multiplier);
               v = v\<lparr> windowStart := now, sharesInWindow := 0 \<rparr>
           in if js_lt (js_div (js_abs (js_sub nxt (currentDiff v))) (currentDiff v)) (to_num (1 / 10))
              then (None, v)
              else (Some nxt, v\<lparr> currentDiff := nxt \<rparr>))"

definition setDiff :: "jsnum \<Rightarrow> int \<Rightarrow> vardiff \<Rightarrow> jsnum res \<times> vardiff" where
  "setDiff nxt now v =
     (if \<not> js_is_finite nxt \<or> js_le nxt (Fin 0)
      then (Inl (Error ''difficulty must be finite and > 0''), v)
      else if js_lt nxt (minDiff (vd_params v)) \<or> js_lt (maxDiff (vd_params v)) nxt
      then (Inl (Error ''difficulty outside [minDiff, maxDiff]''), v)
      else (Inr nxt, v\<lparr> currentDiff := nxt, windowStart := now, sharesInWindow := 0 \<rparr>))"

datatype vd_event = Share | Poll int | Suggest jsnum int

fun vd_step :: "vd_event \<Rightarrow> vardiff \<Rightarrow> vardiff" where
  "vd_step Share v = onShareAccepted v"
| "vd_step (Poll now) v = snd (maybeRetune now v)"
| "vd_step (Suggest d now) v = snd (setDiff d now v)"

text \<open>
  Polls that are at most \<open>g\<close> milliseconds apart, with shares in between and no suggestion;
  \<open>prev\<close> is the time of the previous poll.
\<close>

fun poll_gaps :: "int \<Rightarrow> int \<Rightarrow> vd_event list \<Rightarrow> bool" where
  "poll_gaps g prev [] = True"
| "poll_gaps g prev (Share # es) = poll_gaps g prev es"
| "poll_gaps g prev (Poll now # es) = (prev \<le> now \<and> now - prev \<le> g \<and> poll_gaps g now es)"
| "poll_gaps g prev (Suggest _ _ # es) = False"

primrec last_poll :: "int \<Rightarrow> vd_event list \<Rightarrow> int" where
  "last_poll prev [] = prev"
| "last_poll prev (e # es) = last_poll (case e of Poll now \<Rightarrow> now | _ \<Rightarrow> prev) es"

section \<open>Invariant\<close>

definition is_double :: "rat \<Rightarrow> bool" where
  "is_double x \<longleftrightarrow> rnd x = x \<and> \<bar>x\<bar> < 2 ^ 1024"

text \<open>Doubles given to \<^verbatim>\<open>setDiff\<close> are doubles; parameters are positive and ordered.\<close>

fun num_ok :: "jsnum \<Rightarrow> bool" where
  "num_ok (Fin x) = is_double x"
| "num_ok _ = True"

definition params_ok :: "vardiff_params \<Rightarrow> bool" where
  "params_ok p \<longleftrightarrow> (case (targetSeconds p, minDiff p, maxDiff p, maxStep p, initialDiff p) of
     (Fin t, Fin mn, Fin mx, Fin st, Fin d) \<Rightarrow>
       is_double t \<and> is_double mn \<and> is_double mx \<and> is_double st \<and> is_double d \<and>
       0 < mn \<and> mn \<le> d \<and> d \<le> mx \<and> 1 \<le> st
   | _ \<Rightarrow> False)"

definition vd_ok :: "vardiff \<Rightarrow> bool" where
  "vd_ok v \<longleftrightarrow> params_ok (vd_params v) \<and> num_ok (currentDiff v) \<and> js_is_finite (currentDiff v) \<and>
     js_le (minDiff (vd_params v)) (currentDiff v) \<and> js_le (currentDiff v) (maxDiff (vd_params v))"

lemma params_okE:
  assumes "params_ok p"
  obtains t mn mx st d where "targetSeconds p = Fin t" "minDiff p = Fin mn" "maxDiff p = Fin mx"
    "maxStep p = Fin st" "initialDiff p = Fin d" "is_double t" "is_double mn" "is_double mx" "is_double st" "is_double d"
    "0 < mn" "mn \<le> d" "d \<le> mx" "1 \<le> st"
  using assms by (auto simp: params_ok_def split: jsnum.splits)

lemma vd_okE:
  assumes "vd_ok v"
  obtains c mn mx where "currentDiff v = Fin c" "is_double c" "minDiff (vd_params v) = Fin mn"
    "maxDiff (vd_params v) = Fin mx" "0 < mn" "mn \<le> c" "c \<le> mx"
  using assms by (auto simp: vd_ok_def js_is_finite_iff elim!: params_okE)

lemma num_ok_to_num [simp]: "num_ok (to_num x)"
  by (cases "to_num x") (auto simp: is_double_def dest: to_num_Fin simp: to_num_def Let_def split: if_splits)

lemma num_ok_js_mul: "num_ok (js_mul a b)"
  by (cases a; cases b) (auto simp: signed_inf_def)

lemma js_div_num_ok: "num_ok (js_div a b)"
  by (cases a; cases b) (auto simp: signed_inf_def is_double_def)

lemma is_doubleD: "is_double x \<Longrightarrow> rnd x = x"
  by (simp add: is_double_def)

lemma to_num_pos: "0 \<le> x \<Longrightarrow> (\<exists>y. to_num x = Fin y \<and> 0 \<le> y \<and> y = rnd x) \<or> to_num x = PosInf"
  using rnd_nonneg [of x] by (auto simp: to_num_def Let_def)

lemma inv_step:
  assumes "1 \<le> st"
  shows "js_div (Fin 1) (Fin st) = Fin (rnd (1 / st))" "0 \<le> rnd (1 / st)" "rnd (1 / st) \<le> 1"
    "is_double (rnd (1 / st))"
proof -
  have "0 \<le> 1 / st" "1 / st \<le> 1" using assms by simp_all
  then show nn: "0 \<le> rnd (1 / st)" and le: "rnd (1 / st) \<le> 1"
    using rnd_of_int [of 1] by (auto intro: rnd_nonneg dbl.r_le_fixed)
  moreover have "(1 :: rat) < 2 ^ 1024" by simp
  ultimately have "\<bar>rnd (1 / st)\<bar> < 2 ^ 1024" by linarith
  then show "js_div (Fin 1) (Fin st) = Fin (rnd (1 / st))" "is_double (rnd (1 / st))"
    using assms by (simp_all add: to_num_finite is_double_def)
qed

lemma ratio_cases:
  assumes "is_double t"
  defines "ratio \<equiv> \<lambda>obs. (if js_lt (Fin 0) (Fin t)
     then if js_lt (Fin 0) obs then js_div (Fin t) obs else Fin 1 else Fin 1)"
  shows "(\<exists>x. ratio obs = Fin x \<and> is_double x \<and> 0 \<le> x) \<or> ratio obs = PosInf"
proof -
  have one: "is_double 1" using rnd_of_int [of 1] by (simp add: is_double_def)
  have d: "is_double x" if "to_num y = Fin x" for x y using num_ok_to_num [of y] that by simp
  show ?thesis
  proof (cases "0 < t \<and> js_lt (Fin 0) obs")
    case True
    then show ?thesis
    proof (cases obs)
      case (Fin ob)
      with True to_num_pos [of "t / ob"] d show ?thesis by (auto simp: ratio_def)
    qed (use True in \<open>auto simp: ratio_def is_double_def\<close>)
  qed (use one in \<open>auto simp: ratio_def\<close>)
qed

lemma multiplier_bounds:
  assumes "params_ok p" "maxStep p = Fin st"
  obtains x where "retune_multiplier p e n = Fin x" "is_double x" "rnd (1 / st) \<le> x" "x \<le> st"
proof -
  obtain t where t: "targetSeconds p = Fin t" "is_double t" "is_double st" "1 \<le> st"
    using assms by (auto elim!: params_okE)
  define obs where "obs = (if 0 < n then js_div e (num_of_bigint (int n)) else e)"
  define ratio where "ratio = (if js_lt (Fin 0) (Fin t)
     then if js_lt (Fin 0) obs then js_div (Fin t) obs else Fin 1 else Fin 1)"
  have r: "(\<exists>x. ratio = Fin x \<and> is_double x \<and> 0 \<le> x) \<or> ratio = PosInf"
    unfolding ratio_def by (rule ratio_cases [OF t(2)])
  have m: "retune_multiplier p e n =
      (let m = (if js_lt (Fin st) ratio then Fin st else ratio)
       in if js_lt m (Fin (rnd (1 / st))) then Fin (rnd (1 / st)) else m)"
    unfolding retune_multiplier_def Let_def assms(2) t(1) inv_step(1) [OF t(4)] obs_def [symmetric] ratio_def [symmetric] ..
  have "rnd (1 / st) \<le> st" using inv_step(3) [OF t(4)] t(4) by linarith
  with r show ?thesis
    using that t(3) inv_step(4) [OF t(4)] unfolding m by (fastforce simp: Let_def split: if_splits)
qed

lemma clamp_bounds:
  assumes "params_ok p" "minDiff p = Fin mn" "maxDiff p = Fin mx" "n = Fin z \<or> n = PosInf" "num_ok n"
  obtains y where "clamp_diff p n = Fin y" "is_double y" "mn \<le> y" "y \<le> mx"
    "n = Fin z \<longrightarrow> y = z \<or> (z < mn \<and> y = mn) \<or> (mx < z \<and> y = mx)" "n = PosInf \<longrightarrow> y = mx"
proof -
  have "mn \<le> mx" "is_double mn" "is_double mx" using assms(1-3) by (auto elim!: params_okE)
  with assms(2-5) that show ?thesis
    by (elim disjE) (force simp: clamp_diff_def Let_def split: if_splits)+
qed

text \<open>The difficulty a retune computes, from the multiplier.\<close>

lemma next_diff:
  assumes "vd_ok v" "maxStep (vd_params v) = Fin st" "currentDiff v = Fin c"
    "minDiff (vd_params v) = Fin mn" "maxDiff (vd_params v) = Fin mx"
  obtains y x where "retune_multiplier (vd_params v) e n = Fin x"
    "clamp_diff (vd_params v) (js_mul (currentDiff v) (retune_multiplier (vd_params v) e n)) = Fin y"
    "is_double y" "mn \<le> y" "y \<le> mx" "rnd (c * rnd (1 / st)) \<le> y" "y \<le> rnd (c * st)" "1 \<le> x \<Longrightarrow> c \<le> y"
proof -
  let ?p = "vd_params v"
  have p: "params_ok ?p" using assms(1) by (simp add: vd_ok_def)
  have st: "1 \<le> st" using p assms(2) by (auto elim!: params_okE)
  have c: "rnd c = c" "0 < c" "mn \<le> c" "c \<le> mx"
    using assms by (auto elim!: vd_okE simp: is_double_def)
  obtain x where x: "retune_multiplier ?p e n = Fin x" "rnd (1 / st) \<le> x" "x \<le> st"
    using multiplier_bounds [OF p assms(2)] by metis
  let ?n = "js_mul (Fin c) (Fin x)"
  have "0 \<le> x" using inv_step(2) [OF st] x(2) by linarith
  then have cx: "0 \<le> c * x" using c(2) by simp
  then have nn: "?n = Fin (rnd (c * x)) \<or> ?n = PosInf" using to_num_pos [OF cx] by auto
  obtain y where y: "clamp_diff ?p ?n = Fin y" "is_double y" "mn \<le> y" "y \<le> mx"
      "?n = Fin (rnd (c * x)) \<longrightarrow> y = rnd (c * x) \<or> (rnd (c * x) < mn \<and> y = mn) \<or> (mx < rnd (c * x) \<and> y = mx)"
      "?n = PosInf \<longrightarrow> y = mx"
    by (rule clamp_bounds [OF p assms(4,5) nn num_ok_js_mul])
  have lo: "rnd (c * rnd (1 / st)) \<le> rnd (c * x)" "rnd (c * x) \<le> rnd (c * st)"
    using c(2) x(2,3) by (auto intro!: rnd_mono)
  have lc: "rnd (c * rnd (1 / st)) \<le> c" "c \<le> rnd (c * st)" and ge: "1 \<le> x \<Longrightarrow> c \<le> rnd (c * x)"
    using c st inv_step(3) [OF st] by (auto intro!: dbl.r_mult_le dbl.r_mult_ge)
  have big: "?n = PosInf \<Longrightarrow> mx \<le> rnd (c * x)"
  proof -
    assume "?n = PosInf"
    then have "2 ^ 1024 \<le> rnd (c * x)" using cx rnd_nonneg [OF cx] by (simp add: to_num_def Let_def split: if_splits)
    moreover have "\<bar>mx\<bar> < 2 ^ 1024" using p assms(5) by (auto elim!: params_okE simp: is_double_def)
    ultimately show ?thesis by linarith
  qed
  show ?thesis
  proof (rule that [OF x(1)])
    show "clamp_diff ?p (js_mul (currentDiff v) (retune_multiplier ?p e n)) = Fin y"
      unfolding assms(3) x(1) by (rule y(1))
    show "is_double y" "mn \<le> y" "y \<le> mx" by (rule y)+
    have d: "y = rnd (c * x) \<or> (rnd (c * x) < mn \<and> y = mn) \<or> (mx \<le> rnd (c * x) \<and> y = mx)"
      using y(5,6) big nn less_imp_le by metis
    show "rnd (c * rnd (1 / st)) \<le> y" using d lo lc c(3,4) by linarith
    show "y \<le> rnd (c * st)" using d lo lc c(3,4) by linarith
    show "c \<le> y" if "1 \<le> x" using d ge [OF that] c(3,4) by linarith
  qed
qed

lemma maybeRetune_cases:
  assumes "vd_ok v" "maxStep (vd_params v) = Fin st" "currentDiff v = Fin c"
    "minDiff (vd_params v) = Fin mn" "maxDiff (vd_params v) = Fin mx" "maybeRetune now v = (r, v')"
  shows "vd_params v' = vd_params v \<and> (v' = v \<and> js_lt (window_elapsed v now) (retuneSeconds (vd_params v)) \<or>
      windowStart v' = now \<and> sharesInWindow v' = 0) \<and>
    (r = None \<and> currentDiff v' = currentDiff v \<or>
     (\<exists>x y. r = Some (Fin y) \<and> currentDiff v' = Fin y \<and> windowStart v' = now \<and> sharesInWindow v' = 0 \<and>
        is_double y \<and> mn \<le> y \<and> y \<le> mx \<and> rnd (c * rnd (1 / st)) \<le> y \<and> y \<le> rnd (c * st) \<and>
        \<not> js_lt (window_elapsed v now) (retuneSeconds (vd_params v)) \<and>
        \<not> (sharesInWindow v = 0 \<and> js_lt (window_elapsed v now) (targetSeconds (vd_params v))) \<and>
        retune_multiplier (vd_params v) (window_elapsed v now) (sharesInWindow v) = Fin x \<and> (1 \<le> x \<longrightarrow> c \<le> y)))"
proof -
  obtain x y where xy: "retune_multiplier (vd_params v) (window_elapsed v now) (sharesInWindow v) = Fin x"
    "clamp_diff (vd_params v) (js_mul (currentDiff v)
       (retune_multiplier (vd_params v) (window_elapsed v now) (sharesInWindow v))) = Fin y"
    "is_double y" "mn \<le> y" "y \<le> mx" "rnd (c * rnd (1 / st)) \<le> y" "y \<le> rnd (c * st)" "1 \<le> x \<longrightarrow> c \<le> y"
    using next_diff [OF assms(1-5), of "window_elapsed v now" "sharesInWindow v"] by blast
  show ?thesis
    using assms(6) xy by (auto simp: maybeRetune_def Let_def split: if_splits)
qed

lemma vd_ok_maybeRetune: "vd_ok v \<Longrightarrow> vd_ok (snd (maybeRetune now v))"
proof -
  assume v: "vd_ok v"
  then have "params_ok (vd_params v)" by (simp add: vd_ok_def)
  then obtain st where st: "maxStep (vd_params v) = Fin st" by (auto elim: params_okE)
  obtain c mn mx where c: "currentDiff v = Fin c" "minDiff (vd_params v) = Fin mn" "maxDiff (vd_params v) = Fin mx"
    using v by (auto elim: vd_okE)
  obtain r v' where "maybeRetune now v = (r, v')" by fastforce
  with maybeRetune_cases [OF v st c this] v show ?thesis by (auto simp: vd_ok_def c)
qed

lemma vd_ok_setDiff: "vd_ok v \<Longrightarrow> num_ok d \<Longrightarrow> vd_ok (snd (setDiff d now v))"
  by (cases d) (auto simp: setDiff_def vd_ok_def elim!: params_okE)

lemma vd_ok_step: "vd_ok v \<Longrightarrow> (\<And>d now. e = Suggest d now \<Longrightarrow> num_ok d) \<Longrightarrow> vd_ok (vd_step e v)"
  by (cases e) (auto simp: vd_ok_maybeRetune vd_ok_setDiff, simp add: vd_ok_def onShareAccepted_def)

lemma vd_ok_run:
  "vd_ok v \<Longrightarrow> \<forall>d now. Suggest d now \<in> set evs \<longrightarrow> num_ok d \<Longrightarrow> vd_ok (fold vd_step evs v)"
proof (induction evs arbitrary: v)
  case (Cons e evs)
  then have "vd_ok (vd_step e v)" by (intro vd_ok_step) auto
  with Cons.IH [of "vd_step e v"] Cons.prems(2) show ?case by auto
qed simp

lemma vd_ok_new: "params_ok p \<Longrightarrow> vd_ok (newVardiff p t0)"
  by (auto simp: newVardiff_def vd_ok_def elim!: params_okE)

section \<open>Polling with a target above the retune interval\<close>

lemma elapsed_eq:
  assumes "0 \<le> now - windowStart v" "now - windowStart v \<le> 2 ^ 53"
  shows "window_elapsed v now = Fin (rnd (of_int (now - windowStart v) / 1000))"
proof -
  define n where "n = now - windowStart v"
  have n: "0 \<le> n" "n \<le> 2 ^ 53" using assms by (simp_all add: n_def)
  then have k: "0 \<le> (of_int n :: rat)" "(of_int n :: rat) \<le> of_int (2 ^ 53)"
    by (simp_all only: of_int_0_le_iff of_int_le_iff)
  have "rnd (of_int n / 1000) \<le> of_int (2 ^ 53)"
    by (rule dbl.r_le_fixed) (use k rnd_of_int [of "2 ^ 53"] in simp_all)
  moreover have "0 \<le> rnd (of_int n / 1000)" using k by (intro rnd_nonneg) simp
  moreover have "(of_int (2 ^ 53) :: rat) < 2 ^ 1024" by simp
  ultimately have "\<bar>rnd (of_int n / 1000)\<bar> < 2 ^ 1024" by linarith
  then show ?thesis
    using n unfolding window_elapsed_def n_def [symmetric] by (simp add: num_of_bigint_small to_num_finite)
qed

lemma multiplier_ge_one:
  assumes "params_ok p" "targetSeconds p = Fin t" "e \<le> t" "0 < t" "0 \<le> e" "n < 2 ^ 53"
    "retune_multiplier p (Fin e) n = Fin x" "rnd e = e"
  shows "1 \<le> x"
proof -
  obtain st where st: "maxStep p = Fin st" "1 \<le> st" using assms(1) by (auto elim: params_okE)
  have fin: "rnd e < 2 ^ 1024" "rnd t = t"
    using assms by (auto elim!: params_okE simp: is_double_def)
  define obs where "obs = (if 0 < n then js_div (Fin e) (num_of_bigint (int n)) else Fin e)"
  have obs: "\<exists>ob. obs = Fin ob \<and> ob \<le> t \<and> 0 \<le> ob"
  proof (cases "0 < n")
    case True
    have "1 \<le> (of_int (int n) :: rat)" using True by simp
    then have "e / of_int (int n) \<le> e" "0 \<le> e / of_int (int n)"
      using assms(5) by (simp_all add: divide_le_eq mult_le_cancel_left1)
    then have "rnd (e / of_int (int n)) \<le> e" "0 \<le> rnd (e / of_int (int n))"
      using assms(8) by (auto intro: dbl.r_le_fixed rnd_nonneg)
    moreover have "num_of_bigint (int n) = Fin (of_int (int n))"
      using assms(6) by (intro num_of_bigint_small) simp
    ultimately show ?thesis
      using True assms(3,8) fin(1) by (simp add: obs_def to_num_finite)
  qed (use assms in \<open>simp add: obs_def\<close>)
  then obtain ob where ob: "obs = Fin ob" "ob \<le> t" "0 \<le> ob" by blast
  define ratio where "ratio = (if 0 < ob then to_num (t / ob) else Fin 1)"
  have ratio: "(\<exists>y. ratio = Fin y \<and> 1 \<le> y) \<or> ratio = PosInf"
  proof (cases "0 < ob")
    case True
    then have "1 \<le> t / ob" using ob by simp
    then have "1 \<le> rnd (t / ob)" using rnd_of_int [of 1] by (intro dbl.r_ge_fixed) simp_all
    with True to_num_pos [of "t / ob"] \<open>1 \<le> t / ob\<close> show ?thesis by (auto simp: ratio_def)
  qed (simp add: ratio_def)
  have m: "retune_multiplier p (Fin e) n =
      (let m = (if js_lt (Fin st) ratio then Fin st else ratio)
       in if js_lt m (Fin (rnd (1 / st))) then Fin (rnd (1 / st)) else m)"
    using ob assms(4) unfolding retune_multiplier_def Let_def st(1) assms(2) inv_step(1) [OF st(2)] obs_def [symmetric]
    by (simp add: ratio_def)
  have "Fin x = (let m = (if js_lt (Fin st) ratio then Fin st else ratio)
       in if js_lt m (Fin (rnd (1 / st))) then Fin (rnd (1 / st)) else m)"
    using assms(7) m by simp
  with ratio st(2) inv_step(3) [OF st(2)] show ?thesis by (auto simp: Let_def split: if_splits)
qed

text \<open>One poll inside the gap bound: the difficulty does not fall and the window stays recent.\<close>

lemma poll_step:
  assumes v: "vd_ok v" and r: "retuneSeconds (vd_params v) = Fin (of_int r)"
    and t: "targetSeconds (vd_params v) = Fin (of_int t)"
    and num: "1 \<le> r" "r * 1000 + g \<le> (t - 1) * 1000" "t \<le> 2 ^ 31" "sharesInWindow v < 2 ^ 53"
    and w: "windowStart v \<le> prev" "prev - windowStart v < r * 1000" "prev \<le> now" "now - prev \<le> g"
  shows "js_le (currentDiff v) (currentDiff (snd (maybeRetune now v))) \<and>
    windowStart (snd (maybeRetune now v)) \<le> now \<and> now - windowStart (snd (maybeRetune now v)) < r * 1000 \<and>
    sharesInWindow (snd (maybeRetune now v)) \<le> sharesInWindow v"
proof -
  define k where "k = now - windowStart v"
  have k: "0 \<le> k" "k \<le> (t - 1) * 1000" "k \<le> 2 ^ 53" using num w by (simp_all add: k_def)
  define e where "e = rnd (of_int k / 1000)"
  have el: "window_elapsed v now = Fin e" using elapsed_eq [of now v] k by (simp add: k_def e_def)
  have kq: "(of_int k / 1000 :: rat) \<le> of_int (t - 1)"
  proof -
    have "(of_int k :: rat) \<le> of_int ((t - 1) * 1000)" using k(2) by (simp only: of_int_le_iff)
    then show ?thesis by simp
  qed
  moreover have "rnd (of_int (t - 1)) = of_int (t - 1)" using k num by (intro rnd_of_int) simp
  ultimately have e: "e \<le> of_int (t - 1)" "0 \<le> e" "rnd e = e"
    unfolding e_def using k(1) by (auto intro: dbl.r_le_fixed rnd_nonneg)
  have rr: "rnd (of_int r) = of_int r" using num w by (intro rnd_of_int) simp
  have close: "k < r * 1000" if "e < of_int r"
  proof (rule ccontr)
    assume "\<not> k < r * 1000"
    then have "(of_int (r * 1000) :: rat) \<le> of_int k" by (simp only: of_int_le_iff)
    then have "of_int r \<le> (of_int k / 1000 :: rat)" by simp
    then have "of_int r \<le> e" unfolding e_def using rr by (rule dbl.r_ge_fixed)
    with that show False by simp
  qed
  have p: "params_ok (vd_params v)" using v by (simp add: vd_ok_def)
  then obtain st where st: "maxStep (vd_params v) = Fin st" by (auto elim: params_okE)
  obtain c mn mx where c: "currentDiff v = Fin c" "minDiff (vd_params v) = Fin mn" "maxDiff (vd_params v) = Fin mx"
    using v by (auto elim: vd_okE)
  have pos: "(0 :: rat) < of_int t" "e \<le> of_int t" using e num k by simp_all
  obtain res v' where m: "maybeRetune now v = (res, v')" by fastforce
  note cs = maybeRetune_cases [OF v st c m, unfolded el r t]
  have ge: "1 \<le> x" if "retune_multiplier (vd_params v) (Fin e) (sharesInWindow v) = Fin x" for x
    using multiplier_ge_one [OF p t pos(2,1) e(2) num(4) that e(3)] .
  have "js_le (Fin c) (currentDiff v')" using cs ge c(1) by auto
  moreover have "windowStart v' \<le> now \<and> now - windowStart v' < r * 1000"
    using cs close num(1) k(1) by (auto simp: k_def)
  moreover have "sharesInWindow v' \<le> sharesInWindow v" using cs by auto
  ultimately show ?thesis using m c(1) by simp
qed

lemma js_le_refl: "x \<noteq> NaN \<Longrightarrow> js_le x x"
  by (cases x) auto

lemma js_le_trans: "js_le a b \<Longrightarrow> js_le b c \<Longrightarrow> js_le a c"
  by (cases a; cases b; cases c) auto

definition recent_window :: "int \<Rightarrow> int \<Rightarrow> int \<Rightarrow> nat \<Rightarrow> vardiff \<Rightarrow> bool" where
  "recent_window r t prev n v \<longleftrightarrow> vd_ok v \<and> retuneSeconds (vd_params v) = Fin (of_int r) \<and>
     targetSeconds (vd_params v) = Fin (of_int t) \<and> sharesInWindow v + n < 2 ^ 53 \<and>
     windowStart v \<le> prev \<and> prev - windowStart v < r * 1000"

lemma maybeRetune_params: "vd_params (snd (maybeRetune now v)) = vd_params v"
  by (simp add: maybeRetune_def Let_def)

lemma polls_monotone:
  assumes num: "1 \<le> r" "r * 1000 + g \<le> (t - 1) * 1000" "t \<le> 2 ^ 31"
  shows "recent_window r t prev (length es + n) v \<Longrightarrow> poll_gaps g prev es \<Longrightarrow>
    js_le (currentDiff v) (currentDiff (fold vd_step es v)) \<and>
    recent_window r t (last_poll prev es) n (fold vd_step es v)"
proof (induction es arbitrary: prev v)
  case Nil
  then show ?case by (auto simp: recent_window_def elim!: vd_okE)
next
  case (Cons e es)
  show ?case
  proof (cases e)
    case Share
    with Cons.prems have "recent_window r t prev (length es + n) (onShareAccepted v)"
      by (simp add: recent_window_def onShareAccepted_def vd_ok_def)
    with Cons.IH [of prev "onShareAccepted v"] Cons.prems Share show ?thesis
      by (simp add: onShareAccepted_def)
  next
    case (Poll now)
    let ?v = "snd (maybeRetune now v)"
    note w = Cons.prems(1) [unfolded recent_window_def]
    have st: "js_le (currentDiff v) (currentDiff ?v) \<and> windowStart ?v \<le> now \<and>
        now - windowStart ?v < r * 1000 \<and> sharesInWindow ?v \<le> sharesInWindow v"
      using w Cons.prems(2) Poll by (intro poll_step [OF _ _ _ num]) auto
    have "recent_window r t now (length es + n) ?v"
      using w st by (auto simp: recent_window_def maybeRetune_params vd_ok_maybeRetune)
    with Cons.IH [of now ?v] Cons.prems(2) Poll st show ?thesis by (auto intro: js_le_trans)
  next
    case (Suggest d now)
    with Cons.prems show ?thesis by simp
  qed
qed

lemma poll_gaps_append:
  "poll_gaps g prev (a @ b) \<longleftrightarrow> poll_gaps g prev a \<and> poll_gaps g (last_poll prev a) b"
  by (induction g prev a rule: poll_gaps.induct) auto

section \<open>The default configuration\<close>

lemma rnd_numeral: "(numeral n :: int) \<le> 2 ^ 53 \<Longrightarrow> rnd (numeral n) = numeral n"
  using rnd_of_int [of "numeral n"] by simp

lemma to_num_numeral: "(numeral n :: int) \<le> 2 ^ 53 \<Longrightarrow> to_num (numeral n) = Fin (numeral n)"
  using to_num_of_int [of "numeral n"] by simp

lemma is_double_numeral: "(numeral n :: int) \<le> 2 ^ 53 \<Longrightarrow> is_double (numeral n)"
  using to_num_numeral [of n] num_ok_to_num [of "numeral n"] by simp

lemma to_num_small:
  assumes "0 \<le> x" "x \<le> 1"
  shows "to_num x = Fin (rnd x)" "0 \<le> rnd x" "rnd x \<le> 1" "is_double (rnd x)"
proof -
  show r: "0 \<le> rnd x" "rnd x \<le> 1"
    using assms rnd_of_int [of 1] by (auto intro: rnd_nonneg dbl.r_le_fixed)
  moreover have "(1 :: rat) < 2 ^ 1024" by simp
  ultimately have "\<bar>rnd x\<bar> < 2 ^ 1024" by linarith
  then show "to_num x = Fin (rnd x)" "is_double (rnd x)" by (simp_all add: to_num_finite is_double_def)
qed

lemma rnd_millionth_pos: "0 < rnd (1 / 1000000)"
proof -
  have "representable (1 / 2 ^ 20)"
    unfolding representable_def by (intro exI [of _ 1] exI [of _ "- 20"]) (simp add: power_int_minus field_simps)
  then have "rnd (1 / 2 ^ 20) = 1 / 2 ^ 20" by (rule rnd_exact)
  then have "1 / 2 ^ 20 \<le> rnd (1 / 1000000)" by (intro dbl.r_ge_fixed) simp_all
  moreover have "(0 :: rat) < 1 / 2 ^ 20" by simp
  ultimately show ?thesis by linarith
qed

lemma params_ok_default: "params_ok default_params"
  using to_num_small [of "1 / 1000000"] rnd_millionth_pos
  by (simp add: params_ok_def default_params_def is_double_numeral)

definition one_share_window :: vardiff where
  "one_share_window = (newVardiff default_params 0)\<lparr> sharesInWindow := 1 \<rparr>"

lemma one_share_retune: "\<exists>v'. maybeRetune 30000 one_share_window = (Some (Fin 4096), v')"
proof -
  have n: "num_of_bigint 30000 = Fin 30000" "num_of_bigint 1 = Fin 1" "to_num 1 = Fin 1"
    using num_of_bigint_small [of 30000] num_of_bigint_small [of 1] by (simp_all add: num_of_bigint_def)
  have tenth: "to_num (1 / 10) = Fin (rnd (1 / 10))" "rnd (1 / 10) \<le> 1"
    using to_num_small [of "1 / 10"] by simp_all
  have quarter: "to_num (1 / 4) = Fin (rnd (1 / 4))" "rnd (1 / 4) \<le> 1"
    using to_num_small [of "1 / 4"] by simp_all
  have m: "to_num (1 / 1000000) = Fin (rnd (1 / 1000000))" "rnd (1 / 1000000) \<le> 1"
    using to_num_small [of "1 / 1000000"] by simp_all
  show ?thesis
    using tenth(2) quarter(2) m(2)
    by (simp add: maybeRetune_def one_share_window_def newVardiff_def default_params_def window_elapsed_def
        retune_multiplier_def clamp_diff_def js_sub_def n tenth(1) quarter(1) m(1) to_num_numeral Let_def)
qed

section \<open>Properties\<close>

text \<open>
  C21: whatever shares, polls and difficulty suggestions a connection sees, its difficulty stays a
  finite double inside the configured bounds.
\<close>
theorem vardiff_in_range:
  assumes "params_ok p" and "\<forall>d now. Suggest d now \<in> set evs \<longrightarrow> num_ok d"
  shows "js_is_finite (currentDiff (fold vd_step evs (newVardiff p t0))) \<and>
    js_le (minDiff p) (currentDiff (fold vd_step evs (newVardiff p t0))) \<and>
    js_le (currentDiff (fold vd_step evs (newVardiff p t0))) (maxDiff p)"
proof -
  have "vd_params (fold vd_step evs v) = vd_params v" for v
  proof (induction evs arbitrary: v)
    case (Cons e evs)
    then show ?case by (cases e) (simp_all add: onShareAccepted_def maybeRetune_params setDiff_def)
  qed simp
  then show ?thesis
    using vd_ok_run [OF vd_ok_new [OF assms(1)] assms(2), of t0]
    by (simp add: vd_ok_def) (simp add: newVardiff_def)
qed

theorem vardiff_in_range_witness:
  "js_le (currentDiff (fold vd_step [Share, Poll 31000, Suggest (Fin 2048) 40000] (newVardiff default_params 0)))
     (maxDiff default_params)"
proof -
  have "\<forall>d now. Suggest d now \<in> set [Share, Poll 31000, Suggest (Fin 2048) 40000] \<longrightarrow> num_ok d"
    by (auto simp: is_double_numeral)
  from vardiff_in_range [OF params_ok_default this] show ?thesis by blast
qed

text \<open>
  A retune that changes the difficulty returns the new difficulty, which lies within the
  bounds and within one step: at least the old one times the rounded \<^verbatim>\<open>1 / maxStep\<close>, at most the
  old one times \<^verbatim>\<open>maxStep\<close>; it also opens a new window.
\<close>
theorem maybeRetune_step:
  assumes "vd_ok v" and "maybeRetune now v = (Some d, v')"
  shows "currentDiff v' = d \<and> js_le (minDiff (vd_params v)) d \<and> js_le d (maxDiff (vd_params v)) \<and>
    js_le (js_mul (currentDiff v) (js_div (Fin 1) (maxStep (vd_params v)))) d \<and>
    js_le d (js_mul (currentDiff v) (maxStep (vd_params v))) \<and>
    windowStart v' = now \<and> sharesInWindow v' = 0"
proof -
  have "params_ok (vd_params v)" using assms(1) by (simp add: vd_ok_def)
  then obtain st where st: "maxStep (vd_params v) = Fin st" "1 \<le> st" by (auto elim: params_okE)
  obtain c mn mx where c: "currentDiff v = Fin c" "minDiff (vd_params v) = Fin mn" "maxDiff (vd_params v) = Fin mx"
      "is_double c" "0 < mn" "mn \<le> c"
    using assms(1) by (auto elim: vd_okE)
  obtain y where y: "d = Fin y" "currentDiff v' = Fin y" "windowStart v' = now" "sharesInWindow v' = 0"
      "mn \<le> y" "y \<le> mx" "rnd (c * rnd (1 / st)) \<le> y" "y \<le> rnd (c * st)"
    using maybeRetune_cases [OF assms(1) st(1) c(1-3) assms(2)] by auto
  have c0: "0 \<le> c" using c by simp
  have lo: "rnd (c * rnd (1 / st)) \<le> c"
    using c0 c(4) inv_step(3) [OF st(2)] by (intro dbl.r_mult_le) (auto simp: is_double_def)
  have "0 \<le> rnd (c * rnd (1 / st))" using c0 inv_step(2) [OF st(2)] by (intro rnd_nonneg) simp
  with lo c(4) have "js_mul (Fin c) (Fin (rnd (1 / st))) = Fin (rnd (c * rnd (1 / st)))"
    by (simp add: to_num_finite is_double_def)
  moreover have "js_le (Fin y) (js_mul (Fin c) (Fin st))"
    using to_num_pos [of "c * st"] c0 st(2) y(8) by auto
  ultimately show ?thesis using y c(1-3) st inv_step(1) [OF st(2)] by simp
qed

theorem maybeRetune_step_witness:
  "\<exists>v'. maybeRetune 30000 one_share_window = (Some (Fin 4096), v') \<and>
     js_le (Fin 4096) (js_mul (Fin 1024) (Fin 4)) \<and> windowStart v' = 30000"
proof -
  have ok: "vd_ok one_share_window"
    using vd_ok_step [OF vd_ok_new [OF params_ok_default], of Share 0]
    by (simp add: one_share_window_def onShareAccepted_def newVardiff_def)
  obtain v' where v': "maybeRetune 30000 one_share_window = (Some (Fin 4096), v')"
    using one_share_retune by blast
  from maybeRetune_step [OF ok v'] v' show ?thesis
    by (auto simp: one_share_window_def newVardiff_def default_params_def)
qed

text \<open>
  C22: with a share target above the retune interval (the defaults are 600 s and 30 s) and polls
  that are close together (the server polls every 5 s), vardiff never lowers a difficulty: an
  empty window is restarted before it is as long as the target, and a window with a share is
  shorter than the target, so the ratio is at least one. A connection whose difficulty is too
  high for its hash rate is never retuned.
\<close>
theorem vardiff_never_lowers:
  assumes "params_ok p" and "retuneSeconds p = Fin (of_int r)" and "targetSeconds p = Fin (of_int t)"
    and "1 \<le> r" and "r * 1000 + g \<le> (t - 1) * 1000" and "t \<le> 2 ^ 31"
    and "poll_gaps g t0 (es @ es')" and "length (es @ es') < 2 ^ 53"
  shows "js_le (currentDiff (fold vd_step es (newVardiff p t0)))
    (currentDiff (fold vd_step (es @ es') (newVardiff p t0)))"
proof -
  have "recent_window r t t0 (length es + length es') (newVardiff p t0)"
    using assms vd_ok_new [OF assms(1), of t0] by (simp add: recent_window_def newVardiff_def)
  from polls_monotone [OF assms(4-6) this] assms(7)
  have "recent_window r t (last_poll t0 es) (length es' + 0) (fold vd_step es (newVardiff p t0))"
    by (simp add: poll_gaps_append)
  from polls_monotone [OF assms(4-6) this] assms(7) show ?thesis by (simp add: poll_gaps_append)
qed

theorem vardiff_never_lowers_witness:
  "js_le (currentDiff (newVardiff default_params 0))
     (currentDiff (fold vd_step [Poll 5000, Share, Poll 10000, Poll 15000] (newVardiff default_params 0)))"
proof -
  have p: "retuneSeconds default_params = Fin (of_int 30)" "targetSeconds default_params = Fin (of_int 600)"
    by (simp_all add: default_params_def)
  have g: "poll_gaps 5000 0 ([] @ [Poll 5000, Share, Poll 10000, Poll 15000])"
    "length ([] @ [Poll 5000, Share, Poll 10000, Poll 15000]) < 2 ^ 53" by simp_all
  show ?thesis
    using vardiff_never_lowers [OF params_ok_default p _ _ _ g] by simp
qed

end
