(* ===== verification/Stratum_Client.thy ===== *)
theory Stratum_Client
  imports Job_Manager Vardiff
begin

text \<open>
  One Stratum V1 connection (\<^verbatim>\<open>stratum/client.ts\<close>) and the small libraries that the handlers use:
  share digests (\<^verbatim>\<open>lib/share-digest.ts\<close>), device signatures (\<^verbatim>\<open>lib/p256.ts\<close>), reject reasons
  (\<^verbatim>\<open>lib/reject-reason.ts\<close>) and user names (\<^verbatim>\<open>splitUserName\<close>).

  What is written to the socket is a list of \<open>wire_msg\<close> values; JSON printing and parsing are the
  boundary, so a request's parameters are given as the texts that \<^verbatim>\<open>String(v)\<close> yields, \<open>None\<close>
  standing for \<^verbatim>\<open>undefined\<close> and \<^verbatim>\<open>null\<close>. SHA-256 and the P-256 verification of Node are parameters.
\<close>

section \<open>Shared helpers\<close>

definition hex8 :: "int \<Rightarrow> string" where
  "hex8 n = pad_start 8 (CHR ''0'') (hex_of_int (to_uint32 n))"

definition shareDigest :: "(bytes \<Rightarrow> bytes) \<Rightarrow> string \<Rightarrow> string \<Rightarrow> int \<Rightarrow> int \<Rightarrow> bytes" where
  "shareDigest sha jobId extranonce2Hex ntime nonce =
     (let ntimeHex = hex8 ntime; nonceHex = hex8 nonce;
          canon = jobId @ ''|'' @ to_lower extranonce2Hex @ ''|'' @ ntimeHex @ ''|'' @ nonceHex
      in sha (ascii_bytes canon))"

definition nonceHex :: "int \<Rightarrow> string" where
  "nonceHex nonce = pad_start 8 (CHR ''0'') (hex_of_int (to_uint32 nonce))"

text \<open>The regular expression \<^verbatim>\<open>/^[0-9a-f]{128}$/\<close>.\<close>

definition is_hex128 :: "string \<Rightarrow> bool" where
  "is_hex128 s \<longleftrightarrow> length s = 128 \<and> list_all (\<lambda>c. c \<in> set ''0123456789abcdef'') s"

text \<open>\<open>verify\<close> is Node's verification of an R\<parallel>S signature; \<open>None\<close> stands for an exception.\<close>

definition verifyP256Digest ::
  "(bytes \<Rightarrow> bytes \<Rightarrow> bytes \<Rightarrow> bytes \<Rightarrow> bool option) \<Rightarrow> string \<Rightarrow> bytes \<Rightarrow> string \<Rightarrow> bool" where
  "verifyP256Digest verify pubHex digest sigHex =
     (if \<not> is_hex128 pubHex \<or> \<not> is_hex128 sigHex \<or> length digest \<noteq> 32 then False
      else let raw = hex_pairs pubHex in
        case verify (slice raw 0 32) (slice raw 32 64) digest (hex_pairs sigHex) of None \<Rightarrow> False | Some b \<Rightarrow> b)"

datatype reject_reason = RDuplicate | RLowDiff | RInvalid | ROther

definition normalizeRejectReason :: "string \<Rightarrow> reject_reason" where
  "normalizeRejectReason reason =
     (if reason = ''duplicate'' then RDuplicate else if reason = ''low-diff'' then RLowDiff
      else if reason = ''invalid'' then RInvalid else ROther)"

definition rejectColumn :: "string \<Rightarrow> string" where
  "rejectColumn reason = (case normalizeRejectReason reason of
     RDuplicate \<Rightarrow> ''rejected_duplicate'' | RLowDiff \<Rightarrow> ''rejected_low_diff''
   | RInvalid \<Rightarrow> ''rejected_invalid'' | ROther \<Rightarrow> ''rejected_other'')"

definition splitUserName :: "string \<Rightarrow> string \<times> string" where
  "splitUserName s =
     (case last_index_of (CHR ''.'') s of
        None \<Rightarrow> (s, ''default'')
      | Some dot \<Rightarrow>
          if dot = 0 \<or> dot = length s - 1 then (s, ''default'') else (slice s 0 dot, slice s (dot + 1) (length s)))"

section \<open>The connection\<close>

datatype client_state = New | Subscribed | Authorized
datatype attest_state = ANone | APending | AValid | AInvalid

type_synonym rpc_id = "string option"

datatype reply = RBool bool | RSubscribe string string nat

datatype wire_msg =
  ResultMsg rpc_id reply
| ErrorMsg rpc_id int string
| SetDifficulty jsnum
| NotifyMsg string string string string "string list" string string string bool
| ChallengeMsg string

record client =
  cl_connId :: int
  cl_state :: client_state
  cl_extranonce1Hex :: string
  cl_extranonce2Size :: nat
  cl_userAgent :: string
  cl_username :: string
  cl_lastShareAt :: int
  cl_sharesAccepted :: nat
  cl_sharesRejected :: nat
  cl_connectedAt :: int
  cl_lastJob :: "stratum_job option"
  cl_jobShareDiff :: "(string, jsnum) jsmap"
  cl_lastNotifiedDiff :: "jsnum option"
  cl_ip :: string
  cl_seenShares :: "string list"
  cl_pubkey :: "string option"
  cl_attest :: attest_state
  cl_userId :: "int option"
  cl_authorizedAt :: int
  cl_challenge :: "bytes option"
  cl_reservedSlotId :: "int option"
  cl_buf :: string
  cl_vardiff :: vardiff
  cl_destroyed :: bool

text \<open>The module's counters \<^verbatim>\<open>nextConnId\<close> and \<^verbatim>\<open>nextExtranonce1\<close>.\<close>

record client_counters =
  cc_nextConnId :: int
  cc_nextExtranonce1 :: int

definition allocExtranonce1Hex :: "int \<Rightarrow> string \<times> int" where
  "allocExtranonce1Hex nextExtranonce1 =
     (let n = js_and (nextExtranonce1 + 1) 0xffffffff in (pad_start 8 (CHR ''0'') (hex_of_int n), n))"

definition newStratumClient :: "vardiff_params \<Rightarrow> string \<Rightarrow> int \<Rightarrow> client_counters \<Rightarrow> client \<times> client_counters" where
  "newStratumClient params ip now k =
     (let (en1, n) = allocExtranonce1Hex (cc_nextExtranonce1 k) in
      (\<lparr>cl_connId = cc_nextConnId k, cl_state = New, cl_extranonce1Hex = en1, cl_extranonce2Size = 4,
        cl_userAgent = '''', cl_username = '''', cl_lastShareAt = 0, cl_sharesAccepted = 0, cl_sharesRejected = 0,
        cl_connectedAt = now, cl_lastJob = None, cl_jobShareDiff = [], cl_lastNotifiedDiff = None, cl_ip = ip,
        cl_seenShares = [], cl_pubkey = None, cl_attest = ANone, cl_userId = None, cl_authorizedAt = 0,
        cl_challenge = None, cl_reservedSlotId = None, cl_buf = '''', cl_vardiff = newVardiff params now,
        cl_destroyed = False\<rparr>,
       \<lparr>cc_nextConnId = cc_nextConnId k + 1, cc_nextExtranonce1 = n\<rparr>))"

text \<open>The line loop of \<^verbatim>\<open>onData\<close>: the trimmed non-empty lines and the incomplete rest.\<close>

fun take_lines :: "string \<Rightarrow> string \<Rightarrow> string list \<times> string" where
  "take_lines acc [] = ([], acc)"
| "take_lines acc (c # cs) =
     (if c = CHR 0x0A then
        let line = trim acc; (lines, rest) = take_lines [] cs in ((if line = [] then lines else line # lines), rest)
      else take_lines (acc @ [c]) cs)"

definition onData :: "string \<Rightarrow> client \<Rightarrow> string list \<times> client" where
  "onData chunk c =
     (let buf = cl_buf c @ chunk in
      if length buf > 1024 * 16 then ([], c\<lparr>cl_buf := buf, cl_destroyed := True\<rparr>)
      else let (lines, rest) = take_lines [] buf in (lines, c\<lparr>cl_buf := rest\<rparr>))"

definition write_msg :: "wire_msg \<Rightarrow> client \<Rightarrow> wire_msg list" where
  "write_msg m c = (if cl_destroyed c then [] else [m])"

definition pushDifficulty :: "jsnum \<Rightarrow> client \<Rightarrow> wire_msg list \<times> client" where
  "pushDifficulty d c = (write_msg (SetDifficulty d) c, c\<lparr>cl_lastNotifiedDiff := Some d\<rparr>)"

definition wireShareDifficulty :: "jsnum \<Rightarrow> client \<Rightarrow> jsnum" where
  "wireShareDifficulty configured c =
     assignedShareDifficulty configured (map_option (\<lambda>j. networkDifficultyFromBits (jc_bits j)) (cl_lastJob c))"

definition stampJob :: "stratum_job \<Rightarrow> client \<Rightarrow> jsnum res \<times> client" where
  "stampJob job c =
     (let network = networkDifficultyFromBits (jc_bits job);
          d = currentDiff (cl_vardiff c);
          d = (if js_is_finite network \<and> js_lt (Fin 0) network \<and> js_lt network d then network else d)
      in case jsmap_get (cl_jobShareDiff c) (jc_jobId job) of
           Some existing \<Rightarrow> (Inr existing, c)
         | None \<Rightarrow>
             if \<not> js_is_finite d \<or> js_lt d MIN_SHARE_DIFFICULTY
             then (Inl (Error ''job share difficulty is below MIN_SHARE_DIFFICULTY''), c)
             else (Inr d, c\<lparr>cl_jobShareDiff := jsmap_set (jc_jobId job) d (cl_jobShareDiff c)\<rparr>))"

definition hex_field :: "int \<Rightarrow> string" where
  "hex_field n = ''0x'' @ pad_start 8 (CHR ''0'') (hex_of_int n)"

definition pushJob :: "stratum_job \<Rightarrow> client \<Rightarrow> wire_msg list res \<times> client" where
  "pushJob job c =
     (let c = c\<lparr>cl_lastJob := Some job\<rparr>; (r, c) = stampJob job c in
      case r of
        Inl e \<Rightarrow> (Inl e, c)
      | Inr assigned \<Rightarrow>
          let (ms, c) = (case cl_lastNotifiedDiff c of
                Some d \<Rightarrow> if js_num_eq d assigned then ([], c) else pushDifficulty assigned c
              | None \<Rightarrow> pushDifficulty assigned c)
          in (Inr (ms @ write_msg (NotifyMsg (jc_jobId job) (jc_prevHashHexBE job) (jc_coinb1Hex job) (jc_coinb2Hex job)
               (jc_merkleBranchesHexBE job) (hex_field (jc_version job)) (hex_field (jc_bits job))
               (hex_field (sj_ntimeRoll job)) (sj_cleanJobs job)) c), c))"

end
