(* ===== verification/Passports.thy ===== *)
theory Passports
  imports Js_String
begin

text \<open>
  Device slots (\<^verbatim>\<open>lib/passports.ts\<close>): each account owns numbered slots, and an empty slot can be
  locked once to the public key of a mining device. Two stores implement the interface: the
  in-memory one and the PostgreSQL one, whose statements are modelled on the table
  \<^verbatim>\<open>device_slots\<close> with its unique index on \<^verbatim>\<open>pubkey\<close> (migration 007).

  The locale \<open>passport_store\<close> is what the Stratum server relies on; it is interpreted on both
  stores, and the history lemmas are proved once inside it. The set of held slots is a list of ids.
\<close>

section \<open>Definitions\<close>

record passport_slot =
  sl_id :: int
  sl_userId :: int
  sl_slotNo :: int
  sl_pubkey :: "string option"

record passport_table =
  pt_users :: "(string, int) jsmap"
  pt_slots :: "passport_slot list"
  pt_nextId :: int

definition newPassports :: passport_table where
  "newPassports = \<lparr>pt_users = [], pt_slots = [], pt_nextId = 1\<rparr>"

definition addUser :: "string \<Rightarrow> int \<Rightarrow> passport_table \<Rightarrow> passport_table" where
  "addUser email uid t = t\<lparr>pt_users := jsmap_set email uid (pt_users t)\<rparr>"

definition findUserId :: "string \<Rightarrow> passport_table \<Rightarrow> int option" where
  "findUserId email t = jsmap_get (pt_users t) email"

definition findSlotByPubkey :: "string \<Rightarrow> passport_table \<Rightarrow> passport_slot option" where
  "findSlotByPubkey pubkey t = find (\<lambda>s. sl_pubkey s = Some pubkey) (pt_slots t)"

definition reserveEmpty :: "int \<Rightarrow> int list \<Rightarrow> passport_table \<Rightarrow> passport_slot option \<times> int list" where
  "reserveEmpty userId hold t =
     (case sort_key sl_slotNo (filter (\<lambda>s. sl_userId s = userId \<and> sl_pubkey s = None \<and> sl_id s \<notin> set hold) (pt_slots t)) of
        [] \<Rightarrow> (None, hold)
      | slot # _ \<Rightarrow> (Some slot, List.insert (sl_id slot) hold))"

text \<open>Assigning \<^verbatim>\<open>slot.pubkey\<close> of the object with the given id.\<close>

definition set_pubkey :: "int \<Rightarrow> string \<Rightarrow> passport_table \<Rightarrow> passport_table" where
  "set_pubkey i pubkey t = t\<lparr>pt_slots := map (\<lambda>s. if sl_id s = i then s\<lparr>sl_pubkey := Some pubkey\<rparr> else s) (pt_slots t)\<rparr>"

definition lock :: "int \<Rightarrow> string \<Rightarrow> passport_table \<Rightarrow> bool res \<times> passport_table" where
  "lock i pubkey t =
     (case find (\<lambda>s. sl_id s = i) (pt_slots t) of
        None \<Rightarrow> (Inr False, t)
      | Some slot \<Rightarrow>
          if sl_pubkey slot \<noteq> None then (Inr False, t)
          else if \<exists>s \<in> set (pt_slots t). sl_pubkey s = Some pubkey then (Inr False, t)
          else (Inr True, set_pubkey i pubkey t))"

definition addEmpty :: "int \<Rightarrow> passport_table \<Rightarrow> passport_slot \<times> passport_table" where
  "addEmpty userId t =
     (let slotNo = foldl (\<lambda>m s. max m (sl_slotNo s)) 0 (filter (\<lambda>s. sl_userId s = userId) (pt_slots t)) + 1;
          slot = \<lparr>sl_id = pt_nextId t, sl_userId = userId, sl_slotNo = slotNo, sl_pubkey = None\<rparr>
      in (slot, t\<lparr>pt_slots := pt_slots t @ [slot], pt_nextId := pt_nextId t + 1\<rparr>))"

section \<open>The PostgreSQL store\<close>

definition pg_findUserId :: "string \<Rightarrow> passport_table \<Rightarrow> int option" where
  "pg_findUserId email t = (case filter (\<lambda>(e, _). e = email) (pt_users t) of [] \<Rightarrow> None | (_, i) # _ \<Rightarrow> Some i)"

definition pg_findSlotByPubkey :: "string \<Rightarrow> passport_table \<Rightarrow> passport_slot option" where
  "pg_findSlotByPubkey pubkey t =
     (case filter (\<lambda>s. sl_pubkey s = Some pubkey) (pt_slots t) of [] \<Rightarrow> None | r # _ \<Rightarrow> Some r)"

definition pg_reserveEmpty :: "int \<Rightarrow> int list \<Rightarrow> passport_table \<Rightarrow> passport_slot option \<times> int list" where
  "pg_reserveEmpty userId hold t =
     (let rows = sort_key sl_slotNo (filter (\<lambda>s. sl_userId s = userId \<and> sl_pubkey s = None) (pt_slots t)) in
      case find (\<lambda>r. sl_id r \<notin> set hold) rows of
        None \<Rightarrow> (None, hold)
      | Some row \<Rightarrow> (Some row, List.insert (sl_id row) hold))"

text \<open>The conditional \<^verbatim>\<open>UPDATE\<close>; a second row with the same key violates the unique index and throws.\<close>

definition pg_lock :: "int \<Rightarrow> string \<Rightarrow> passport_table \<Rightarrow> bool res \<times> passport_table" where
  "pg_lock i pubkey t =
     (let rows = filter (\<lambda>s. sl_id s = i \<and> sl_pubkey s = None) (pt_slots t) in
      if rows = [] then (Inr False, t)
      else if \<exists>s \<in> set (pt_slots t). sl_pubkey s = Some pubkey
      then (Inl (Error ''duplicate key value violates unique constraint''), t)
      else (Inr True, set_pubkey i pubkey t))"

definition pg_addEmpty :: "int \<Rightarrow> passport_table \<Rightarrow> passport_slot \<times> passport_table" where
  "pg_addEmpty userId t =
     (let nos = map sl_slotNo (filter (\<lambda>s. sl_userId s = userId) (pt_slots t));
          slotNo = (if nos = [] then 0 else Max (set nos)) + 1;
          slot = \<lparr>sl_id = pt_nextId t, sl_userId = userId, sl_slotNo = slotNo, sl_pubkey = None\<rparr>
      in (slot, t\<lparr>pt_slots := pt_slots t @ [slot], pt_nextId := pt_nextId t + 1\<rparr>))"

section \<open>The interface\<close>

text \<open>Well-formed tables: ids are distinct and below the next one, and no key is in two slots.\<close>

definition slots_ok :: "passport_table \<Rightarrow> bool" where
  "slots_ok t \<longleftrightarrow> distinct (map sl_id (pt_slots t)) \<and> (\<forall>s \<in> set (pt_slots t). sl_id s < pt_nextId t) \<and>
     (\<forall>s \<in> set (pt_slots t). \<forall>s' \<in> set (pt_slots t). sl_pubkey s \<noteq> None \<and> sl_pubkey s = sl_pubkey s' \<longrightarrow> s = s')"

text \<open>A history of locks and additions.\<close>

datatype store_op = LockOp int string | AddOp int

fun run_op ::
  "(int \<Rightarrow> string \<Rightarrow> passport_table \<Rightarrow> bool res \<times> passport_table) \<Rightarrow> (int \<Rightarrow> passport_table \<Rightarrow> passport_slot \<times> passport_table) \<Rightarrow>
   store_op \<Rightarrow> passport_table \<Rightarrow> passport_table" where
  "run_op lk add (LockOp i k) t = snd (lk i k t)"
| "run_op lk add (AddOp u) t = snd (add u t)"

definition run_ops ::
  "(int \<Rightarrow> string \<Rightarrow> passport_table \<Rightarrow> bool res \<times> passport_table) \<Rightarrow> (int \<Rightarrow> passport_table \<Rightarrow> passport_slot \<times> passport_table) \<Rightarrow>
   store_op list \<Rightarrow> passport_table \<Rightarrow> passport_table" where
  "run_ops lk add ops t = fold (run_op lk add) ops t"

locale passport_store =
  fixes find_key :: "string \<Rightarrow> passport_table \<Rightarrow> passport_slot option"
    and reserve :: "int \<Rightarrow> int list \<Rightarrow> passport_table \<Rightarrow> passport_slot option \<times> int list"
    and lock_slot :: "int \<Rightarrow> string \<Rightarrow> passport_table \<Rightarrow> bool res \<times> passport_table"
    and add_slot :: "int \<Rightarrow> passport_table \<Rightarrow> passport_slot \<times> passport_table"
  assumes find_key: "slots_ok t \<Longrightarrow> find_key k t = Some s \<longleftrightarrow> s \<in> set (pt_slots t) \<and> sl_pubkey s = Some k"
    and reserve_Some: "reserve u hold t = (Some s, hold') \<Longrightarrow> s \<in> set (pt_slots t) \<and> sl_userId s = u \<and>
      sl_pubkey s = None \<and> sl_id s \<notin> set hold \<and> set hold' = insert (sl_id s) (set hold) \<and>
      (\<forall>x \<in> set (pt_slots t). sl_userId x = u \<and> sl_pubkey x = None \<and> sl_id x \<notin> set hold \<longrightarrow> sl_slotNo s \<le> sl_slotNo x)"
    and reserve_None: "reserve u hold t = (None, hold') \<Longrightarrow> hold' = hold \<and>
      (\<forall>x \<in> set (pt_slots t). sl_userId x = u \<longrightarrow> sl_pubkey x = None \<longrightarrow> sl_id x \<in> set hold)"
    and lock_True: "slots_ok t \<Longrightarrow> lock_slot i k t = (Inr True, t') \<Longrightarrow>
      t' = set_pubkey i k t \<and> (\<exists>s \<in> set (pt_slots t). sl_id s = i \<and> sl_pubkey s = None) \<and>
      (\<forall>s \<in> set (pt_slots t). sl_pubkey s \<noteq> Some k)"
    and lock_refused: "lock_slot i k t = (r, t') \<Longrightarrow> r \<noteq> Inr True \<Longrightarrow> t' = t"
    and lock_total: "slots_ok t \<Longrightarrow> (\<exists>s \<in> set (pt_slots t). sl_id s = i \<and> sl_pubkey s = None) \<Longrightarrow>
      (\<forall>s \<in> set (pt_slots t). sl_pubkey s \<noteq> Some k) \<Longrightarrow> fst (lock_slot i k t) = Inr True"
    and add_fresh: "add_slot u t = (s, t') \<Longrightarrow> pt_slots t' = pt_slots t @ [s] \<and> sl_id s = pt_nextId t \<and>
      pt_nextId t' = pt_nextId t + 1 \<and> sl_userId s = u \<and> sl_pubkey s = None"
begin

lemma lock_ok:
  assumes ok: "slots_ok t" and l: "lock_slot i k t = (r, t')"
  shows "slots_ok t' \<and> {s \<in> set (pt_slots t). sl_pubkey s \<noteq> None} \<subseteq> set (pt_slots t')"
proof (cases "r = Inr True")
  case True
  have t': "t' = set_pubkey i k t" and free: "\<exists>s \<in> set (pt_slots t). sl_id s = i \<and> sl_pubkey s = None"
    and new: "\<forall>s \<in> set (pt_slots t). sl_pubkey s \<noteq> Some k" using lock_True [OF ok] l True by auto
  let ?f = "\<lambda>s. if sl_id s = i then s\<lparr>sl_pubkey := Some k\<rparr> else s"
  have uniq: "x = y" if "x \<in> set (pt_slots t)" "y \<in> set (pt_slots t)" "sl_id x = sl_id y" for x y
    using ok that by (auto simp: slots_ok_def distinct_map inj_on_def)
  have keys: "?f x = ?f y" if "x \<in> set (pt_slots t)" "y \<in> set (pt_slots t)" "sl_pubkey (?f x) \<noteq> None"
    "sl_pubkey (?f x) = sl_pubkey (?f y)" for x y
  proof (cases "sl_id x = i")
    case True
    with that new have "sl_id y = i" by (cases "sl_id y = i") auto
    with True that uniq show ?thesis by metis
  next
    case False
    with that new have "sl_id y \<noteq> i" by (cases "sl_id y = i") auto
    with False that ok show ?thesis by (simp add: slots_ok_def)
  qed
  have "slots_ok t'" unfolding slots_ok_def
  proof (intro conjI)
    have "map sl_id (pt_slots t') = map sl_id (pt_slots t)" by (simp add: t' set_pubkey_def)
    then show "distinct (map sl_id (pt_slots t'))" using ok by (simp only: slots_ok_def)
    show "\<forall>s \<in> set (pt_slots t'). sl_id s < pt_nextId t'" using ok by (auto simp: slots_ok_def t' set_pubkey_def)
    show "\<forall>x \<in> set (pt_slots t'). \<forall>y \<in> set (pt_slots t'). sl_pubkey x \<noteq> None \<and> sl_pubkey x = sl_pubkey y \<longrightarrow> x = y"
    proof (intro ballI impI)
      fix x y assume xy: "x \<in> set (pt_slots t')" "y \<in> set (pt_slots t')" "sl_pubkey x \<noteq> None \<and> sl_pubkey x = sl_pubkey y"
      have img: "set (pt_slots t') = ?f ` set (pt_slots t)" by (simp add: t' set_pubkey_def)
      obtain a b where "x = ?f a" "a \<in> set (pt_slots t)" "y = ?f b" "b \<in> set (pt_slots t)"
        using xy(1,2) unfolding img by blast
      with keys [of a b] xy(3) show "x = y" by argo
    qed
  qed
  moreover have "x \<in> set (pt_slots t')" if "x \<in> set (pt_slots t)" "sl_pubkey x \<noteq> None" for x
  proof -
    have "sl_id x \<noteq> i" using that free uniq by fastforce
    then show ?thesis using that by (auto simp: t' set_pubkey_def image_iff intro!: bexI [of _ x])
  qed
  ultimately show ?thesis by auto
qed (use lock_refused [OF l] ok in auto)

lemma add_ok:
  assumes "slots_ok t" and "add_slot u t = (s, t')"
  shows "slots_ok t' \<and> {s \<in> set (pt_slots t). sl_pubkey s \<noteq> None} \<subseteq> set (pt_slots t')"
  using add_fresh [OF assms(2)] assms(1) by (fastforce simp: slots_ok_def)

lemma run_ops_ok:
  "slots_ok t \<Longrightarrow> slots_ok (run_ops lock_slot add_slot ops t) \<and>
   {s \<in> set (pt_slots t). sl_pubkey s \<noteq> None} \<subseteq> set (pt_slots (run_ops lock_slot add_slot ops t))"
proof (induction ops arbitrary: t)
  case (Cons op ops)
  have "slots_ok (run_op lock_slot add_slot op t) \<and>
    {s \<in> set (pt_slots t). sl_pubkey s \<noteq> None} \<subseteq> set (pt_slots (run_op lock_slot add_slot op t))"
  proof (cases op)
    case (LockOp i k)
    then show ?thesis using lock_ok [OF Cons.prems surjective_pairing, of i k] by simp
  next
    case (AddOp u)
    then show ?thesis using add_ok [OF Cons.prems surjective_pairing, of u] by simp
  qed
  then show ?case using Cons.IH [of "run_op lock_slot add_slot op t"] by (auto simp: run_ops_def)
qed (simp add: run_ops_def)

text \<open>Once a key is in a slot, every later lookup of the key finds that slot, unchanged.\<close>

lemma key_stays:
  assumes "find_key k (run_ops lock_slot add_slot ops newPassports) = Some s"
  shows "find_key k (run_ops lock_slot add_slot (ops @ ops') newPassports) = Some s"
proof -
  have new: "slots_ok newPassports" by (simp add: slots_ok_def newPassports_def)
  let ?t = "run_ops lock_slot add_slot ops newPassports"
  have ok: "slots_ok ?t" using run_ops_ok [OF new] by blast
  have "run_ops lock_slot add_slot (ops @ ops') newPassports = run_ops lock_slot add_slot ops' ?t"
    by (simp add: run_ops_def)
  moreover have "s \<in> set (pt_slots ?t)" "sl_pubkey s = Some k" using find_key [OF ok] assms by auto
  ultimately show ?thesis using run_ops_ok [OF ok, of ops'] find_key by auto
qed

end

section \<open>Both stores implement it\<close>

lemma find_mem: "find P xs = Some x \<Longrightarrow> x \<in> set xs \<and> P x"
  by (auto simp: find_Some_iff)

lemma find_unique:
  assumes "\<And>x y. x \<in> set xs \<Longrightarrow> y \<in> set xs \<Longrightarrow> P x \<Longrightarrow> P y \<Longrightarrow> x = y"
  shows "find P xs = Some x \<longleftrightarrow> x \<in> set xs \<and> P x"
  using assms by (induction xs) auto

lemma filter_head: "(case filter P xs of [] \<Rightarrow> None | x # _ \<Rightarrow> Some x) = find P xs"
  by (induction xs) auto

lemma slots_ok_key: "slots_ok t \<Longrightarrow> x \<in> set (pt_slots t) \<Longrightarrow> y \<in> set (pt_slots t) \<Longrightarrow>
  sl_pubkey x = Some k \<Longrightarrow> sl_pubkey y = Some k \<Longrightarrow> x = y"
  by (auto simp: slots_ok_def)

lemma slots_ok_id: "slots_ok t \<Longrightarrow> x \<in> set (pt_slots t) \<Longrightarrow> y \<in> set (pt_slots t) \<Longrightarrow> sl_id x = sl_id y \<Longrightarrow> x = y"
  by (auto simp: slots_ok_def distinct_map inj_on_def)

lemma sorted_head:
  assumes "sort_key f xs = x # ys"
  shows "x \<in> set xs \<and> (\<forall>y \<in> set xs. f x \<le> f y)"
proof -
  have "sorted (map f (x # ys))" "set (x # ys) = set xs"
    using sorted_sort_key [of f xs] set_sort [of f xs] unfolding assms by simp_all
  then show ?thesis by auto
qed

interpretation memory: passport_store findSlotByPubkey reserveEmpty lock addEmpty
proof
  fix t :: passport_table and k s assume "slots_ok t"
  then show "findSlotByPubkey k t = Some s \<longleftrightarrow> s \<in> set (pt_slots t) \<and> sl_pubkey s = Some k"
    unfolding findSlotByPubkey_def by (intro find_unique) (auto dest: slots_ok_key)
next
  fix u hold s hold' and t :: passport_table
  let ?f = "filter (\<lambda>s. sl_userId s = u \<and> sl_pubkey s = None \<and> sl_id s \<notin> set hold) (pt_slots t)"
  show "s \<in> set (pt_slots t) \<and> sl_userId s = u \<and> sl_pubkey s = None \<and> sl_id s \<notin> set hold \<and>
      set hold' = insert (sl_id s) (set hold) \<and>
      (\<forall>x \<in> set (pt_slots t). sl_userId x = u \<and> sl_pubkey x = None \<and> sl_id x \<notin> set hold \<longrightarrow> sl_slotNo s \<le> sl_slotNo x)"
    if "reserveEmpty u hold t = (Some s, hold')"
    using that sorted_head [of sl_slotNo ?f s] by (auto simp: reserveEmpty_def split: list.splits)
  show "hold' = hold \<and> (\<forall>x \<in> set (pt_slots t). sl_userId x = u \<longrightarrow> sl_pubkey x = None \<longrightarrow> sl_id x \<in> set hold)"
    if "reserveEmpty u hold t = (None, hold')"
  proof -
    have "sort_key sl_slotNo ?f = []" "hold' = hold" using that by (auto simp: reserveEmpty_def split: list.splits)
    moreover have "set (sort_key sl_slotNo ?f) = set ?f" by (rule set_sort)
    ultimately show ?thesis by auto
  qed
next
  fix t t' :: passport_table and i k r
  show "slots_ok t \<Longrightarrow> lock i k t = (Inr True, t') \<Longrightarrow> t' = set_pubkey i k t \<and>
      (\<exists>s \<in> set (pt_slots t). sl_id s = i \<and> sl_pubkey s = None) \<and> (\<forall>s \<in> set (pt_slots t). sl_pubkey s \<noteq> Some k)"
    by (auto simp: lock_def split: option.splits if_splits dest!: find_mem)
  show "lock i k t = (r, t') \<Longrightarrow> r \<noteq> Inr True \<Longrightarrow> t' = t"
    by (auto simp: lock_def split: option.splits if_splits)
  show "fst (lock i k t) = Inr True"
    if ok: "slots_ok t" and free: "\<exists>s \<in> set (pt_slots t). sl_id s = i \<and> sl_pubkey s = None"
      and new: "\<forall>s \<in> set (pt_slots t). sl_pubkey s \<noteq> Some k"
  proof -
    obtain s where s: "s \<in> set (pt_slots t)" "sl_id s = i" "sl_pubkey s = None" using free by auto
    then have "find (\<lambda>s. sl_id s = i) (pt_slots t) = Some s"
      using find_unique [of "pt_slots t" "\<lambda>s. sl_id s = i" s] slots_ok_id [OF ok] by auto
    then show ?thesis using s new by (auto simp: lock_def)
  qed
next
  fix u t s t' assume "addEmpty u t = (s, t')"
  then show "pt_slots t' = pt_slots t @ [s] \<and> sl_id s = pt_nextId t \<and> pt_nextId t' = pt_nextId t + 1 \<and>
      sl_userId s = u \<and> sl_pubkey s = None" by (auto simp: addEmpty_def Let_def)
qed

lemma pg_findSlotByPubkey_eq: "pg_findSlotByPubkey = findSlotByPubkey"
  by (simp add: fun_eq_iff pg_findSlotByPubkey_def findSlotByPubkey_def filter_head)

lemma pg_reserveEmpty_eq: "pg_reserveEmpty = reserveEmpty"
proof (intro ext)
  fix u hold and t :: passport_table
  let ?q = "\<lambda>s. sl_userId s = u \<and> sl_pubkey s = None"
  have "filter (\<lambda>r. sl_id r \<notin> set hold) (sort_key sl_slotNo (filter ?q (pt_slots t))) =
    sort_key sl_slotNo (filter (\<lambda>s. sl_userId s = u \<and> sl_pubkey s = None \<and> sl_id s \<notin> set hold) (pt_slots t))"
    by (simp add: filter_sort)
  then show "pg_reserveEmpty u hold t = reserveEmpty u hold t"
    unfolding pg_reserveEmpty_def reserveEmpty_def Let_def filter_head [symmetric] by (auto split: list.splits)
qed

interpretation pg: passport_store pg_findSlotByPubkey pg_reserveEmpty pg_lock pg_addEmpty
  unfolding pg_findSlotByPubkey_eq pg_reserveEmpty_eq
proof (unfold_locales, fact memory.find_key, fact memory.reserve_Some, fact memory.reserve_None)
  fix t t' :: passport_table and i k r
  show "slots_ok t \<Longrightarrow> pg_lock i k t = (Inr True, t') \<Longrightarrow> t' = set_pubkey i k t \<and>
      (\<exists>s \<in> set (pt_slots t). sl_id s = i \<and> sl_pubkey s = None) \<and> (\<forall>s \<in> set (pt_slots t). sl_pubkey s \<noteq> Some k)"
    by (auto simp: pg_lock_def Let_def filter_empty_conv split: if_splits)
  show "pg_lock i k t = (r, t') \<Longrightarrow> r \<noteq> Inr True \<Longrightarrow> t' = t"
    by (auto simp: pg_lock_def Let_def split: if_splits)
  show "\<exists>s \<in> set (pt_slots t). sl_id s = i \<and> sl_pubkey s = None \<Longrightarrow> \<forall>s \<in> set (pt_slots t). sl_pubkey s \<noteq> Some k \<Longrightarrow>
      fst (pg_lock i k t) = Inr True"
    by (auto simp: pg_lock_def Let_def filter_empty_conv)
next
  fix u t s t' assume "pg_addEmpty u t = (s, t')"
  then show "pt_slots t' = pt_slots t @ [s] \<and> sl_id s = pt_nextId t \<and> pt_nextId t' = pt_nextId t + 1 \<and>
      sl_userId s = u \<and> sl_pubkey s = None" by (auto simp: pg_addEmpty_def Let_def)
qed

section \<open>Properties\<close>

text \<open>
  C28: In both stores a device key, once locked into a slot, stays there: after any history of
  locks and additions from an empty store, a lookup that found a slot for the key finds the same,
  unchanged slot after any further operations, so no key is ever in two slots and no locked slot
  changes its key or owner.
\<close>
theorem device_key_bound_once:
  "(findSlotByPubkey k (run_ops lock addEmpty ops newPassports) = Some s \<longrightarrow>
      findSlotByPubkey k (run_ops lock addEmpty (ops @ ops') newPassports) = Some s) \<and>
   (pg_findSlotByPubkey k (run_ops pg_lock pg_addEmpty ops newPassports) = Some s' \<longrightarrow>
      pg_findSlotByPubkey k (run_ops pg_lock pg_addEmpty (ops @ ops') newPassports) = Some s')"
  using memory.key_stays pg.key_stays by blast

theorem device_key_bound_once_witness:
  "\<exists>s s'. sl_id s = 1 \<and> sl_id s' = 1 \<and>
     findSlotByPubkey ''ab'' (run_ops lock addEmpty [AddOp 7, AddOp 7, LockOp 1 ''ab'', LockOp 2 ''ab'', LockOp 1 ''cd''] newPassports) = Some s \<and>
     pg_findSlotByPubkey ''ab'' (run_ops pg_lock pg_addEmpty [AddOp 7, AddOp 7, LockOp 1 ''ab'', LockOp 2 ''ab'', LockOp 1 ''cd''] newPassports) = Some s'"
proof -
  let ?s = "\<lparr>sl_id = 1, sl_userId = 7, sl_slotNo = 1, sl_pubkey = Some ''ab''\<rparr>"
  have "findSlotByPubkey ''ab'' (run_ops lock addEmpty [AddOp 7, AddOp 7, LockOp 1 ''ab''] newPassports) = Some ?s"
    "pg_findSlotByPubkey ''ab'' (run_ops pg_lock pg_addEmpty [AddOp 7, AddOp 7, LockOp 1 ''ab''] newPassports) = Some ?s"
    by code_simp+
  then show ?thesis
    using device_key_bound_once [of "''ab''" "[AddOp 7, AddOp 7, LockOp 1 ''ab'']" ?s "[LockOp 2 ''ab'', LockOp 1 ''cd'']" ?s]
    by simp
qed

end
