(* ===== verification/Stratum_Server.thy ===== *)
theory Stratum_Server
  imports Stratum_Client Passports
begin

text \<open>
  The Stratum V1 server (\<^verbatim>\<open>stratum/server.ts\<close>): one definition per handler, from a client and the
  server state to the new ones and the list of effects (messages written, events sent to the pool
  daemon, blocks submitted). A handler runs to completion; what an \<^verbatim>\<open>await\<close> returns is computed
  from the state at the call. \<^verbatim>\<open>Date.now()\<close>, \<^verbatim>\<open>randomBytes\<close>, \<^verbatim>\<open>submitBlock\<close>, SHA-256, BLAKE3 and P-256 are
  fields of the environment, and the passport store is the record of its operations.
\<close>

section \<open>State, environment and effects\<close>

datatype attest_result = SigValid | SigInvalid | SigMissing

record share_attest =
  sa_jobId :: string
  sa_nonce :: string
  sa_pubkey :: "string option"
  sa_signature :: "string option"
  sa_result :: attest_result

record share_event =
  se_user :: string
  se_workerName :: string
  se_diff :: jsnum
  se_isBlock :: bool
  se_blockHash :: "string option"
  se_blockHeight :: "int option"
  se_networkDifficulty :: jsnum
  se_timestampMs :: int
  se_attest :: "share_attest option"

record share_sig_event =
  sg_user :: string
  sg_workerName :: string
  sg_timestampMs :: int
  sg_attest :: share_attest

record reject_event =
  re_user :: string
  re_workerName :: string
  re_reason :: reject_reason
  re_diff :: jsnum
  re_timestampMs :: int

datatype srv_effect =
  Send int wire_msg
| IpcShare share_event
| IpcSig share_sig_event
| IpcReject reject_event
| SubmitBlock string

record passport_ops =
  po_findUserId :: "string \<Rightarrow> passport_table \<Rightarrow> int option res"
  po_findSlotByPubkey :: "string \<Rightarrow> passport_table \<Rightarrow> passport_slot option"
  po_reserveEmpty :: "int \<Rightarrow> int list \<Rightarrow> passport_table \<Rightarrow> passport_slot option \<times> int list"
  po_lock :: "int \<Rightarrow> string \<Rightarrow> passport_table \<Rightarrow> bool res \<times> passport_table"

definition memory_ops :: passport_ops where
  "memory_ops = \<lparr>po_findUserId = (\<lambda>e t. Inr (findUserId e t)), po_findSlotByPubkey = findSlotByPubkey,
     po_reserveEmpty = reserveEmpty, po_lock = lock\<rparr>"

definition pg_ops :: passport_ops where
  "pg_ops = \<lparr>po_findUserId = (\<lambda>e t. Inr (pg_findUserId e t)), po_findSlotByPubkey = pg_findSlotByPubkey,
     po_reserveEmpty = pg_reserveEmpty, po_lock = pg_lock\<rparr>"

record server_env =
  en_sha :: "bytes \<Rightarrow> bytes"
  en_b3 :: "bytes \<Rightarrow> nat \<Rightarrow> bytes"
  en_verify :: "bytes \<Rightarrow> bytes \<Rightarrow> bytes \<Rightarrow> bytes \<Rightarrow> bool option"
  en_submitBlock :: "string \<Rightarrow> string option res"
  en_passports :: passport_ops
  en_workerDifficulty :: "(string, jsnum) jsmap"
  en_now :: int
  en_random :: bytes

record server =
  sv_clients :: "(int, client) jsmap"
  sv_heldSlots :: "int list"
  sv_signatureLog :: "share_sig_event list"
  sv_recordSignatures :: bool
  sv_passports :: passport_table
  sv_jobs :: job_manager
  sv_pads :: pad_cache

type_synonym handled = "srv_effect list \<times> client \<times> server"

section \<open>Replies and events\<close>

definition send :: "wire_msg \<Rightarrow> client \<Rightarrow> srv_effect list" where
  "send m c = map (Send (cl_connId c)) (write_msg m c)"

definition sendReject :: "server_env \<Rightarrow> string \<Rightarrow> client \<Rightarrow> srv_effect list" where
  "sendReject env reason c =
     (if cl_username c = [] then []
      else let (user, worker) = splitUserName (cl_username c) in
        [IpcReject \<lparr>re_user = user, re_workerName = worker, re_reason = normalizeRejectReason reason,
           re_diff = currentDiff (cl_vardiff c), re_timestampMs = en_now env\<rparr>])"

definition count_reject :: "client \<Rightarrow> client" where
  "count_reject c = c\<lparr>cl_sharesRejected := cl_sharesRejected c + 1\<rparr>"

definition shareAttest ::
  "server_env \<Rightarrow> client \<Rightarrow> string \<Rightarrow> string \<Rightarrow> int \<Rightarrow> int \<Rightarrow> string option \<Rightarrow> share_attest" where
  "shareAttest env c jobId en2 ntime nonce sigAny =
     (let signature = (case sigAny of None \<Rightarrow> None | Some v \<Rightarrow> if v = [] then None else Some (to_lower v));
          result = (case signature of
              None \<Rightarrow> SigMissing
            | Some sig \<Rightarrow>
                let digest = shareDigest (en_sha env) jobId en2 ntime nonce in
                case cl_pubkey c of
                  Some k \<Rightarrow> if k \<noteq> [] \<and> verifyP256Digest (en_verify env) k digest sig then SigValid else SigInvalid
                | None \<Rightarrow> SigInvalid)
      in \<lparr>sa_jobId = jobId, sa_nonce = nonceHex nonce, sa_pubkey = cl_pubkey c, sa_signature = signature,
          sa_result = result\<rparr>)"

definition recordUncredited :: "server_env \<Rightarrow> share_attest \<Rightarrow> client \<Rightarrow> server \<Rightarrow> srv_effect list \<times> server" where
  "recordUncredited env attest c s =
     (let (user, worker) = splitUserName (cl_username c);
          evt = \<lparr>sg_user = user, sg_workerName = worker, sg_timestampMs = en_now env, sg_attest = attest\<rparr>
      in ([IpcSig evt], if sv_recordSignatures s then s\<lparr>sv_signatureLog := sv_signatureLog s @ [evt]\<rparr> else s))"

definition sendChallenge :: "server_env \<Rightarrow> client \<Rightarrow> srv_effect list \<times> client" where
  "sendChallenge env c =
     (let c = c\<lparr>cl_challenge := Some (en_random env)\<rparr> in (send (ChallengeMsg (bytesToHex (en_random env))) c, c))"

section \<open>Handlers\<close>

definition text_of :: "string option \<Rightarrow> string" where
  "text_of v = (case v of None \<Rightarrow> '''' | Some s \<Rightarrow> s)"

definition param :: "string option list \<Rightarrow> nat \<Rightarrow> string option" where
  "param p i = (if i < length p then p ! i else None)"

definition onSubscribe :: "rpc_id \<Rightarrow> string option list \<Rightarrow> client \<Rightarrow> server \<Rightarrow> handled" where
  "onSubscribe rid p c s =
     (let c = c\<lparr>cl_userAgent := text_of (param p 0), cl_state := Subscribed\<rparr>;
          subId = ''b3chain-'' @ hex_of_int (cl_connId c)
      in (send (ResultMsg rid (RSubscribe subId (cl_extranonce1Hex c) (cl_extranonce2Size c))) c, c, s))"

text \<open>A handler that may throw returns the exception beside what it did before.\<close>

type_synonym handled_async = "handled \<times> js_error option"

definition onAuthorize :: "server_env \<Rightarrow> rpc_id \<Rightarrow> string option list \<Rightarrow> client \<Rightarrow> server \<Rightarrow> handled_async" where
  "onAuthorize env rid p c s =
     (let username = trim (text_of (param p 0)) in
      if username = [] then ((send (ResultMsg rid (RBool False)) c, c, s), None)
      else
        let c = c\<lparr>cl_username := username, cl_state := Authorized, cl_authorizedAt := en_now env\<rparr>;
            email = fst (splitUserName username);
            c = (case po_findUserId (en_passports env) email (sv_passports s) of
                   Inl _ \<Rightarrow> c\<lparr>cl_userId := None\<rparr>
                 | Inr u \<Rightarrow> c\<lparr>cl_userId := u\<rparr>);
            (r, vd) = (case jsmap_get (en_workerDifficulty env) username of
                   Some pinned \<Rightarrow> setDiff pinned (en_now env) (cl_vardiff c)
                 | None \<Rightarrow> (Inr (currentDiff (cl_vardiff c)), cl_vardiff c));
            c = c\<lparr>cl_vardiff := vd\<rparr>
        in case r of
             Inl e \<Rightarrow> (([], c, s), Some e)
           | Inr _ \<Rightarrow>
               let out = send (ResultMsg rid (RBool True)) c in
               (case getCurrent (sv_jobs s) of
                  None \<Rightarrow> ((out, c, s), None)
                | Some job \<Rightarrow>
                    let (ms, c') = pushJob job c in
                    case ms of
                      Inl e \<Rightarrow> ((out, c', s), Some e)
                    | Inr ms \<Rightarrow> ((out @ map (Send (cl_connId c)) ms, c', s), None)))"

definition onPubkey :: "server_env \<Rightarrow> rpc_id \<Rightarrow> string option list \<Rightarrow> client \<Rightarrow> server \<Rightarrow> handled" where
  "onPubkey env rid p c s =
     (if cl_state c \<noteq> Authorized \<or> cl_username c = [] then (send (ErrorMsg rid 24 ''Unauthorized worker'') c, c, s)
      else
        let hex = to_lower (text_of (param p 0)) in
        if \<not> is_hex128 hex then (send (ErrorMsg rid 23 ''bad public key'') c, c, s)
        else
          let c = c\<lparr>cl_pubkey := Some hex\<rparr>; ok = send (ResultMsg rid (RBool True)) c in
          case cl_userId c of
            None \<Rightarrow> (ok, c\<lparr>cl_attest := APending\<rparr>, s)
          | Some uid \<Rightarrow>
              (case po_findSlotByPubkey (en_passports env) hex (sv_passports s) of
                 Some existing \<Rightarrow>
                   if sl_userId existing \<noteq> uid then (ok, c\<lparr>cl_attest := AInvalid\<rparr>, s)
                   else let (ch, c) = sendChallenge env (c\<lparr>cl_attest := ANone\<rparr>) in (ok @ ch, c, s)
               | None \<Rightarrow>
                   let (slot, held) = po_reserveEmpty (en_passports env) uid (sv_heldSlots s) (sv_passports s);
                       s = s\<lparr>sv_heldSlots := held\<rparr> in
                   case slot of
                     None \<Rightarrow> (ok, c\<lparr>cl_attest := APending\<rparr>, s)
                   | Some slot \<Rightarrow>
                       let (ch, c) = sendChallenge env (c\<lparr>cl_reservedSlotId := Some (sl_id slot), cl_attest := ANone\<rparr>)
                       in (ok @ ch, c, s)))"

definition release_slot :: "client \<Rightarrow> server \<Rightarrow> client \<times> server" where
  "release_slot c s = (case cl_reservedSlotId c of
     None \<Rightarrow> (c, s)
   | Some i \<Rightarrow> (c\<lparr>cl_reservedSlotId := None\<rparr>, s\<lparr>sv_heldSlots := removeAll i (sv_heldSlots s)\<rparr>))"

definition onAttest :: "server_env \<Rightarrow> rpc_id \<Rightarrow> string option list \<Rightarrow> client \<Rightarrow> server \<Rightarrow> handled_async" where
  "onAttest env rid p c s =
     (let sigHex = to_lower (text_of (param p 0));
          challenge = cl_challenge c;
          c = c\<lparr>cl_challenge := None\<rparr>;
          ok = (case (challenge, cl_pubkey c) of
                  (Some ch, Some k) \<Rightarrow> k \<noteq> [] \<and> verifyP256Digest (en_verify env) k ch sigHex
                | _ \<Rightarrow> False)
      in if \<not> ok then
           let (c, s) = release_slot c s; c = c\<lparr>cl_attest := AInvalid\<rparr>
           in ((send (ResultMsg rid (RBool False)) c, c, s), None)
         else case cl_reservedSlotId c of
             None \<Rightarrow> let c = c\<lparr>cl_attest := AValid\<rparr> in ((send (ResultMsg rid (RBool True)) c, c, s), None)
           | Some slotId \<Rightarrow>
               let (locked, t) = po_lock (en_passports env) slotId (text_of (cl_pubkey c)) (sv_passports s);
                   s = s\<lparr>sv_passports := t\<rparr>
               in case locked of
                    Inl e \<Rightarrow> (([], c, s), Some e)
                  | Inr l \<Rightarrow>
                      let (c, s) = release_slot c s in
                      if \<not> l then let c = c\<lparr>cl_attest := AInvalid\<rparr> in ((send (ResultMsg rid (RBool False)) c, c, s), None)
                      else let c = c\<lparr>cl_attest := AValid\<rparr> in ((send (ResultMsg rid (RBool True)) c, c, s), None))"

text \<open>
  The key \<^verbatim>\<open>jobId:en2:ntime:nonce\<close> of the duplicate check. Numbers print in decimal
  (JavaScript changes to the exponent notation at \<open>10\<^sup>2\<^sup>1\<close>, which is as injective).
\<close>

type_synonym dedup_key = "string \<times> string \<times> int \<times> int"

definition show_key :: "dedup_key \<Rightarrow> string" where
  "show_key k = (case k of (jobId, en2, ntime, nonce) \<Rightarrow>
     jobId @ '':'' @ en2 @ '':'' @ dec_of_int ntime @ '':'' @ dec_of_int nonce)"

text \<open>\<^verbatim>\<open>parseInt(s, 16)\<close> with the check \<^verbatim>\<open>Number.isFinite\<close>; a finite value is an integer.\<close>

definition finite_int :: "jsnum \<Rightarrow> int option" where
  "finite_int n = (case n of Fin x \<Rightarrow> Some \<lfloor>x\<rfloor> | _ \<Rightarrow> None)"

text \<open>Adding to \<^verbatim>\<open>seenShares\<close>; above 50,000 entries the 10,000 oldest are dropped.\<close>

definition remember_share :: "string \<Rightarrow> client \<Rightarrow> client" where
  "remember_share key c =
     (let seen = (if key \<in> set (cl_seenShares c) then cl_seenShares c else cl_seenShares c @ [key])
      in c\<lparr>cl_seenShares := (if length seen > 50000 then drop 10000 seen else seen)\<rparr>)"

text \<open>The difficulty stamped on the job for this connection.\<close>

definition assigned_diff :: "client \<Rightarrow> string \<Rightarrow> jsnum" where
  "assigned_diff c jobId =
     (case jsmap_get (cl_jobShareDiff c) jobId of Some d \<Rightarrow> d | None \<Rightarrow> currentDiff (cl_vardiff c))"

definition reason_text :: "share_reason \<Rightarrow> string" where
  "reason_text r = (case r of Stale \<Rightarrow> ''stale'' | Duplicate \<Rightarrow> ''duplicate'' | LowDiff \<Rightarrow> ''low-diff'' | Invalid \<Rightarrow> ''invalid'')"

text \<open>The part of \<^verbatim>\<open>onSubmit\<close> after a share passed validation.\<close>

definition creditShare ::
  "server_env \<Rightarrow> rpc_id \<Rightarrow> stratum_job \<Rightarrow> share_attest \<Rightarrow> jsnum \<Rightarrow> share_ok \<Rightarrow> client \<Rightarrow> server \<Rightarrow> handled" where
  "creditShare env rid job attest assigned check c s =
     (let c = (if so_meetsShare check
               then c\<lparr>cl_sharesAccepted := cl_sharesAccepted c + 1, cl_vardiff := onShareAccepted (cl_vardiff c)\<rparr> else c);
          c = c\<lparr>cl_lastShareAt := en_now env\<rparr>;
          out = send (ResultMsg rid (RBool True)) c;
          (emailPart, workerPart) = splitUserName (cl_username c);
          networkDifficulty = networkDifficultyFromBits (jc_bits job);
          (sub, blockHash, blockHeight) =
            (case (so_isBlock check, so_serializedBlockHex check) of
               (True, Some blk) \<Rightarrow>
                 (case en_submitBlock env blk of
                    Inr None \<Rightarrow> ([SubmitBlock blk], Some (so_blockHashHexBE check), Some (jc_height job))
                  | Inr (Some r) \<Rightarrow> if r = [] then ([SubmitBlock blk], Some (so_blockHashHexBE check), Some (jc_height job))
                                   else ([SubmitBlock blk], None, None)
                  | Inl _ \<Rightarrow> ([SubmitBlock blk], None, None))
             | _ \<Rightarrow> ([], None, None));
          evt = \<lparr>se_user = emailPart, se_workerName = workerPart,
                 se_diff = (if so_meetsShare check then assigned else networkDifficulty),
                 se_isBlock = blockHash \<noteq> None, se_blockHash = blockHash, se_blockHeight = blockHeight,
                 se_networkDifficulty = networkDifficulty, se_timestampMs = en_now env, se_attest = Some attest\<rparr>
      in (out @ sub @ [IpcShare evt], c, s))"

definition onSubmit :: "server_env \<Rightarrow> rpc_id \<Rightarrow> string option list \<Rightarrow> client \<Rightarrow> server \<Rightarrow> handled_async" where
  "onSubmit env rid p c s =
     (if cl_state c \<noteq> Authorized then
        let c = count_reject c in ((sendReject env ''other'' c @ send (ErrorMsg rid 24 ''Unauthorized worker'') c, c, s), None)
      else
        let jobId = text_of (param p 1);
            en2 = to_lower (text_of (param p 2));
            ntime = finite_int (parse_int16 (text_of (param p 3)));
            nonce = finite_int (parse_int16 (text_of (param p 4)))
        in case (ntime, nonce) of
          (Some ntime, Some nonce) \<Rightarrow>
            if jobId = [] \<or> length en2 \<noteq> cl_extranonce2Size c * 2 then
              let c = count_reject c in ((sendReject env ''other'' c @ send (ErrorMsg rid 23 ''Invalid params'') c, c, s), None)
            else (case getById (sv_jobs s) jobId of
              None \<Rightarrow> let c = count_reject c in ((sendReject env ''other'' c @ send (ResultMsg rid (RBool False)) c, c, s), None)
            | Some job \<Rightarrow>
                let attest = shareAttest env c jobId en2 ntime nonce (param p 5) in
                if sa_result attest \<noteq> SigValid then
                  let (ev, s) = recordUncredited env attest c s; c = count_reject c in
                  ((ev @ sendReject env ''invalid'' c @
                    send (ErrorMsg rid 23 (if sa_result attest = SigMissing then ''signature required'' else ''bad signature'')) c, c, s), None)
                else
                  let dedupKey = show_key (jobId, en2, ntime, nonce) in
                  if dedupKey \<in> set (cl_seenShares c) then
                    let (ev, s) = recordUncredited env attest c s; c = count_reject c in
                    ((ev @ sendReject env ''duplicate'' c @ send (ErrorMsg rid 22 ''Duplicate share'') c, c, s), None)
                  else
                    let c = remember_share dedupKey c;
                        assigned = assigned_diff c jobId;
                        (check, pads) = validateShare (en_b3 env) (en_sha env) (en_now env)
                          \<lparr>si_job = job_context.truncate job, si_extranonce1Hex = cl_extranonce1Hex c, si_extranonce2Hex = en2,
                           si_ntime = ntime, si_nonce = nonce, si_shareDifficulty = assigned\<rparr> (sv_pads s);
                        s = s\<lparr>sv_pads := pads\<rparr>
                    in case check of
                         Inl e \<Rightarrow> (([], c, s), Some e)
                       | Inr (CheckFail reason _) \<Rightarrow>
                           let (ev, s) = recordUncredited env attest c s; c = count_reject c in
                           ((ev @ sendReject env (reason_text reason) c @
                             send (ErrorMsg rid 23 (''low difficulty: '' @ reason_text reason)) c, c, s), None)
                       | Inr (CheckOk ok) \<Rightarrow> (creditShare env rid job attest assigned ok c s, None))
        | _ \<Rightarrow> let c = count_reject c in ((sendReject env ''other'' c @ send (ErrorMsg rid 23 ''Invalid params'') c, c, s), None))"

definition onSuggestDifficulty :: "server_env \<Rightarrow> rpc_id \<Rightarrow> jsnum \<Rightarrow> client \<Rightarrow> server \<Rightarrow> handled" where
  "onSuggestDifficulty env rid want c s =
     (let (r, vd) = setDiff want (en_now env) (cl_vardiff c); c = c\<lparr>cl_vardiff := vd\<rparr> in
      case r of
        Inl e \<Rightarrow> (send (ErrorMsg rid 23 (case e of Error m \<Rightarrow> m | _ \<Rightarrow> '''')) c, c, s)
      | Inr applied \<Rightarrow>
          let (ms, c) = pushDifficulty (wireShareDifficulty applied c) c
          in (map (Send (cl_connId c)) ms @ send (ResultMsg rid (RBool True)) c, c, s))"

datatype rpc_method =
  MSubscribe | MAuthorize | MPubkey | MAttest | MSubmit | MExtranonceSubscribe | MSuggestDifficulty "jsnum option"
| MSuggestTarget | MUnknown string

text \<open>The \<^verbatim>\<open>catch\<close> of \<^verbatim>\<open>handleRpc\<close>.\<close>

definition catch_rpc :: "rpc_id \<Rightarrow> handled_async \<Rightarrow> handled" where
  "catch_rpc rid h = (case h of
     ((out, c, s), None) \<Rightarrow> (out, c, s)
   | ((out, c, s), Some _) \<Rightarrow> (out @ send (ErrorMsg rid (- 32603) ''internal error'') c, c, s))"

text \<open>
  The request is parsed to its id, its method and its parameters; \<^verbatim>\<open>MSuggestDifficulty None\<close> is a
  request without \<^verbatim>\<open>params\<close>, where reading index 0 throws.
\<close>

definition handleRpc :: "server_env \<Rightarrow> rpc_id \<Rightarrow> rpc_method \<Rightarrow> string option list \<Rightarrow> client \<Rightarrow> server \<Rightarrow> handled" where
  "handleRpc env rid m p c s = catch_rpc rid (case m of
       MSubscribe \<Rightarrow> (onSubscribe rid p c s, None)
     | MAuthorize \<Rightarrow> onAuthorize env rid p c s
     | MPubkey \<Rightarrow> (onPubkey env rid p c s, None)
     | MAttest \<Rightarrow> onAttest env rid p c s
     | MSubmit \<Rightarrow> onSubmit env rid p c s
     | MExtranonceSubscribe \<Rightarrow> ((send (ResultMsg rid (RBool True)) c, c, s), None)
     | MSuggestDifficulty None \<Rightarrow> (([], c, s), Some TypeError)
     | MSuggestDifficulty (Some want) \<Rightarrow> (onSuggestDifficulty env rid want c s, None)
     | MSuggestTarget \<Rightarrow> ((send (ErrorMsg rid 23 ''use mining.suggest_difficulty'') c, c, s), None)
     | MUnknown name \<Rightarrow> ((send (ErrorMsg rid (- 3) (''unknown method '' @ name)) c, c, s), None))"

section \<open>Connections, jobs and timers\<close>

definition client_pending :: "int \<Rightarrow> client \<Rightarrow> bool" where
  "client_pending userId c \<longleftrightarrow> cl_state c = Authorized \<and> cl_attest c = APending \<and>
     cl_pubkey c \<noteq> None \<and> cl_pubkey c \<noteq> Some [] \<and> cl_userId c = Some userId"

text \<open>\<^verbatim>\<open>sort\<close> is stable, as is \<open>sort_key\<close>.\<close>

definition slotAdded :: "server_env \<Rightarrow> int \<Rightarrow> server \<Rightarrow> srv_effect list \<times> server" where
  "slotAdded env userId s =
     (case sort_key cl_authorizedAt (filter (client_pending userId) (map snd (sv_clients s))) of
        [] \<Rightarrow> ([], s)
      | c # _ \<Rightarrow>
          let (slot, held) = po_reserveEmpty (en_passports env) userId (sv_heldSlots s) (sv_passports s);
              s = s\<lparr>sv_heldSlots := held\<rparr> in
          case slot of
            None \<Rightarrow> ([], s)
          | Some slot \<Rightarrow>
              let (ch, c) = sendChallenge env (c\<lparr>cl_reservedSlotId := Some (sl_id slot), cl_attest := ANone\<rparr>)
              in (ch, s\<lparr>sv_clients := jsmap_set (cl_connId c) c (sv_clients s)\<rparr>))"

definition onConnection :: "vardiff_params \<Rightarrow> string \<Rightarrow> int \<Rightarrow> client_counters \<Rightarrow> server \<Rightarrow> client_counters \<times> server" where
  "onConnection params ip now k s =
     (let (c, k) = newStratumClient params ip now k in (k, s\<lparr>sv_clients := jsmap_set (cl_connId c) c (sv_clients s)\<rparr>))"

definition onClose :: "int \<Rightarrow> server \<Rightarrow> server" where
  "onClose connId s = (case jsmap_get (sv_clients s) connId of
     None \<Rightarrow> s
   | Some c \<Rightarrow> let (c, s) = release_slot c s in s\<lparr>sv_clients := jsmap_delete connId (sv_clients s)\<rparr>)"

text \<open>The timer that closes a connection which has not subscribed after three minutes.\<close>

definition subscribeTimeout :: "int \<Rightarrow> server \<Rightarrow> server" where
  "subscribeTimeout connId s = (case jsmap_get (sv_clients s) connId of
     None \<Rightarrow> s
   | Some c \<Rightarrow> if cl_state c = New
               then s\<lparr>sv_clients := jsmap_set connId (c\<lparr>cl_destroyed := True\<rparr>) (sv_clients s)\<rparr> else s)"

text \<open>
  \<^verbatim>\<open>broadcastJob\<close> visits the clients in insertion order; an exception of \<^verbatim>\<open>pushJob\<close> ends the loop.
\<close>

fun broadcast_to :: "stratum_job \<Rightarrow> (int, client) jsmap \<Rightarrow> srv_effect list \<times> (int, client) jsmap \<times> js_error option" where
  "broadcast_to job [] = ([], [], None)"
| "broadcast_to job ((i, c) # cs) =
     (if cl_state c \<noteq> Authorized then let (out, cs, e) = broadcast_to job cs in (out, (i, c) # cs, e)
      else case pushJob job c of
          (Inl e, c) \<Rightarrow> ([], (i, c) # cs, Some e)
        | (Inr ms, c) \<Rightarrow> let (out, cs, e) = broadcast_to job cs in (map (Send (cl_connId c)) ms @ out, (i, c) # cs, e))"

definition broadcastJob :: "stratum_job \<Rightarrow> server \<Rightarrow> (srv_effect list \<times> server) \<times> js_error option" where
  "broadcastJob job s =
     (let (out, cs, e) = broadcast_to job (sv_clients s) in ((out, s\<lparr>sv_clients := cs\<rparr>), e))"

definition retuneClient :: "bool \<Rightarrow> int \<Rightarrow> client \<Rightarrow> wire_msg list \<times> client" where
  "retuneClient vardiffEnabled now c =
     (if \<not> vardiffEnabled then ([], c)
      else let (nxt, vd) = maybeRetune now (cl_vardiff c); c = c\<lparr>cl_vardiff := vd\<rparr> in
           case nxt of None \<Rightarrow> ([], c) | Some d \<Rightarrow> pushDifficulty (wireShareDifficulty d c) c)"

definition vardiffTick :: "bool \<Rightarrow> int \<Rightarrow> server \<Rightarrow> srv_effect list \<times> server" where
  "vardiffTick vardiffEnabled now s =
     (let rs = map (\<lambda>(i, c). (i, retuneClient vardiffEnabled now c)) (sv_clients s)
      in (concat (map (\<lambda>(i, ms, c). map (Send (cl_connId c)) ms) rs), s\<lparr>sv_clients := map (\<lambda>(i, ms, c). (i, c)) rs\<rparr>))"

section \<open>Statistics\<close>

definition clientCount :: "server \<Rightarrow> nat" where
  "clientCount s = length (sv_clients s)"

record connection_stat =
  cs_user :: string
  cs_worker :: string
  cs_difficulty :: jsnum
  cs_accepted :: nat
  cs_rejected :: nat
  cs_lastShareAt :: "int option"
  cs_pubkey :: "string option"
  cs_attest :: "attest_state option"

definition connectionStats :: "server \<Rightarrow> connection_stat list" where
  "connectionStats s = map (\<lambda>c. let (user, worker) = splitUserName (cl_username c) in
       \<lparr>cs_user = user, cs_worker = worker,
        cs_difficulty = (case cl_lastNotifiedDiff c of Some d \<Rightarrow> d | None \<Rightarrow> currentDiff (cl_vardiff c)),
        cs_accepted = cl_sharesAccepted c, cs_rejected = cl_sharesRejected c,
        cs_lastShareAt = (if cl_lastShareAt c > 0 then Some (cl_lastShareAt c) else None),
        cs_pubkey = cl_pubkey c, cs_attest = (if cl_attest c = ANone then None else Some (cl_attest c))\<rparr>)
     (filter (\<lambda>c. cl_state c = Authorized \<and> cl_username c \<noteq> []) (map snd (sv_clients s)))"

definition estimatedHashrate :: "int \<Rightarrow> server \<Rightarrow> jsnum" where
  "estimatedHashrate now s =
     (let total = fold (\<lambda>c t. if now - cl_connectedAt c < 30000 then t
                              else js_add t (js_div (currentDiff (cl_vardiff c)) (targetSeconds (vd_params (cl_vardiff c)))))
            (map snd (sv_clients s)) (Fin 0)
      in js_mul total (Fin 4294967296))"

section \<open>Credit\<close>

lemma send_no_event [simp]: "IpcShare ev \<notin> set (send m c)" "SubmitBlock b \<notin> set (send m c)"
  by (auto simp: send_def)

lemma sendReject_no_event [simp]: "IpcShare ev \<notin> set (sendReject env r c)" "SubmitBlock b \<notin> set (sendReject env r c)"
  by (auto simp: sendReject_def case_prod_beta)

lemma recordUncredited_no_event [simp]: "IpcShare ev \<notin> set (fst (recordUncredited env a c s))"
  by (auto simp: recordUncredited_def case_prod_beta Let_def)

text \<open>What \<^verbatim>\<open>onSubmit\<close> reads from the parameters.\<close>

definition submitted :: "string option list \<Rightarrow> (string \<times> string \<times> int \<times> int) option" where
  "submitted p = (case (finite_int (parse_int16 (text_of (param p 3))), finite_int (parse_int16 (text_of (param p 4)))) of
     (Some ntime, Some nonce) \<Rightarrow> Some (text_of (param p 1), to_lower (text_of (param p 2)), ntime, nonce)
   | _ \<Rightarrow> None)"

definition share_input_of :: "stratum_job \<Rightarrow> client \<Rightarrow> string \<times> string \<times> int \<times> int \<Rightarrow> share_input" where
  "share_input_of job c k = (case k of (jobId, en2, ntime, nonce) \<Rightarrow>
     \<lparr>si_job = job_context.truncate job, si_extranonce1Hex = cl_extranonce1Hex c, si_extranonce2Hex = en2,
      si_ntime = ntime, si_nonce = nonce,
      si_shareDifficulty = assigned_diff c jobId\<rparr>)"

text \<open>The events of a share: one if it is credited, with the candidate handed to the node before it.\<close>

definition event_of :: "srv_effect \<Rightarrow> share_event option" where
  "event_of e = (case e of IpcShare ev \<Rightarrow> Some ev | _ \<Rightarrow> None)"

definition share_events :: "handled_async \<Rightarrow> share_event list" where
  "share_events h = List.map_filter event_of (fst (fst h))"

definition creditable :: "server_env \<Rightarrow> string option list \<Rightarrow> client \<Rightarrow> server \<Rightarrow> (stratum_job \<times> share_ok \<times> dedup_key) option" where
  "creditable env p c s =
     (if cl_state c \<noteq> Authorized then None else
      case submitted p of None \<Rightarrow> None | Some (jobId, en2, ntime, nonce) \<Rightarrow>
      if jobId = [] \<or> length en2 \<noteq> cl_extranonce2Size c * 2 then None else
      case getById (sv_jobs s) jobId of None \<Rightarrow> None | Some job \<Rightarrow>
      if sa_result (shareAttest env c jobId en2 ntime nonce (param p 5)) \<noteq> SigValid then None else
      if show_key (jobId, en2, ntime, nonce) \<in> set (cl_seenShares c) then None else
      case share_verdict (en_b3 env) (en_sha env) (share_input_of job c (jobId, en2, ntime, nonce)) of
        Inr (CheckOk ok) \<Rightarrow> Some (job, ok, (jobId, en2, ntime, nonce))
      | _ \<Rightarrow> None)"

definition block_accepted :: "server_env \<Rightarrow> share_ok \<Rightarrow> bool" where
  "block_accepted env ok \<longleftrightarrow> so_isBlock ok \<and> (case so_serializedBlockHex ok of
     None \<Rightarrow> False | Some b \<Rightarrow> en_submitBlock env b = Inr None \<or> en_submitBlock env b = Inr (Some []))"

definition expected_event :: "server_env \<Rightarrow> client \<Rightarrow> stratum_job \<Rightarrow> share_ok \<Rightarrow> dedup_key \<Rightarrow> string option \<Rightarrow> share_event" where
  "expected_event env c job ok k sig = (case k of (jobId, en2, ntime, nonce) \<Rightarrow>
     \<lparr>se_user = fst (splitUserName (cl_username c)), se_workerName = snd (splitUserName (cl_username c)),
      se_diff = (if so_meetsShare ok then si_shareDifficulty (share_input_of job c k) else networkDifficultyFromBits (jc_bits job)),
      se_isBlock = block_accepted env ok,
      se_blockHash = (if block_accepted env ok then Some (so_blockHashHexBE ok) else None),
      se_blockHeight = (if block_accepted env ok then Some (jc_height job) else None),
      se_networkDifficulty = networkDifficultyFromBits (jc_bits job), se_timestampMs = en_now env,
      se_attest = Some (shareAttest env c jobId en2 ntime nonce sig)\<rparr>)"

lemma creditShare_events:
  "List.map_filter event_of (fst (creditShare env rid job a assigned ok c s)) =
   [\<lparr>se_user = fst (splitUserName (cl_username c)), se_workerName = snd (splitUserName (cl_username c)),
      se_diff = (if so_meetsShare ok then assigned else networkDifficultyFromBits (jc_bits job)),
      se_isBlock = block_accepted env ok,
      se_blockHash = (if block_accepted env ok then Some (so_blockHashHexBE ok) else None),
      se_blockHeight = (if block_accepted env ok then Some (jc_height job) else None),
      se_networkDifficulty = networkDifficultyFromBits (jc_bits job), se_timestampMs = en_now env,
      se_attest = Some a\<rparr>]"
  by (auto simp: creditShare_def Let_def case_prod_beta send_def write_msg_def List.map_filter_def event_of_def block_accepted_def
      split: option.splits sum.splits bool.splits if_splits)

declare map_filter_append [simp]

lemma no_share_events [simp]:
  "List.map_filter event_of (send m c) = []"
  "List.map_filter event_of (sendReject env r c) = []"
  "List.map_filter event_of (fst (recordUncredited env a c s)) = []"
  by (auto simp: List.map_filter_def event_of_def send_def sendReject_def recordUncredited_def Let_def
      filter_empty_conv split: prod.splits)

lemma remember_share_fields [simp]:
  "cl_username (remember_share k c) = cl_username c" "cl_jobShareDiff (remember_share k c) = cl_jobShareDiff c"
  "cl_vardiff (remember_share k c) = cl_vardiff c" "cl_extranonce1Hex (remember_share k c) = cl_extranonce1Hex c"
  "cl_state (remember_share k c) = cl_state c" "cl_extranonce2Size (remember_share k c) = cl_extranonce2Size c"
  "cl_pubkey (remember_share k c) = cl_pubkey c" "assigned_diff (remember_share k c) j = assigned_diff c j"
  by (simp_all add: remember_share_def assigned_diff_def Let_def cong: option.case_cong)

text \<open>
  \<^verbatim>\<open>onSubmit\<close> by what was submitted: a refusal without an event, or the part after the duplicate check.
\<close>

lemma onSubmit_refuses:
  assumes "creditable env p c s = None" and "pads_ok (en_b3 env) (sv_pads s)"
  shows "share_events (onSubmit env rid p c s) = []"
proof (cases "cl_state c = Authorized \<and> submitted p \<noteq> None")
  case False
  then show ?thesis
    by (auto simp: onSubmit_def share_events_def submitted_def Let_def split: option.splits)
next
  case True
  then obtain jobId en2 ntime nonce where sub: "submitted p = Some (jobId, en2, ntime, nonce)"
    by (cases "submitted p") auto
  then have par: "finite_int (parse_int16 (text_of (param p 3))) = Some ntime"
    "finite_int (parse_int16 (text_of (param p 4))) = Some nonce"
    "text_of (param p 1) = jobId" "to_lower (text_of (param p 2)) = en2"
    by (auto simp: submitted_def simp del: One_nat_def split: option.splits)
  let ?i = "\<lambda>job. share_input_of job c (jobId, en2, ntime, nonce)"
  have v: "fst (validateShare (en_b3 env) (en_sha env) now i (sv_pads s)) = share_verdict (en_b3 env) (en_sha env) i" for now i
    by (rule validateShare_verdict(1) [OF assms(2)])
  consider "jobId = [] \<or> length en2 \<noteq> cl_extranonce2Size c * 2" | "getById (sv_jobs s) jobId = None"
    | job where "\<not> (jobId = [] \<or> length en2 \<noteq> cl_extranonce2Size c * 2)" "getById (sv_jobs s) jobId = Some job"
    by (cases "getById (sv_jobs s) jobId") auto
  then show ?thesis
  proof cases
    case 3
    let ?a = "sa_result (shareAttest env c jobId en2 ntime nonce (param p 5)) = SigValid"
    let ?d = "show_key (jobId, en2, ntime, nonce) \<in> set (cl_seenShares c)"
    show ?thesis
    proof (cases "?a \<and> \<not> ?d")
      case False
      with True 3 show ?thesis
        by (auto simp: onSubmit_def share_events_def Let_def par case_prod_beta simp del: One_nat_def)
    next
      case fresh: True
      with assms(1) True sub 3
      have "\<not> (\<exists>ok. share_verdict (en_b3 env) (en_sha env) (?i job) = Inr (CheckOk ok))"
        by (auto simp: creditable_def)
      then show ?thesis using True 3 fresh v [of "en_now env" "?i job"]
        by (cases "share_verdict (en_b3 env) (en_sha env) (?i job)")
          (auto simp: onSubmit_def share_events_def Let_def par case_prod_beta share_input_of_def simp del: One_nat_def
            split: share_check.splits)
    qed
  qed (use True in \<open>auto simp: onSubmit_def share_events_def Let_def par simp del: One_nat_def\<close>)
qed

lemma creditableE:
  assumes "creditable env p c s = Some (job, ok, k)"
  obtains jobId en2 ntime nonce where "k = (jobId, en2, ntime, nonce)" "submitted p = Some k" "cl_state c = Authorized"
    "jobId \<noteq> []" "length en2 = cl_extranonce2Size c * 2" "getById (sv_jobs s) jobId = Some job"
    "sa_result (shareAttest env c jobId en2 ntime nonce (param p 5)) = SigValid" "show_key k \<notin> set (cl_seenShares c)"
    "share_verdict (en_b3 env) (en_sha env) (share_input_of job c k) = Inr (CheckOk ok)"
  using assms by (cases k) (auto simp: creditable_def split: if_splits option.splits sum.splits share_check.splits)

lemma submitted_Some:
  "submitted p = Some (jobId, en2, ntime, nonce) \<longleftrightarrow>
     finite_int (parse_int16 (text_of (param p 3))) = Some ntime \<and> finite_int (parse_int16 (text_of (param p 4))) = Some nonce \<and>
     text_of (param p 1) = jobId \<and> to_lower (text_of (param p 2)) = en2"
  by (auto simp: submitted_def simp del: One_nat_def split: option.splits)

lemma onSubmit_creditable:
  assumes "creditable env p c s = Some (job, ok, (jobId, en2, ntime, nonce))" and "pads_ok (en_b3 env) (sv_pads s)"
  shows "\<exists>pads. pads_ok (en_b3 env) pads \<and> onSubmit env rid p c s =
    (creditShare env rid job (shareAttest env c jobId en2 ntime nonce (param p 5)) (assigned_diff c jobId) ok
       (remember_share (show_key (jobId, en2, ntime, nonce)) c) (s\<lparr>sv_pads := pads\<rparr>), None)"
proof -
  let ?v = "validateShare (en_b3 env) (en_sha env) (en_now env) (share_input_of job c (jobId, en2, ntime, nonce)) (sv_pads s)"
  from assms(1) show ?thesis
  proof (rule creditableE, elim prod.inject [THEN iffD1, elim_format] conjE, hypsubst)
    assume "submitted p = Some (jobId, en2, ntime, nonce)" and st: "cl_state c = Authorized" "jobId \<noteq> []"
      "length en2 = cl_extranonce2Size c * 2" "getById (sv_jobs s) jobId = Some job"
      "sa_result (shareAttest env c jobId en2 ntime nonce (param p 5)) = SigValid"
      "show_key (jobId, en2, ntime, nonce) \<notin> set (cl_seenShares c)"
      and ok: "share_verdict (en_b3 env) (en_sha env) (share_input_of job c (jobId, en2, ntime, nonce)) = Inr (CheckOk ok)"
    then have par: "finite_int (parse_int16 (text_of (param p 3))) = Some ntime"
      "finite_int (parse_int16 (text_of (param p 4))) = Some nonce"
      "text_of (param p 1) = jobId" "to_lower (text_of (param p 2)) = en2"
      by (simp_all add: submitted_Some del: One_nat_def)
    have "fst ?v = Inr (CheckOk ok)" "pads_ok (en_b3 env) (snd ?v)"
      using validateShare_verdict [OF assms(2)] ok by simp_all
    then show ?thesis using st
      by (intro exI [of _ "snd ?v"])
        (simp add: onSubmit_def Let_def par case_prod_beta share_input_of_def del: One_nat_def)
  qed
qed

lemma onSubmit_credits:
  assumes "creditable env p c s = Some (job, ok, k)" and "pads_ok (en_b3 env) (sv_pads s)"
  shows "share_events (onSubmit env rid p c s) = [expected_event env c job ok k (param p 5)]"
proof -
  obtain jobId en2 ntime nonce where k: "k = (jobId, en2, ntime, nonce)" by (cases k)
  from onSubmit_creditable [OF assms(1) [unfolded k] assms(2), of rid] show ?thesis
    by (auto simp: share_events_def k expected_event_def share_input_of_def creditShare_events)
qed

section \<open>Replays\<close>

text \<open>The keys credited by a sequence of submissions on one connection, each in its own environment.\<close>

fun credited_keys :: "(server_env \<times> rpc_id \<times> string option list) list \<Rightarrow> client \<Rightarrow> server \<Rightarrow> string list" where
  "credited_keys [] c s = []"
| "credited_keys ((env, rid, p) # subs) c s =
     (let h = onSubmit env rid p c s; rest = credited_keys subs (fst (snd (fst h))) (snd (snd (fst h)))
      in if share_events h = [] then rest else show_key (the (submitted p)) # rest)"

lemma onSubmit_authorized_seen:
  assumes "submitted p = Some (jobId, en2, ntime, nonce)"
  shows "let h = onSubmit env rid p c s; k = show_key (jobId, en2, ntime, nonce) in
     cl_seenShares (fst (snd (fst h))) = cl_seenShares c \<and> share_events h = [] \<or>
     k \<notin> set (cl_seenShares c) \<and> cl_seenShares (fst (snd (fst h))) = cl_seenShares (remember_share k c)"
proof -
  from assms have par: "finite_int (parse_int16 (text_of (param p 3))) = Some ntime"
    "finite_int (parse_int16 (text_of (param p 4))) = Some nonce"
    "text_of (param p 1) = jobId" "to_lower (text_of (param p 2)) = en2"
    by (auto simp: submitted_def simp del: One_nat_def split: option.splits)
  show ?thesis
    by (cases "cl_state c = Authorized"; cases "jobId = [] \<or> length en2 \<noteq> cl_extranonce2Size c * 2";
        cases "getById (sv_jobs s) jobId";
        cases "sa_result (shareAttest env c jobId en2 ntime nonce (param p 5)) = SigValid";
        cases "show_key (jobId, en2, ntime, nonce) \<in> set (cl_seenShares c)")
      (simp_all add: onSubmit_def share_events_def Let_def par case_prod_beta count_reject_def creditShare_def del: One_nat_def
        split: sum.split share_check.split)
qed

lemma onSubmit_seen:
  obtains "cl_seenShares (fst (snd (fst (onSubmit env rid p c s)))) = cl_seenShares c" "share_events (onSubmit env rid p c s) = []"
  | k where "submitted p = Some k" "show_key k \<notin> set (cl_seenShares c)"
      "cl_seenShares (fst (snd (fst (onSubmit env rid p c s)))) = cl_seenShares (remember_share (show_key k) c)"
proof (cases "submitted p")
  case None
  then have "cl_seenShares (fst (snd (fst (onSubmit env rid p c s)))) = cl_seenShares c \<and> share_events (onSubmit env rid p c s) = []"
    by (auto simp: onSubmit_def submitted_def share_events_def Let_def count_reject_def split: option.splits)
  with that(1) show ?thesis by blast
next
  case (Some k)
  obtain j e t n where k: "k = (j, e, t, n)" by (cases k)
  show ?thesis using onSubmit_authorized_seen [OF Some [unfolded k], of env rid c s] that(1) that(2) [OF Some]
    by (auto simp: Let_def k)
qed

text \<open>\<open>recent n k xs\<close>: \<open>k\<close> is in the window with at most \<open>n\<close> younger entries.\<close>

definition recent :: "nat \<Rightarrow> string \<Rightarrow> string list \<Rightarrow> bool" where
  "recent n k xs \<longleftrightarrow> (\<exists>ys zs. xs = ys @ k # zs \<and> length zs \<le> n)"

lemma recent_mem: "recent n k xs \<Longrightarrow> k \<in> set xs"
  by (auto simp: recent_def)

lemma recent_trim:
  assumes "recent n k xs" "n \<le> 40000"
  shows "recent n k (if length xs > 50000 then drop 10000 xs else xs)"
proof -
  obtain ys zs where x: "xs = ys @ k # zs" "length zs \<le> n" using assms by (auto simp: recent_def)
  have "drop 10000 xs = drop 10000 ys @ k # zs" if "length xs > 50000"
  proof -
    from that x assms(2) have "10000 \<le> length ys" by simp
    then show ?thesis by (simp add: x(1))
  qed
  with x show ?thesis by (auto simp: recent_def)
qed

lemma recent_remember:
  assumes "recent n k (cl_seenShares c)" "n < 40000"
  shows "recent (Suc n) k (cl_seenShares (remember_share k' c))"
proof -
  have "recent (Suc n) k (if k' \<in> set (cl_seenShares c) then cl_seenShares c else cl_seenShares c @ [k'])"
  proof -
    obtain ys zs where "cl_seenShares c = ys @ k # zs" "length zs \<le> n" using assms(1) by (auto simp: recent_def)
    then show ?thesis unfolding recent_def
      by (intro exI [of _ ys] exI [of _ "if k' \<in> set (cl_seenShares c) then zs else zs @ [k']"]) auto
  qed
  from recent_trim [OF this] assms(2) show ?thesis by (simp add: remember_share_def Let_def)
qed

lemma recent_new: "k \<notin> set (cl_seenShares c) \<Longrightarrow> recent 0 k (cl_seenShares (remember_share k c))"
  using recent_trim [of 0 k "cl_seenShares c @ [k]"] by (auto simp: remember_share_def Let_def recent_def)

lemma recent_not_credited:
  "recent n k (cl_seenShares c) \<Longrightarrow> n + length subs \<le> 40000 \<Longrightarrow> k \<notin> set (credited_keys subs c s)"
proof (induction subs arbitrary: n c s)
  case (Cons x subs)
  obtain env rid p where x: "x = (env, rid, p)" by (cases x)
  let ?h = "onSubmit env rid p c s"
  let ?c' = "fst (snd (fst ?h))"
  have le: "n < 40000" "Suc n + length subs \<le> 40000" using Cons.prems(2) by simp_all
  show ?case
  proof (rule onSubmit_seen [of env rid p c s])
    assume a: "cl_seenShares ?c' = cl_seenShares c" "share_events ?h = []"
    have "k \<notin> set (credited_keys subs ?c' s')" for s'
      using Cons.IH [of n ?c' s'] Cons.prems a(1) by simp
    then show ?thesis by (simp add: x Let_def a(2))
  next
    fix k' assume k': "submitted p = Some k'" "show_key k' \<notin> set (cl_seenShares c)"
      "cl_seenShares ?c' = cl_seenShares (remember_share (show_key k') c)"
    have "recent (Suc n) k (cl_seenShares ?c')" using recent_remember [OF Cons.prems(1) le(1)] k'(3) by simp
    from Cons.IH [OF this le(2)] have "k \<notin> set (credited_keys subs ?c' s')" for s' .
    moreover have "k \<noteq> show_key k'" using recent_mem [OF Cons.prems(1)] k'(2) by blast
    ultimately show ?thesis by (simp add: x Let_def k'(1))
  qed
qed simp

text \<open>
  C27: On one connection no share is credited twice within any run of 40,001 submissions: the keys
  (job, extranonce 2, time and nonce) of the share events are distinct, whatever is submitted in
  between, although the duplicate window drops its 10,000 oldest entries whenever it exceeds 50,000.
\<close>
theorem no_replay_in_window:
  assumes "length subs \<le> 40001"
  shows "distinct (credited_keys subs c s)"
  using assms
proof (induction subs arbitrary: c s)
  case (Cons x subs)
  obtain env rid p where x: "x = (env, rid, p)" by (cases x)
  let ?h = "onSubmit env rid p c s"
  let ?c' = "fst (snd (fst ?h))"
  have d: "distinct (credited_keys subs ?c' s')" for s' using Cons by simp
  show ?case
  proof (rule onSubmit_seen [of env rid p c s])
    assume "share_events ?h = []"
    with d show ?thesis by (simp add: x Let_def)
  next
    fix k assume k: "submitted p = Some k" "show_key k \<notin> set (cl_seenShares c)"
      "cl_seenShares ?c' = cl_seenShares (remember_share (show_key k) c)"
    then have "recent 0 (show_key k) (cl_seenShares ?c')" using recent_new by simp
    from recent_not_credited [OF this, of subs] Cons.prems
    have "show_key k \<notin> set (credited_keys subs ?c' s')" for s' by simp
    with d show ?thesis by (simp add: x Let_def k(1))
  qed
qed simp

section \<open>Aliases of one share\<close>

lemma buildHeader_nonce:
  assumes "n' mod 2 ^ 32 = n mod (2 ^ 32 :: int)"
  shows "buildHeader sha (i\<lparr>si_nonce := n'\<rparr>) = buildHeader sha (i\<lparr>si_nonce := n\<rparr>)"
proof -
  have "uint32LE n' = uint32LE n" using assms by (simp add: uint32LE_eq_iff)
  then show ?thesis by (simp add: buildHeader_def serializeHeader_def Let_def)
qed

lemma share_verdict_nonce:
  assumes "n' mod 2 ^ 32 = n mod (2 ^ 32 :: int)"
  shows "share_verdict b3 sha (i\<lparr>si_nonce := n'\<rparr>) = share_verdict b3 sha (i\<lparr>si_nonce := n\<rparr>)"
  by (simp add: share_verdict_def buildHeader_nonce [OF assms] cong: sum.case_cong if_cong)

lemma shareAttest_nonce:
  assumes "n' mod 2 ^ 32 = n mod (2 ^ 32 :: int)"
  shows "shareAttest env c j e t n' sig = shareAttest env c j e t n sig"
proof -
  have "to_uint32 n' = to_uint32 n" unfolding to_uint32_def take_bit_eq_mod by (rule assms)
  then have "shareDigest sha j e t n' = shareDigest sha j e t n" "nonceHex n' = nonceHex n" for sha
    by (simp_all add: shareDigest_def hex8_def nonceHex_def)
  then show ?thesis unfolding shareAttest_def by (simp only:)
qed

lemma shareAttest_client:
  "cl_pubkey c' = cl_pubkey c \<Longrightarrow> shareAttest env c' j e t n sig = shareAttest env c j e t n sig"
  unfolding shareAttest_def by (simp only:)

lemma creditable_again:
  assumes "creditable env p c s = Some (job, ok, (j, e, t, n))" and "n' mod 2 ^ 32 = n mod (2 ^ 32 :: int)"
    and "submitted p' = Some (j, e, t, n')" "param p' 5 = param p 5" "show_key (j, e, t, n') \<notin> set (cl_seenShares c')"
    and "cl_state c' = Authorized" "cl_extranonce1Hex c' = cl_extranonce1Hex c" "cl_extranonce2Size c' = cl_extranonce2Size c"
      "cl_pubkey c' = cl_pubkey c" "assigned_diff c' j = assigned_diff c j" "sv_jobs s' = sv_jobs s"
  shows "creditable env p' c' s' = Some (job, ok, (j, e, t, n'))"
proof -
  let ?i = "share_input_of job c (j, e, t, n)"
  have i: "share_input_of job c' (j, e, t, n') = ?i\<lparr>si_nonce := n'\<rparr>" "?i = ?i\<lparr>si_nonce := n\<rparr>"
    using assms(7-10) by (simp_all add: share_input_of_def)
  have v: "share_verdict (en_b3 env) (en_sha env) (share_input_of job c' (j, e, t, n')) =
      share_verdict (en_b3 env) (en_sha env) ?i"
    using share_verdict_nonce [OF assms(2), of _ _ ?i] i by metis
  have a: "shareAttest env c' j e t n' sig = shareAttest env c j e t n sig" for sig
    by (simp only: shareAttest_nonce [OF assms(2)] shareAttest_client [OF assms(9)])
  from assms(1) show ?thesis
    by (rule creditableE) (simp add: creditable_def v a assms(3-11))
qed

lemma creditShare_client:
  "let c' = fst (snd (creditShare env rid job a d ok c s)) in
   cl_state c' = cl_state c \<and> cl_extranonce1Hex c' = cl_extranonce1Hex c \<and> cl_extranonce2Size c' = cl_extranonce2Size c \<and>
   cl_pubkey c' = cl_pubkey c \<and> assigned_diff c' j = assigned_diff c j \<and> cl_seenShares c' = cl_seenShares c"
  by (simp add: creditShare_def Let_def case_prod_beta onShareAccepted_def assigned_diff_def split: option.split)

lemma creditShare_server: "snd (snd (creditShare env rid job a d ok c s)) = s"
  by (simp add: creditShare_def Let_def case_prod_beta)

lemma remember_share_mono: "k \<in> set (cl_seenShares (remember_share k' c)) \<Longrightarrow> k = k' \<or> k \<in> set (cl_seenShares c)"
  by (auto simp: remember_share_def Let_def split: if_splits dest: in_set_dropD)

lemma show_key_nonce: "show_key (j, e, t, n') = show_key (j, e, t, n) \<longleftrightarrow> n' = n"
  by (simp add: show_key_def dec_of_int_inj)

section \<open>A sample connection\<close>

definition sample_env :: server_env where
  "sample_env = \<lparr>en_sha = sample_sha, en_b3 = sample_b3, en_verify = \<lambda>_ _ _ _. Some True, en_submitBlock = \<lambda>_. Inr None,
     en_passports = memory_ops, en_workerDifficulty = [], en_now = 0, en_random = replicate 32 1\<rparr>"

abbreviation sample_key :: string where "sample_key \<equiv> replicate 128 (CHR ''0'')"

definition sample_client :: client where
  "sample_client = (fst (newStratumClient default_params ''127.0.0.1'' 0 \<lparr>cc_nextConnId = 1, cc_nextExtranonce1 = 0\<rparr>))
     \<lparr>cl_state := Authorized, cl_username := ''miner@x.y'', cl_pubkey := Some sample_key,
      cl_jobShareDiff := [(''0000001'', Fin 1)]\<rparr>"

definition sample_server :: "stratum_job \<Rightarrow> pad_cache \<Rightarrow> server" where
  "sample_server job pads = \<lparr>sv_clients = [(1, sample_client)], sv_heldSlots = [], sv_signatureLog = [],
     sv_recordSignatures = False, sv_passports = newPassports,
     sv_jobs = \<lparr>jm_lastTemplateHash = '''', jm_lastWorkSig = '''', jm_lastPrev = '''', jm_currentJob = Some 0,
       jm_jobsById = [(''0000001'', 0)], jm_jobCounter = 1, jm_objects = [job]\<rparr>, sv_pads = pads\<rparr>"

definition sample_submit :: "string \<Rightarrow> string option list" where
  "sample_submit nonce = [None, Some ''0000001'', Some ''00000002'', Some ''2'', Some nonce, Some sample_key]"

lemma sample_client_fields:
  "cl_extranonce1Hex sample_client = ''00000001''" "cl_extranonce2Size sample_client = 4" "cl_state sample_client = Authorized"
  "cl_seenShares sample_client = []" "cl_pubkey sample_client = Some sample_key" "assigned_diff sample_client ''0000001'' = Fin 1"
  "cl_username sample_client = ''miner@x.y''"
proof -
  have "fst (allocExtranonce1Hex 0) = ''00000001''" by code_simp
  then show "cl_extranonce1Hex sample_client = ''00000001''"
    by (simp add: sample_client_def newStratumClient_def case_prod_beta)
qed (simp_all add: sample_client_def newStratumClient_def case_prod_beta assigned_diff_def)

lemma finite_parse: "parse_hex_int s = Some n \<Longrightarrow> \<bar>n\<bar> \<le> 2 ^ 53 \<Longrightarrow> finite_int (parse_int16 s) = Some n"
  by (simp add: parse_int16_def finite_int_def to_num_of_int)

lemma sample_submitted:
  assumes "parse_hex_int nonce = Some n" "\<bar>n\<bar> \<le> 2 ^ 53"
  shows "submitted (sample_submit nonce) = Some (''0000001'', ''00000002'', 2, n)" "param (sample_submit nonce) 5 = Some sample_key"
proof -
  have "parse_hex_int ''2'' = Some 2" "to_lower ''00000002'' = ''00000002''" by code_simp+
  then show "submitted (sample_submit nonce) = Some (''0000001'', ''00000002'', 2, n)"
    using finite_parse [of "''2''" 2] finite_parse [OF assms] by (simp add: submitted_def sample_submit_def param_def text_of_def)
qed (simp add: sample_submit_def param_def)

lemma sample_attest: "sa_result (shareAttest sample_env sample_client j e t n (Some sample_key)) = SigValid"
proof -
  have "lower_char CHR ''0'' = CHR ''0''" by code_simp
  then have z: "to_lower sample_key = sample_key" by (simp add: to_lower_def)
  have "is_hex128 sample_key" by (simp add: is_hex128_def list_all_iff)
  then show ?thesis
    by (simp add: shareAttest_def sample_client_fields z verifyP256Digest_def sample_env_def shareDigest_def Let_def)
qed

lemma sample_job_id: "buildJob sample_sha sample_address sample_template True 0 = Inr (job, ctr) \<Longrightarrow> jc_jobId job = ''0000001''"
proof (erule buildJob_eq)
  assume "ctr = (0 + 1) mod 0xfffffff" "jc_jobId job = pad_start 7 (CHR ''0'') (hex_of_int ctr)"
  moreover have "pad_start 7 (CHR ''0'') (hex_of_int 1) = ''0000001''" by code_simp
  ultimately show ?thesis by simp
qed

lemma sample_creditable:
  assumes "buildJob sample_sha sample_address sample_template True 0 = Inr (job, ctr)"
  shows "\<exists>ok. creditable sample_env (sample_submit ''3'') sample_client (sample_server job pads) =
    Some (job, ok, (''0000001'', ''00000002'', 2, 3)) \<and> so_isBlock ok"
proof -
  obtain ok where ok: "share_verdict sample_b3 sample_sha (share_input_of job sample_client (''0000001'', ''00000002'', 2, 3)) =
      Inr (CheckOk ok)" "so_isBlock ok"
    using sample_block [OF assms] by (auto simp: share_input_of_def sample_client_fields)
  have "parse_hex_int ''3'' = Some 3" by code_simp
  then have "submitted (sample_submit ''3'') = Some (''0000001'', ''00000002'', 2, 3)" "param (sample_submit ''3'') 5 = Some sample_key"
    using sample_submitted [of "''3''" 3] by simp_all
  moreover have "getById (sv_jobs (sample_server job pads)) ''0000001'' = Some job"
    by (simp add: sample_server_def getById_def)
  moreover have "en_b3 sample_env = sample_b3" "en_sha sample_env = sample_sha" by (simp_all add: sample_env_def)
  ultimately show ?thesis using ok by (simp add: creditable_def sample_client_fields sample_attest)
qed

lemma sample_job_exists: obtains job ctr where "buildJob sample_sha sample_address sample_template True 0 = Inr (job, ctr)"
  using sample_coinbase by (auto simp: buildJob_def Let_def computeMerkleBranches_def sample_template_def)

section \<open>Properties of submission\<close>

text \<open>
  C26: A submission is credited exactly when it should be: \<^verbatim>\<open>onSubmit\<close> sends one share event if the
  connection is authorized, the parameters parse, the job is known, the device signature over
  the share verifies, the key is fresh and the proof of work, computed without the shared cache,
  meets the assigned or the network target; otherwise it sends none. The event carries the
  assigned difficulty (the network's for a block below it), and reports a block only if the node
  accepted the serialized block.
\<close>
theorem submit_credits_exactly:
  assumes "pads_ok (en_b3 env) (sv_pads s)"
  shows "share_events (onSubmit env rid p c s) = (case creditable env p c s of
     None \<Rightarrow> [] | Some (job, ok, k) \<Rightarrow> [expected_event env c job ok k (param p 5)])"
  using onSubmit_refuses [OF _ assms] onSubmit_credits [OF _ assms] by (auto split: option.split)

theorem submit_credits_exactly_witness:
  "\<exists>job pads evt. pads_ok sample_b3 pads \<and>
     share_events (onSubmit sample_env None (sample_submit ''3'') sample_client (sample_server job pads)) = [evt] \<and>
     se_isBlock evt \<and> se_user evt = ''miner@x'' \<and> se_workerName evt = ''y''"
proof -
  obtain job ctr where job: "buildJob sample_sha sample_address sample_template True 0 = Inr (job, ctr)"
    by (rule sample_job_exists)
  obtain pads where pads: "newPadCache 8 = Inr pads" by (simp add: newPadCache_def)
  have ok: "pads_ok (en_b3 sample_env) (sv_pads (sample_server job pads))"
    using newPadCache_ok [OF pads] by (simp add: sample_server_def sample_env_def)
  obtain r where r: "creditable sample_env (sample_submit ''3'') sample_client (sample_server job pads) =
      Some (job, r, (''0000001'', ''00000002'', 2, 3))" "so_isBlock r"
    using sample_creditable [OF job] by blast
  have b: "block_accepted sample_env r"
  proof -
    from r(1) show ?thesis
      by (rule creditableE, elim share_verdict_ok) (use r(2) in \<open>auto simp: block_accepted_def sample_env_def\<close>)
  qed
  have "splitUserName ''miner@x.y'' = (''miner@x'', ''y'')" by code_simp
  then have "se_isBlock e \<and> se_user e = ''miner@x'' \<and> se_workerName e = ''y''"
    if "e = expected_event sample_env sample_client job r (''0000001'', ''00000002'', 2, 3) sig" for e sig
    using that b by (simp add: expected_event_def sample_client_fields)
  then show ?thesis
    using submit_credits_exactly [OF ok, of None "sample_submit ''3''" sample_client] r(1) newPadCache_ok [OF pads, of sample_b3]
    by (intro exI [of _ job] exI [of _ pads]) auto
qed

text \<open>
  C37: The duplicate check can be bypassed: a nonce is compared as a number but enters the header and
  the signed digest modulo \<open>2\<^sup>3\<^sup>2\<close>. After a credited submission, the same signature and the same
  fields with \<open>2\<^sup>3\<^sup>2\<close> added to the nonce (one more leading hexadecimal digit) are credited again,
  for the same proof of work.
\<close>
theorem nonce_alias_credited_again:
  assumes "creditable env p c s = Some (job, ok, (j, e, t, n))" and "pads_ok (en_b3 env) (sv_pads s)"
    and "submitted p' = Some (j, e, t, n + 2 ^ 32)" "param p' 5 = param p 5"
      "show_key (j, e, t, n + 2 ^ 32) \<notin> set (cl_seenShares c)"
  shows "let h = onSubmit env rid p c s in \<exists>e1 e2. share_events h = [e1] \<and>
    share_events (onSubmit env rid' p' (fst (snd (fst h))) (snd (snd (fst h)))) = [e2] \<and> se_diff e2 = se_diff e1"
proof -
  define h where "h = onSubmit env rid p c s"
  obtain pads where pads: "pads_ok (en_b3 env) pads" and h: "h =
    (creditShare env rid job (shareAttest env c j e t n (param p 5)) (assigned_diff c j) ok
       (remember_share (show_key (j, e, t, n)) c) (s\<lparr>sv_pads := pads\<rparr>), None)"
    using onSubmit_creditable [OF assms(1,2), of rid] unfolding h_def by blast
  let ?c = "fst (snd (fst h))" and ?s = "snd (snd (fst h))"
  have s: "?s = s\<lparr>sv_pads := pads\<rparr>" by (simp add: h creditShare_server)
  have c: "cl_state ?c = cl_state c" "cl_extranonce1Hex ?c = cl_extranonce1Hex c" "cl_extranonce2Size ?c = cl_extranonce2Size c"
    "cl_pubkey ?c = cl_pubkey c" "assigned_diff ?c j = assigned_diff c j"
    "cl_seenShares ?c = cl_seenShares (remember_share (show_key (j, e, t, n)) c)"
    using creditShare_client [of env rid job _ _ ok "remember_share (show_key (j, e, t, n)) c" "s\<lparr>sv_pads := pads\<rparr>" j]
    by (simp_all add: h Let_def)
  have st: "cl_state c = Authorized" using assms(1) by (rule creditableE) simp
  have new: "show_key (j, e, t, n + 2 ^ 32) \<notin> set (cl_seenShares ?c)"
    using assms(5) remember_share_mono [of "show_key (j, e, t, n + 2 ^ 32)" "show_key (j, e, t, n)" c]
      show_key_nonce [of j e t "n + 2 ^ 32" n] unfolding c(6) by auto
  have mod: "(n + 2 ^ 32) mod 2 ^ 32 = n mod (2 ^ 32 :: int)" by (rule mod_add_self2)
  have "creditable env p' ?c ?s = Some (job, ok, (j, e, t, n + 2 ^ 32))"
    by (rule creditable_again [OF assms(1) mod assms(3,4) new]) (use c st s in simp_all)
  moreover have "pads_ok (en_b3 env) (sv_pads ?s)" by (simp add: s pads)
  ultimately show ?thesis
    using onSubmit_credits [OF assms(1,2), of rid] onSubmit_credits [of env p' ?c ?s job ok _ rid'] c(5)
    by (auto simp: h_def [symmetric] expected_event_def share_input_of_def)
qed

theorem nonce_alias_credited_again_witness:
  "\<exists>job pads e1 e2. let h = onSubmit sample_env None (sample_submit ''3'') sample_client (sample_server job pads) in
     share_events h = [e1] \<and>
     share_events (onSubmit sample_env None (sample_submit ''100000003'') (fst (snd (fst h))) (snd (snd (fst h)))) = [e2]"
proof -
  obtain job ctr where job: "buildJob sample_sha sample_address sample_template True 0 = Inr (job, ctr)"
    by (rule sample_job_exists)
  obtain pads where pads: "newPadCache 8 = Inr pads" by (simp add: newPadCache_def)
  have ok: "pads_ok (en_b3 sample_env) (sv_pads (sample_server job pads))"
    using newPadCache_ok [OF pads] by (simp add: sample_server_def sample_env_def)
  obtain r where r: "creditable sample_env (sample_submit ''3'') sample_client (sample_server job pads) =
      Some (job, r, (''0000001'', ''00000002'', 2, 3))"
    using sample_creditable [OF job] by blast
  have "parse_hex_int ''3'' = Some 3" "parse_hex_int ''100000003'' = Some 4294967299" by code_simp+
  then have sub: "submitted (sample_submit ''100000003'') = Some (''0000001'', ''00000002'', 2, 3 + 2 ^ 32)"
    "param (sample_submit ''100000003'') 5 = param (sample_submit ''3'') 5"
    using sample_submitted [of "''100000003''" 4294967299] sample_submitted [of "''3''" 3] by simp_all
  show ?thesis
    using nonce_alias_credited_again [OF r ok sub, of None None] by (auto simp: sample_client_fields Let_def)
qed

theorem no_replay_in_window_witness:
  "\<exists>job pads. credited_keys (replicate 2 (sample_env, None, sample_submit ''3'')) sample_client (sample_server job pads) =
     [show_key (''0000001'', ''00000002'', 2, 3)]"
proof -
  obtain job ctr where job: "buildJob sample_sha sample_address sample_template True 0 = Inr (job, ctr)"
    by (rule sample_job_exists)
  obtain pads where pads: "newPadCache 8 = Inr pads" by (simp add: newPadCache_def)
  let ?s = "sample_server job pads" and ?x = "(sample_env, None, sample_submit ''3'')"
  have ok: "pads_ok (en_b3 sample_env) (sv_pads ?s)"
    using newPadCache_ok [OF pads] by (simp add: sample_server_def sample_env_def)
  obtain r where r: "creditable sample_env (sample_submit ''3'') sample_client ?s = Some (job, r, (''0000001'', ''00000002'', 2, 3))"
    using sample_creditable [OF job] by blast
  have sub: "submitted (sample_submit ''3'') = Some (''0000001'', ''00000002'', 2, 3)" using r by (rule creditableE) simp
  have "distinct (credited_keys [?x, ?x] sample_client ?s)" by (rule no_replay_in_window) simp
  then have "credited_keys [?x, ?x] sample_client ?s = [show_key (''0000001'', ''00000002'', 2, 3)]"
    using onSubmit_credits [OF r ok, of None] by (simp add: Let_def sub split: if_splits)
  then show ?thesis by (intro exI) (simp add: numeral_2_eq_2)
qed

end
