(* ===== verification/Stratum_System.thy ===== *)
theory Stratum_System
  imports Stratum_Server
begin

text \<open>
  The Stratum V1 server as a transition system: connections, requests, timers, jobs and passport
  slots in any order. \<open>srv_reach\<close> are the states reached from an empty server; every handler keeps
  the well-formedness of the connections and the bookkeeping of reserved slots.
\<close>

section \<open>The server as a transition system\<close>

text \<open>
  An event of the event loop. Each handler runs to completion, with the environment (clock, random
  bytes and what the node and the database answer) chosen per event. \<open>NewJob\<close> is a job emitted by
  the job manager, with the manager's state at that moment, and \<open>AddSlot\<close> a slot bought on the web.
\<close>

datatype srv_event =
  Connect vardiff_params string
| Rpc int rpc_id rpc_method "string option list"
| Close int
| SubscribeTimeout int
| NewJob job_manager stratum_job
| AddSlot int
| SlotAdded int
| VardiffTick bool

fun srv_step :: "server_env \<Rightarrow> srv_event \<Rightarrow> client_counters \<times> server \<Rightarrow> srv_effect list \<times> client_counters \<times> server" where
  "srv_step env (Connect params ip) (k, s) = ([], onConnection params ip (en_now env) k s)"
| "srv_step env (Rpc connId rid m p) (k, s) = (case jsmap_get (sv_clients s) connId of
     None \<Rightarrow> ([], k, s)
   | Some c \<Rightarrow> let (out, c, s) = handleRpc env rid m p c s
               in (out, k, s\<lparr>sv_clients := jsmap_set connId c (sv_clients s)\<rparr>))"
| "srv_step env (Close connId) (k, s) = ([], k, onClose connId s)"
| "srv_step env (SubscribeTimeout connId) (k, s) = ([], k, subscribeTimeout connId s)"
| "srv_step env (NewJob jobs job) (k, s) = (let ((out, s), e) = broadcastJob job (s\<lparr>sv_jobs := jobs\<rparr>) in (out, k, s))"
| "srv_step env (AddSlot uid) (k, s) = ([], k, s\<lparr>sv_passports := snd (addEmpty uid (sv_passports s))\<rparr>)"
| "srv_step env (SlotAdded uid) (k, s) = (let (out, s) = slotAdded env uid s in (out, k, s))"
| "srv_step env (VardiffTick enabled) (k, s) = (let (out, s) = vardiffTick enabled (en_now env) s in (out, k, s))"

section \<open>Invariant\<close>

text \<open>The well-formedness of a connection's fields.\<close>

definition client_ok :: "client \<Rightarrow> bool" where
  "client_ok c \<longleftrightarrow> vd_ok (cl_vardiff c) \<and> cl_extranonce2Size c = 4 \<and>
     (\<forall>d \<in> set (map snd (cl_jobShareDiff c)). js_is_finite d \<and> \<not> js_lt d MIN_SHARE_DIFFICULTY) \<and>
     (\<forall>k. cl_pubkey c = Some k \<longrightarrow> is_hex128 k) \<and>
     distinct (cl_seenShares c) \<and> length (cl_seenShares c) \<le> 50000 \<and>
     (cl_pubkey c = None \<longrightarrow> cl_challenge c = None \<and> cl_reservedSlotId c = None \<and> (cl_attest c = ANone \<or> cl_attest c = AInvalid)) \<and>
     (cl_state c = Authorized \<longrightarrow> cl_username c \<noteq> [])"

text \<open>The slots reserved by connections are held, each by one connection.\<close>

definition held_ok :: "(int, client) jsmap \<Rightarrow> int list \<Rightarrow> bool" where
  "held_ok cs held \<longleftrightarrow>
     (\<forall>i c x. jsmap_get cs i = Some c \<and> cl_reservedSlotId c = Some x \<longrightarrow> x \<in> set held) \<and>
     (\<forall>i j c d x. jsmap_get cs i = Some c \<and> jsmap_get cs j = Some d \<and> cl_reservedSlotId c = Some x \<and>
        cl_reservedSlotId d = Some x \<longrightarrow> i = j)"

definition clients_ok :: "client_counters \<Rightarrow> (int, client) jsmap \<Rightarrow> bool" where
  "clients_ok k cs \<longleftrightarrow> jsmap_wf cs \<and>
     (\<forall>i c. jsmap_get cs i = Some c \<longrightarrow> cl_connId c = i \<and> i < cc_nextConnId k \<and> client_ok c)"

definition srv_ok :: "(bytes \<Rightarrow> nat \<Rightarrow> bytes) \<Rightarrow> client_counters \<times> server \<Rightarrow> bool" where
  "srv_ok b3 = (\<lambda>(k, s). clients_ok k (sv_clients s) \<and> held_ok (sv_clients s) (sv_heldSlots s) \<and>
     slots_ok (sv_passports s) \<and> pads_ok b3 (sv_pads s))"

text \<open>Events and environments as the program produces them.\<close>

definition env_ok :: "(bytes \<Rightarrow> nat \<Rightarrow> bytes) \<Rightarrow> server_env \<Rightarrow> bool" where
  "env_ok b3 env \<longleftrightarrow> en_b3 env = b3 \<and> (en_passports env = memory_ops \<or> en_passports env = pg_ops) \<and>
     (\<forall>d \<in> set (map snd (en_workerDifficulty env)). num_ok d)"

fun event_ok :: "srv_event \<Rightarrow> bool" where
  "event_ok (Connect params ip) = params_ok params"
| "event_ok (Rpc i rid (MSuggestDifficulty (Some d)) p) = num_ok d"
| "event_ok e = True"

definition newServer :: "pad_cache \<Rightarrow> bool \<Rightarrow> job_manager \<Rightarrow> passport_table \<Rightarrow> server" where
  "newServer pads recordSignatures jobs passports =
     \<lparr>sv_clients = [], sv_heldSlots = [], sv_signatureLog = [], sv_recordSignatures = recordSignatures,
      sv_passports = passports, sv_jobs = jobs, sv_pads = pads\<rparr>"

inductive srv_reach :: "(bytes \<Rightarrow> nat \<Rightarrow> bytes) \<Rightarrow> client_counters \<times> server \<Rightarrow> bool" for b3 where
  start: "newPadCache cap = Inr pads \<Longrightarrow> slots_ok t \<Longrightarrow>
    srv_reach b3 (\<lparr>cc_nextConnId = 1, cc_nextExtranonce1 = 0\<rparr>, newServer pads rec jobs t)"
| step: "srv_reach b3 st \<Longrightarrow> env_ok b3 env \<Longrightarrow> event_ok e \<Longrightarrow> srv_reach b3 (snd (srv_step env e st))"

text \<open>
  What a handler may do to the connection it serves and to the shared state: reserve one fresh
  slot, give its slot back, or neither.
\<close>

definition held_change :: "client \<Rightarrow> int list \<Rightarrow> client \<Rightarrow> int list \<Rightarrow> bool" where
  "held_change c held c' held' \<longleftrightarrow>
     cl_reservedSlotId c' = cl_reservedSlotId c \<and> set held' = set held \<or>
     (\<exists>x. cl_reservedSlotId c' = Some x \<and> x \<notin> set held \<and> set held' = insert x (set held)) \<or>
     (\<exists>x. cl_reservedSlotId c = Some x \<and> cl_reservedSlotId c' = None \<and> set held' = set held - {x})"

text \<open>A difficulty stamped on a job stays.\<close>

definition stamps_kept :: "client \<Rightarrow> client \<Rightarrow> bool" where
  "stamps_kept c c' \<longleftrightarrow> jsmap_get (cl_jobShareDiff c) \<subseteq>\<^sub>m jsmap_get (cl_jobShareDiff c')"

lemma stamps_kept_same [simp]: "cl_jobShareDiff c' = cl_jobShareDiff c \<Longrightarrow> stamps_kept c c'"
  by (simp add: stamps_kept_def)

definition keeps :: "(bytes \<Rightarrow> nat \<Rightarrow> bytes) \<Rightarrow> client \<Rightarrow> server \<Rightarrow> client \<times> server \<Rightarrow> bool" where
  "keeps b3 c s = (\<lambda>(c', s'). (client_ok c \<longrightarrow> client_ok c') \<and> cl_connId c' = cl_connId c \<and> sv_clients s' = sv_clients s \<and>
     stamps_kept c c' \<and> held_change c (sv_heldSlots s) c' (sv_heldSlots s') \<and> (slots_ok (sv_passports s) \<longrightarrow> slots_ok (sv_passports s')) \<and>
     (pads_ok b3 (sv_pads s) \<longrightarrow> pads_ok b3 (sv_pads s')))"

lemma held_ok_update:
  assumes "held_ok cs held" "jsmap_get cs i = Some c" "held_change c held c' held'"
  shows "held_ok (jsmap_set i c' cs) held'"
proof -
  have other: "x \<in> set held \<and> cl_reservedSlotId c \<noteq> Some x" if "j \<noteq> i" "jsmap_get cs j = Some d" "cl_reservedSlotId d = Some x" for j d x
    using assms(1,2) that unfolding held_ok_def by blast
  have own: "cl_reservedSlotId c = Some x \<Longrightarrow> x \<in> set held" for x using assms(1,2) unfolding held_ok_def by blast
  have new: "x \<in> set held' \<and> (\<forall>j d. j \<noteq> i \<longrightarrow> jsmap_get cs j = Some d \<longrightarrow> cl_reservedSlotId d \<noteq> Some x)"
    if "cl_reservedSlotId c' = Some x" for x
    using assms(3) that own other unfolding held_change_def by fastforce
  have kept: "x \<in> set held'" if "j \<noteq> i" "jsmap_get cs j = Some d" "cl_reservedSlotId d = Some x" for j d x
    using assms(3) other [OF that] unfolding held_change_def by auto
  show ?thesis unfolding held_ok_def
  proof (intro conjI allI impI; elim conjE)
    fix j d x assume "jsmap_get (jsmap_set i c' cs) j = Some d" "cl_reservedSlotId d = Some x"
    then show "x \<in> set held'" using new kept by (auto simp: jsmap_get_set split: if_splits)
  next
    fix j l d f x assume "jsmap_get (jsmap_set i c' cs) j = Some d" "jsmap_get (jsmap_set i c' cs) l = Some f"
      "cl_reservedSlotId d = Some x" "cl_reservedSlotId f = Some x"
    then show "j = l" using new [of x] assms(1) unfolding held_ok_def
      by (auto simp: jsmap_get_set split: if_splits)
  qed
qed

lemma clients_ok_update:
  "clients_ok k cs \<Longrightarrow> jsmap_get cs i = Some c \<Longrightarrow> (client_ok c \<longrightarrow> client_ok c') \<Longrightarrow> cl_connId c' = cl_connId c \<Longrightarrow>
   clients_ok k (jsmap_set i c' cs)"
  by (auto simp: clients_ok_def jsmap_get_set)

lemma srv_ok_keeps:
  assumes "srv_ok b3 (k, s)" "jsmap_get (sv_clients s) i = Some c" "keeps b3 c s (c', s')"
  shows "srv_ok b3 (k, s'\<lparr>sv_clients := jsmap_set i c' (sv_clients s')\<rparr>)"
  using assms held_ok_update [of "sv_clients s" "sv_heldSlots s" i c c' "sv_heldSlots s'"]
    clients_ok_update [of k "sv_clients s" i c c']
  by (auto simp: srv_ok_def keeps_def)

section \<open>Every handler keeps the invariant\<close>

lemma held_same [simp]: "cl_reservedSlotId c' = cl_reservedSlotId c \<Longrightarrow> held_change c held c' held"
  by (simp add: held_change_def)

lemma client_ok_stampJob: "client_ok c \<Longrightarrow> client_ok (snd (stampJob job c))"
  by (simp add: stampJob_def Let_def client_ok_def jsmap_set_fresh split: option.split)

lemma stampJob_same: "cl_connId (snd (stampJob job c)) = cl_connId c" "cl_reservedSlotId (snd (stampJob job c)) = cl_reservedSlotId c"
    "cl_state (snd (stampJob job c)) = cl_state c" "stamps_kept c (snd (stampJob job c))"
  by (auto simp: stampJob_def Let_def stamps_kept_def map_le_def jsmap_get_set split: option.split)

lemma pushJob_client:
  "snd (pushJob job c) = (let c1 = snd (stampJob job (c\<lparr>cl_lastJob := Some job\<rparr>)) in
     c1\<lparr>cl_lastNotifiedDiff := cl_lastNotifiedDiff (snd (pushJob job c))\<rparr>)"
  by (simp add: pushJob_def Let_def case_prod_beta pushDifficulty_def split: sum.split option.split)

lemma client_ok_simps [simp]:
  "client_ok (c\<lparr>cl_lastJob := j\<rparr>) = client_ok c" "client_ok (c\<lparr>cl_lastNotifiedDiff := d\<rparr>) = client_ok c"
  "client_ok (c\<lparr>cl_userAgent := u\<rparr>) = client_ok c" "client_ok (c\<lparr>cl_userId := i\<rparr>) = client_ok c"
  "client_ok (c\<lparr>cl_lastShareAt := t\<rparr>) = client_ok c" "client_ok (c\<lparr>cl_sharesAccepted := n\<rparr>) = client_ok c"
  "client_ok (c\<lparr>cl_sharesRejected := n\<rparr>) = client_ok c" "client_ok (c\<lparr>cl_authorizedAt := t\<rparr>) = client_ok c"
  "client_ok (c\<lparr>cl_destroyed := b\<rparr>) = client_ok c"
  by (simp_all add: client_ok_def)

lemma client_ok_more:
  "client_ok c \<Longrightarrow> client_ok (c\<lparr>cl_state := Subscribed\<rparr>)"
  "client_ok c \<Longrightarrow> u \<noteq> [] \<Longrightarrow> client_ok (c\<lparr>cl_username := u, cl_state := Authorized\<rparr>)"
  "client_ok c \<Longrightarrow> vd_ok v \<Longrightarrow> client_ok (c\<lparr>cl_vardiff := v\<rparr>)"
  "client_ok c \<Longrightarrow> is_hex128 k \<Longrightarrow> client_ok (c\<lparr>cl_pubkey := Some k\<rparr>)"
  "client_ok c \<Longrightarrow> cl_pubkey c \<noteq> None \<Longrightarrow> client_ok (c\<lparr>cl_attest := a\<rparr>)"
  "client_ok c \<Longrightarrow> client_ok (c\<lparr>cl_attest := AInvalid\<rparr>)"
  "client_ok c \<Longrightarrow> cl_pubkey c \<noteq> None \<Longrightarrow> client_ok (c\<lparr>cl_challenge := ch\<rparr>)"
  "client_ok c \<Longrightarrow> client_ok (c\<lparr>cl_challenge := None\<rparr>)"
  "client_ok c \<Longrightarrow> cl_pubkey c \<noteq> None \<Longrightarrow> client_ok (c\<lparr>cl_reservedSlotId := x\<rparr>)"
  "client_ok c \<Longrightarrow> client_ok (c\<lparr>cl_reservedSlotId := None\<rparr>)"
  by (auto simp: client_ok_def)

lemma client_ok_vd: "client_ok c \<Longrightarrow> vd_ok (cl_vardiff c)"
  by (simp add: client_ok_def)

lemma client_ok_pushJob: "client_ok c \<Longrightarrow> client_ok (snd (pushJob job c))"
  by (subst pushJob_client) (simp add: Let_def client_ok_stampJob)

lemma pushJob_same: "cl_connId (snd (pushJob job c)) = cl_connId c" "cl_reservedSlotId (snd (pushJob job c)) = cl_reservedSlotId c"
    "cl_state (snd (pushJob job c)) = cl_state c"
  by (subst pushJob_client, simp add: Let_def stampJob_same)+

lemma pushJob_stamps: "stamps_kept c (snd (pushJob job c))"
proof -
  have "cl_jobShareDiff (snd (pushJob job c)) = cl_jobShareDiff (snd (stampJob job (c\<lparr>cl_lastJob := Some job\<rparr>)))"
    by (subst pushJob_client) (simp add: Let_def)
  then show ?thesis using stampJob_same(4) [of "c\<lparr>cl_lastJob := Some job\<rparr>" job] by (simp add: stamps_kept_def)
qed

lemma client_ok_remember: "client_ok c \<Longrightarrow> client_ok (remember_share k c)"
  by (auto simp: client_ok_def remember_share_def Let_def)

lemma vd_ok_share: "vd_ok v \<Longrightarrow> vd_ok (onShareAccepted v)"
  using vd_ok_step [of v Share] by simp

lemma keeps_onSubscribe: "keeps b3 c s (snd (onSubscribe rid p c s))"
  by (auto simp: keeps_def onSubscribe_def Let_def intro!: client_ok_more)

lemma keeps_onSuggestDifficulty: "num_ok d \<Longrightarrow> keeps b3 c s (snd (onSuggestDifficulty env rid d c s))"
  using vd_ok_setDiff [of "cl_vardiff c" d "en_now env"]
  by (auto simp: keeps_def onSuggestDifficulty_def Let_def case_prod_beta pushDifficulty_def client_ok_vd
      intro!: client_ok_more split: sum.split)

lemma sendChallenge_client: "snd (sendChallenge env c) = c\<lparr>cl_challenge := Some (en_random env)\<rparr>"
  by (simp add: sendChallenge_def Let_def)

lemma keeps_onSubmit:
  assumes "en_b3 env = b3"
  shows "keeps b3 c s (snd (fst (onSubmit env rid p c s)))"
proof -
  have pads: "pads_ok b3 (sv_pads s) \<Longrightarrow> pads_ok b3 (snd (validateShare (en_b3 env) (en_sha env) now i (sv_pads s)))" for now i
    using validateShare_verdict(2) assms by blast
  have rem: "cl_reservedSlotId (remember_share k c) = cl_reservedSlotId c" "cl_connId (remember_share k c) = cl_connId c" for k
    by (simp_all add: remember_share_def Let_def)
  have rec: "sv_clients (snd (recordUncredited env a c s)) = sv_clients s" "sv_heldSlots (snd (recordUncredited env a c s)) = sv_heldSlots s"
    "sv_passports (snd (recordUncredited env a c s)) = sv_passports s" "sv_pads (snd (recordUncredited env a c s)) = sv_pads s" for a c s
    by (simp_all add: recordUncredited_def Let_def case_prod_beta)
  have credit: "keeps b3 c s (snd (creditShare env rid job a d ok (remember_share k c) (s\<lparr>sv_pads := pads\<rparr>)))"
    if "pads_ok b3 (sv_pads s) \<longrightarrow> pads_ok b3 pads" for job a d ok k pads
    using that client_ok_remember [of c k]
    by (auto simp: keeps_def creditShare_def Let_def case_prod_beta rem client_ok_vd vd_ok_share intro!: client_ok_more)
  have refuse: "keeps b3 c s (count_reject c, s)" "keeps b3 c s (count_reject c, snd (recordUncredited env a c s))" for a
    by (simp_all add: keeps_def count_reject_def rec)
  have checked: "keeps b3 c s (remember_share k c, s\<lparr>sv_pads := pads\<rparr>)"
    "keeps b3 c s (count_reject (remember_share k c), snd (recordUncredited env a (remember_share k c) (s\<lparr>sv_pads := pads\<rparr>)))"
    if "pads_ok b3 (sv_pads s) \<longrightarrow> pads_ok b3 pads" for a k pads
    using that by (simp_all add: keeps_def count_reject_def rec rem client_ok_remember)
  show ?thesis
    unfolding onSubmit_def Let_def
    by (simp add: case_prod_beta refuse split: option.split sum.split share_check.split)
      (auto intro!: credit checked pads)
qed

lemma keeps_onAuthorize:
  assumes "\<forall>d \<in> set (map snd (en_workerDifficulty env)). num_ok d"
  shows "keeps b3 c s (snd (fst (onAuthorize env rid p c s)))"
proof (cases "trim (text_of (param p 0)) = []")
  case False
  let ?u = "trim (text_of (param p 0))"
  define c1 where "c1 = (case po_findUserId (en_passports env) (fst (splitUserName ?u)) (sv_passports s) of
      Inl _ \<Rightarrow> c\<lparr>cl_username := ?u, cl_state := Authorized, cl_authorizedAt := en_now env, cl_userId := None\<rparr>
    | Inr u \<Rightarrow> c\<lparr>cl_username := ?u, cl_state := Authorized, cl_authorizedAt := en_now env, cl_userId := u\<rparr>)"
  define rv where "rv = (case jsmap_get (en_workerDifficulty env) ?u of
      Some pinned \<Rightarrow> setDiff pinned (en_now env) (cl_vardiff c1) | None \<Rightarrow> (Inr (currentDiff (cl_vardiff c1)), cl_vardiff c1))"
  define c2 where "c2 = c1\<lparr>cl_vardiff := snd rv\<rparr>"
  have c1: "client_ok c \<Longrightarrow> client_ok c1" "cl_connId c1 = cl_connId c" "cl_reservedSlotId c1 = cl_reservedSlotId c"
    "cl_jobShareDiff c1 = cl_jobShareDiff c"
    using False client_ok_more(2) [of c ?u] by (auto simp: c1_def split: sum.split)
  have "client_ok c \<Longrightarrow> vd_ok (snd rv)"
    using c1(1) client_ok_vd [of c1] assms vd_ok_setDiff
    by (auto simp: rv_def split: option.split dest!: jsmap_get_Some_mem)
  then have c2: "client_ok c \<Longrightarrow> client_ok c2" "cl_connId c2 = cl_connId c" "cl_reservedSlotId c2 = cl_reservedSlotId c"
    "cl_jobShareDiff c2 = cl_jobShareDiff c"
    using c1 by (auto simp: c2_def intro: client_ok_more)
  have "snd (fst (onAuthorize env rid p c s)) = (c2, s) \<or> (\<exists>job. snd (fst (onAuthorize env rid p c s)) = (snd (pushJob job c2), s))"
    using False unfolding c2_def rv_def c1_def onAuthorize_def Let_def
    by (cases "po_findUserId (en_passports env) (fst (splitUserName ?u)) (sv_passports s)";
        cases "jsmap_get (en_workerDifficulty env) ?u"; cases "getCurrent (sv_jobs s)")
      (auto simp: case_prod_beta split: sum.split)
  then show ?thesis using c2 client_ok_pushJob [of c2] pushJob_stamps [of c2]
    by (auto simp: keeps_def pushJob_same stamps_kept_def)
qed (simp add: onAuthorize_def keeps_def)

lemma reserve_change:
  assumes "en_passports env = memory_ops \<or> en_passports env = pg_ops"
    and "po_reserveEmpty (en_passports env) u held t = (r, held')"
  shows "case r of None \<Rightarrow> held' = held | Some slot \<Rightarrow> sl_id slot \<notin> set held \<and> set held' = insert (sl_id slot) (set held)"
  using assms memory.reserve_Some [of u held t _ held'] memory.reserve_None [of u held t held']
  by (auto simp: memory_ops_def pg_ops_def pg_reserveEmpty_eq split: option.split)

lemma keeps_onPubkey:
  assumes "en_passports env = memory_ops \<or> en_passports env = pg_ops"
  shows "keeps b3 c s (snd (onPubkey env rid p c s))"
proof -
  define r held where "r u = fst (po_reserveEmpty (en_passports env) u (sv_heldSlots s) (sv_passports s))"
    and "held u = snd (po_reserveEmpty (en_passports env) u (sv_heldSlots s) (sv_passports s))" for u
  then have r: "po_reserveEmpty (en_passports env) u (sv_heldSlots s) (sv_passports s) = (r u, held u)" for u
    by simp
  have ch: "r u = None \<Longrightarrow> held u = sv_heldSlots s"
    "r u = Some slot \<Longrightarrow> sl_id slot \<notin> set (sv_heldSlots s)"
    "r u = Some slot \<Longrightarrow> set (held u) = insert (sl_id slot) (set (sv_heldSlots s))" for u slot
    using reserve_change [OF assms r, of u] by simp_all
  show ?thesis
    unfolding onPubkey_def Let_def
    by (simp add: case_prod_beta r sendChallenge_client keeps_def client_ok_more split: option.split)
      (auto simp: held_change_def client_ok_more ch)
qed

lemma keeps_release: "keeps b3 c s (release_slot c s)"
  by (auto simp: keeps_def release_slot_def held_change_def client_ok_more split: option.split)

lemma lock_keeps:
  assumes "en_passports env = memory_ops \<or> en_passports env = pg_ops" "slots_ok t"
  shows "slots_ok (snd (po_lock (en_passports env) i k t))"
  using assms(1) memory.lock_ok [OF assms(2) surjective_pairing] pg.lock_ok [OF assms(2) surjective_pairing]
  by (auto simp: memory_ops_def pg_ops_def)

lemma release_fields:
  "cl_pubkey (fst (release_slot c s)) = cl_pubkey c" "cl_jobShareDiff (fst (release_slot c s)) = cl_jobShareDiff c"
  by (simp_all add: release_slot_def split: option.split)

lemma keeps_onAttest:
  assumes "en_passports env = memory_ops \<or> en_passports env = pg_ops"
  shows "keeps b3 c s (snd (fst (onAttest env rid p c s)))"
proof -
  define c1 where "c1 = c\<lparr>cl_challenge := None\<rparr>"
  define t where "t x k = po_lock (en_passports env) x k (sv_passports s)" for x k
  have c1: "client_ok c \<Longrightarrow> client_ok c1" "cl_connId c1 = cl_connId c" "cl_reservedSlotId c1 = cl_reservedSlotId c"
    "cl_pubkey c1 = cl_pubkey c" "cl_jobShareDiff c1 = cl_jobShareDiff c" by (auto simp: c1_def client_ok_more)
  have bad: "keeps b3 c s (fst (release_slot c1 s')\<lparr>cl_attest := AInvalid\<rparr>, snd (release_slot c1 s'))"
    "cl_pubkey c \<noteq> None \<Longrightarrow> keeps b3 c s (fst (release_slot c1 s')\<lparr>cl_attest := AValid\<rparr>, snd (release_slot c1 s'))"
    if s': "s' = s \<or> (\<exists>x k. s' = s\<lparr>sv_passports := snd (t x k)\<rparr>)" for s'
  proof -
    have "slots_ok (sv_passports s) \<Longrightarrow> slots_ok (sv_passports s')" "sv_clients s' = sv_clients s"
      "sv_heldSlots s' = sv_heldSlots s" "sv_pads s' = sv_pads s"
      using s' lock_keeps [OF assms] by (auto simp: t_def)
    then show "keeps b3 c s (fst (release_slot c1 s')\<lparr>cl_attest := AInvalid\<rparr>, snd (release_slot c1 s'))"
      "cl_pubkey c \<noteq> None \<Longrightarrow> keeps b3 c s (fst (release_slot c1 s')\<lparr>cl_attest := AValid\<rparr>, snd (release_slot c1 s'))"
      using keeps_release [of b3 c1 s'] c1
      by (auto simp: keeps_def held_change_def case_prod_beta release_fields intro!: client_ok_more)
  qed
  have raise: "keeps b3 c s (c1, s\<lparr>sv_passports := snd (t x k)\<rparr>)" for x k
    using lock_keeps [OF assms] c1 by (simp add: keeps_def t_def)
  have plain: "cl_pubkey c \<noteq> None \<Longrightarrow> keeps b3 c s (c1\<lparr>cl_attest := AValid\<rparr>, s)"
    using c1 by (auto simp: keeps_def intro: client_ok_more)
  show ?thesis
    unfolding onAttest_def Let_def c1_def [symmetric] t_def [symmetric]
    by (simp add: case_prod_beta bad c1(4) split: option.split sum.split)
      (auto intro!: bad plain raise)
qed

text \<open>Broadcasts and retunes change every connection in place.\<close>

definition same_client :: "int \<times> client \<Rightarrow> int \<times> client \<Rightarrow> bool" where
  "same_client = (\<lambda>(i, c) (j, d). i = j \<and> (client_ok c \<longrightarrow> client_ok d) \<and> cl_connId d = cl_connId c \<and>
     cl_reservedSlotId d = cl_reservedSlotId c \<and> stamps_kept c d)"

lemma same_client_get:
  "list_all2 same_client cs cs' \<Longrightarrow> jsmap_get cs' i = Some d \<Longrightarrow>
   \<exists>c. jsmap_get cs i = Some c \<and> same_client (i, c) (i, d)"
  by (induction rule: list_all2_induct) (auto simp: same_client_def split: if_splits)

lemma same_client_keys: "list_all2 same_client cs cs' \<Longrightarrow> map fst cs' = map fst cs"
  by (induction rule: list_all2_induct) (auto simp: same_client_def)

lemma same_clients_ok:
  assumes "list_all2 same_client cs cs'"
  shows "clients_ok k cs \<Longrightarrow> clients_ok k cs'" "held_ok cs held \<Longrightarrow> held_ok cs' held"
proof -
  show "clients_ok k cs \<Longrightarrow> clients_ok k cs'"
    using same_client_get [OF assms] same_client_keys [OF assms]
    by (fastforce simp: clients_ok_def jsmap_wf_def same_client_def)
  show "held_ok cs held \<Longrightarrow> held_ok cs' held"
  proof -
    assume ok: "held_ok cs held"
    have get: "\<exists>c. jsmap_get cs i = Some c \<and> cl_reservedSlotId c = Some x"
      if "jsmap_get cs' i = Some d" "cl_reservedSlotId d = Some x" for i d x
      using same_client_get [OF assms that(1)] that(2) by (auto simp: same_client_def)
    then have "x \<in> set held" if "jsmap_get cs' i = Some d" "cl_reservedSlotId d = Some x" for i d x
      using ok that unfolding held_ok_def by blast
    moreover have "i = j" if "jsmap_get cs' i = Some d" "cl_reservedSlotId d = Some x"
      "jsmap_get cs' j = Some f" "cl_reservedSlotId f = Some x" for i j d f x
      using ok get [OF that(1,2)] get [OF that(3,4)] unfolding held_ok_def by blast
    ultimately show ?thesis unfolding held_ok_def by blast
  qed
qed

lemma same_client_refl: "list_all2 same_client cs cs"
  by (auto simp: list_all2_same same_client_def)

lemma broadcast_same: "broadcast_to job cs = (out, cs', e) \<Longrightarrow> list_all2 same_client cs cs'"
proof (induction cs arbitrary: out cs' e)
  case (Cons x cs)
  obtain i c where x: "x = (i, c)" by (cases x)
  obtain r d where r: "pushJob job c = (r, d)" by (cases "pushJob job c")
  obtain out2 cs2 e2 where b: "broadcast_to job cs = (out2, cs2, e2)" by (metis surj_pair)
  have d: "same_client (i, c) (i, d)" "same_client (i, c) (i, c)"
    using client_ok_pushJob [of c job] pushJob_same [of job c] pushJob_stamps [of c job] by (simp_all add: same_client_def r)
  then show ?case using Cons.prems Cons.IH [OF b] same_client_refl
    by (cases r) (auto simp: x r b split: if_splits)
qed simp

lemma retune_same: "client_ok c \<Longrightarrow> client_ok (snd (retuneClient en now c))"
    "cl_connId (snd (retuneClient en now c)) = cl_connId c" "cl_reservedSlotId (snd (retuneClient en now c)) = cl_reservedSlotId c"
    "cl_jobShareDiff (snd (retuneClient en now c)) = cl_jobShareDiff c"
  using vd_ok_maybeRetune [OF client_ok_vd, of c now]
  by (auto simp: retuneClient_def Let_def case_prod_beta pushDifficulty_def intro: client_ok_more split: option.split)

lemma vardiffTick_same: "list_all2 same_client (sv_clients s) (sv_clients (snd (vardiffTick en now s)))"
  by (auto simp: vardiffTick_def Let_def comp_def case_prod_beta list_all2_conv_all_nth same_client_def retune_same)

lemma slotAdded_keeps:
  assumes "en_passports env = memory_ops \<or> en_passports env = pg_ops" "srv_ok b3 (k, s)"
  shows "srv_ok b3 (k, snd (slotAdded env u s))"
proof (cases "sort_key cl_authorizedAt (filter (client_pending u) (map snd (sv_clients s)))")
  case (Cons c cs)
  then have c: "c \<in> set (map snd (sv_clients s))" "client_pending u c" using sorted_head [OF Cons] by auto
  then obtain i where i: "(i, c) \<in> set (sv_clients s)" by auto
  with assms(2) have get: "jsmap_get (sv_clients s) i = Some c" "cl_connId c = i"
    by (auto simp: srv_ok_def clients_ok_def jsmap_wf_def map_of_eq_Some_iff)
  obtain r held where r: "po_reserveEmpty (en_passports env) u (sv_heldSlots s) (sv_passports s) = (r, held)" by fastforce
  note ch = reserve_change [OF assms(1) r]
  show ?thesis
  proof (cases r)
    case (Some slot)
    let ?c = "c\<lparr>cl_reservedSlotId := Some (sl_id slot), cl_attest := ANone, cl_challenge := Some (en_random env)\<rparr>"
    have "keeps b3 c s (?c, s\<lparr>sv_heldSlots := held\<rparr>)"
      using ch c(2) Some by (auto simp: keeps_def held_change_def client_pending_def intro!: client_ok_more)
    from srv_ok_keeps [OF assms(2) get(1) this] show ?thesis
      by (simp add: slotAdded_def Cons r Some Let_def case_prod_beta sendChallenge_client get(2))
  qed (use ch assms(2) in \<open>simp add: slotAdded_def Cons r Let_def\<close>)
qed (use assms(2) in \<open>simp add: slotAdded_def\<close>)

lemma onClose_ok: "srv_ok b3 (k, s) \<Longrightarrow> srv_ok b3 (k, onClose i s)"
proof (cases "jsmap_get (sv_clients s) i")
  case (Some c)
  assume ok: "srv_ok b3 (k, s)"
  let ?c = "fst (release_slot c s)" and ?s = "snd (release_slot c s)"
  have same: "sv_clients ?s = sv_clients s" "sv_passports ?s = sv_passports s" "sv_pads ?s = sv_pads s"
    by (simp_all add: release_slot_def split: option.split)
  have "clients_ok k (jsmap_delete i (sv_clients s))"
    using ok by (auto simp: srv_ok_def clients_ok_def jsmap_get_delete)
  moreover have "held_ok (jsmap_delete i (sv_clients s)) (sv_heldSlots ?s)"
  proof -
    have "x \<in> set (sv_heldSlots ?s)" if "j \<noteq> i" "jsmap_get (sv_clients s) j = Some d" "cl_reservedSlotId d = Some x" for j d x
      using ok that Some unfolding srv_ok_def held_ok_def release_slot_def by (auto split: option.split)
    then show ?thesis using ok unfolding srv_ok_def held_ok_def by (auto simp: jsmap_get_delete)
  qed
  ultimately show ?thesis using ok by (simp add: onClose_def Some case_prod_beta srv_ok_def same)
qed (simp add: onClose_def)

lemma onConnection_ok:
  assumes "srv_ok b3 (k, s)" "params_ok params"
  shows "srv_ok b3 (onConnection params ip now k s)"
proof -
  let ?c = "fst (newStratumClient params ip now k)"
  have c: "cl_connId ?c = cc_nextConnId k" "cl_reservedSlotId ?c = None" "client_ok ?c"
    "cc_nextConnId (snd (newStratumClient params ip now k)) = cc_nextConnId k + 1"
    using vd_ok_new [OF assms(2)] by (simp_all add: newStratumClient_def case_prod_beta client_ok_def)
  have old: "clients_ok k (sv_clients s)" "held_ok (sv_clients s) (sv_heldSlots s)" using assms(1) by (simp_all add: srv_ok_def)
  then have "clients_ok (snd (newStratumClient params ip now k)) (jsmap_set (cc_nextConnId k) ?c (sv_clients s))"
    using c by (auto simp: clients_ok_def jsmap_get_set less_imp_le split: if_splits)
  moreover have "held_ok (jsmap_set (cc_nextConnId k) ?c (sv_clients s)) (sv_heldSlots s)"
    using old(2) c(2) unfolding held_ok_def jsmap_get_set by (auto split: if_splits)
  ultimately show ?thesis using assms(1) c(1) by (simp add: srv_ok_def onConnection_def case_prod_beta)
qed

lemma keeps_handleRpc:
  assumes "env_ok b3 env" "event_ok (Rpc i rid m p)"
  shows "keeps b3 c s (snd (handleRpc env rid m p c s))"
proof -
  have catch: "snd (catch_rpc rid h) = snd (fst h)" for h
    by (auto simp: catch_rpc_def split: prod.split option.split)
  have env: "en_b3 env = b3" "en_passports env = memory_ops \<or> en_passports env = pg_ops"
    "\<forall>d \<in> set (map snd (en_workerDifficulty env)). num_ok d" using assms(1) by (simp_all add: env_ok_def)
  have id: "keeps b3 c s (c, s)" by (simp add: keeps_def)
  show ?thesis
  proof (cases m)
    case (MSuggestDifficulty d)
    then show ?thesis using assms(2) keeps_onSuggestDifficulty id by (cases d) (simp_all add: handleRpc_def catch)
  qed (simp_all add: handleRpc_def catch id keeps_onSubscribe keeps_onAuthorize keeps_onPubkey keeps_onAttest keeps_onSubmit env)
qed

lemma srv_ok_step:
  assumes "srv_ok b3 st" "env_ok b3 env" "event_ok e"
  shows "srv_ok b3 (snd (srv_step env e st))"
proof -
  obtain k s where st: "st = (k, s)" by (cases st)
  note ok = assms(1) [unfolded st]
  show ?thesis
  proof (cases e)
    case (Rpc i rid m p)
    show ?thesis
    proof (cases "jsmap_get (sv_clients s) i")
      case (Some c)
      then show ?thesis
        using srv_ok_keeps [OF ok Some, of "fst (snd (handleRpc env rid m p c s))" "snd (snd (handleRpc env rid m p c s))"]
          keeps_handleRpc [OF assms(2) assms(3) [unfolded Rpc]]
        by (simp add: st Rpc Let_def case_prod_beta)
    qed (use ok in \<open>simp add: st Rpc\<close>)
  next
    case (SubscribeTimeout i)
    show ?thesis
    proof (cases "jsmap_get (sv_clients s) i")
      case (Some c)
      have "keeps b3 c s (c\<lparr>cl_destroyed := True\<rparr>, s)" by (simp add: keeps_def)
      from srv_ok_keeps [OF ok Some this] ok show ?thesis
        by (simp add: st SubscribeTimeout subscribeTimeout_def Some)
    qed (use ok in \<open>simp add: st SubscribeTimeout subscribeTimeout_def\<close>)
  next
    case (NewJob jobs job)
    obtain out cs e' where b: "broadcast_to job (sv_clients s) = (out, cs, e')" by (metis surj_pair)
    show ?thesis using ok same_clients_ok [OF broadcast_same [OF b]]
      by (simp add: st NewJob broadcastJob_def b srv_ok_def)
  next
    case (AddSlot u)
    show ?thesis using ok memory.add_ok [OF _ surjective_pairing, of "sv_passports s" u] by (auto simp: st AddSlot srv_ok_def)
  next
    case (SlotAdded u)
    then show ?thesis using slotAdded_keeps [OF _ ok, of env u] assms(2) by (auto simp: st env_ok_def case_prod_beta)
  next
    case (VardiffTick en)
    have "sv_heldSlots (snd (vardiffTick en (en_now env) s)) = sv_heldSlots s" "sv_pads (snd (vardiffTick en (en_now env) s)) = sv_pads s"
      "sv_passports (snd (vardiffTick en (en_now env) s)) = sv_passports s" by (simp_all add: vardiffTick_def Let_def)
    then show ?thesis using ok same_clients_ok [OF vardiffTick_same [of s en "en_now env"]]
      by (simp add: st VardiffTick case_prod_beta srv_ok_def)
  qed (use ok assms(3) onConnection_ok onClose_ok in \<open>auto simp: st\<close>)
qed

lemma srv_reach_ok: "srv_reach b3 st \<Longrightarrow> srv_ok b3 st"
proof (induction rule: srv_reach.induct)
  case (start cap pads t rec jobs)
  then show ?case using newPadCache_ok [OF start(1)]
    by (simp add: srv_ok_def newServer_def clients_ok_def held_ok_def)
qed (rule srv_ok_step)

section \<open>Properties\<close>

text \<open>
  C29: Every connection of every reachable server state is well formed, whatever requests, jobs and
  timers arrive: its difficulty is a double within the configured bounds, every difficulty
  stamped on a job is finite and at least the minimum, the device key is 128 lowercase
  hexadecimal digits, the duplicate window has no repetition and at most 50,000 entries, a
  challenge, a reservation or a pending or valid attestation belongs to a known key, an authorized
  connection has a user name, and connections have distinct identifiers.
\<close>
theorem reachable_clients_well_formed:
  assumes "srv_reach b3 (k, s)"
  shows "distinct (map fst (sv_clients s)) \<and>
    (\<forall>i c. (i, c) \<in> set (sv_clients s) \<longrightarrow> cl_connId c = i \<and> i < cc_nextConnId k \<and> client_ok c)"
  using srv_reach_ok [OF assms] by (auto simp: srv_ok_def clients_ok_def jsmap_wf_def map_of_eq_Some_iff)


section \<open>A sample run\<close>

definition sample_table :: passport_table where
  "sample_table = snd (addEmpty 7 (addUser ''u'' 7 newPassports))"

definition sample_start :: "pad_cache \<Rightarrow> client_counters \<times> server" where
  "sample_start pads = (\<lparr>cc_nextConnId = 1, cc_nextExtranonce1 = 0\<rparr>, newServer pads False
     \<lparr>jm_lastTemplateHash = '''', jm_lastWorkSig = '''', jm_lastPrev = '''', jm_currentJob = None, jm_jobsById = [],
      jm_jobCounter = 0, jm_objects = []\<rparr> sample_table)"

definition sample_state :: "pad_cache \<Rightarrow> client_counters \<times> server" where
  "sample_state pads = snd (srv_step sample_env (Rpc 1 None MPubkey [Some sample_key])
     (snd (srv_step sample_env (Rpc 1 None MAuthorize [Some ''u''])
     (snd (srv_step sample_env (Connect default_params ''127.0.0.1'') (sample_start pads))))))"

lemma sample_env_ok: "env_ok sample_b3 sample_env"
  by (simp add: env_ok_def sample_env_def)

lemma sample_reach: "newPadCache 8 = Inr pads \<Longrightarrow> srv_reach sample_b3 (sample_state pads)"
proof -
  assume "newPadCache 8 = Inr pads"
  moreover have "slots_ok sample_table"
    by (simp add: sample_table_def slots_ok_def addEmpty_def addUser_def newPassports_def Let_def)
  ultimately show ?thesis
    unfolding sample_state_def sample_start_def
    by (intro srv_reach.step srv_reach.start) (simp_all add: sample_env_ok params_ok_default)
qed

lemma sample_state_clients:
  "\<exists>c. sv_clients (snd (sample_state pads)) = [(1, c)] \<and> cl_reservedSlotId c = Some 1 \<and> cl_connId c = 1 \<and>
     cl_challenge c = Some (replicate 32 1) \<and> cl_pubkey c = Some sample_key \<and> cl_attest c = ANone \<and>
     sv_passports (snd (sample_state pads)) = sample_table"
proof -
  have s: "splitUserName ''u'' = (''u'', ''default'')" "trim ''u'' = ''u''" "lower_char CHR ''0'' = CHR ''0''" by code_simp+
  then have h: "is_hex128 sample_key" "to_lower sample_key = sample_key" by (simp_all add: is_hex128_def list_all_iff to_lower_def)
  show ?thesis
    by (simp add: sample_state_def sample_start_def newServer_def onConnection_def newStratumClient_def case_prod_beta
        handleRpc_def onAuthorize_def onPubkey_def catch_rpc_def param_def text_of_def s h sample_env_def memory_ops_def
        sample_table_def addEmpty_def addUser_def newPassports_def findUserId_def findSlotByPubkey_def reserveEmpty_def
        getCurrent_def sendChallenge_def Let_def)
qed

theorem reachable_clients_well_formed_witness:
  "\<exists>pads c. newPadCache 8 = Inr pads \<and> srv_reach sample_b3 (sample_state pads) \<and>
     (1, c) \<in> set (sv_clients (snd (sample_state pads))) \<and> client_ok c"
proof -
  obtain pads where p: "newPadCache 8 = Inr pads" by (simp add: newPadCache_def)
  have "srv_reach sample_b3 (fst (sample_state pads), snd (sample_state pads))" using sample_reach [OF p] by simp
  from reachable_clients_well_formed [OF this] show ?thesis
    using p sample_reach [OF p] sample_state_clients [of pads] by auto
qed


section \<open>Stamped difficulties and attestations\<close>

lemma step_stamps:
  assumes ok: "srv_ok b3 (k, s)" and "env_ok b3 env" "event_ok e"
    and "jsmap_get (sv_clients s) i = Some c" "jsmap_get (sv_clients (snd (snd (srv_step env e (k, s))))) i = Some c'"
  shows "stamps_kept c c'"
proof -
  have refl: "stamps_kept c c" by simp
  show ?thesis
  proof (cases e)
    case (Connect params ip)
    have "i \<noteq> cc_nextConnId k" using ok assms(4) by (auto simp: srv_ok_def clients_ok_def)
    then show ?thesis using assms(4,5) refl
      by (simp add: Connect onConnection_def newStratumClient_def case_prod_beta jsmap_get_set)
  next
    case (Rpc l rid m p)
    show ?thesis
    proof (cases "jsmap_get (sv_clients s) l")
      case (Some d)
      then show ?thesis using assms(4,5) refl keeps_handleRpc [OF assms(2) assms(3) [unfolded Rpc], of d s]
        by (auto simp: Rpc Let_def case_prod_beta jsmap_get_set keeps_def split: if_splits)
    qed (use assms(4,5) refl in \<open>simp add: Rpc\<close>)
  next
    case (NewJob jobs job)
    obtain out cs e' where b: "broadcast_to job (sv_clients s) = (out, cs, e')" by (metis surj_pair)
    show ?thesis using same_client_get [OF broadcast_same [OF b], of i c'] assms(4,5)
      by (simp add: NewJob broadcastJob_def b same_client_def)
  next
    case (VardiffTick en)
    then show ?thesis using same_client_get [OF vardiffTick_same [of s en "en_now env"], of i c'] assms(4,5)
      by (simp add: case_prod_beta same_client_def)
  next
    case (SlotAdded u)
    have "cl_jobShareDiff c' = cl_jobShareDiff c"
    proof (cases "sort_key cl_authorizedAt (filter (client_pending u) (map snd (sv_clients s)))")
      case (Cons d ds)
      then obtain l where l: "(l, d) \<in> set (sv_clients s)" using sorted_head [OF Cons] by auto
      then have "jsmap_get (sv_clients s) (cl_connId d) = Some d"
        using ok by (auto simp: srv_ok_def clients_ok_def jsmap_wf_def map_of_eq_Some_iff)
      then show ?thesis using assms(4,5)
        by (auto simp: SlotAdded slotAdded_def Cons Let_def case_prod_beta sendChallenge_client jsmap_get_set split: option.splits if_splits)
    qed (use assms(4,5) in \<open>simp add: SlotAdded slotAdded_def\<close>)
    then show ?thesis by simp
  qed (use assms(4,5) refl in \<open>auto simp: onClose_def subscribeTimeout_def case_prod_beta release_slot_def jsmap_get_set jsmap_get_delete
      split: option.splits if_splits\<close>)
qed

text \<open>
  C31: The difficulty stamped on a job for a connection never changes afterwards: retunes,
  suggestions, re-authorization and repeated broadcasts leave it, so a share is judged by the
  difficulty that was announced with its job.
\<close>
theorem stamped_difficulty_fixed:
  assumes "srv_reach b3 (k, s)" "env_ok b3 env" "event_ok e" "(i, c) \<in> set (sv_clients s)"
    and "jsmap_get (cl_jobShareDiff c) j = Some d"
    and "srv_step env e (k, s) = (out, k', s')" "(i, c') \<in> set (sv_clients s')"
  shows "assigned_diff c' j = d"
proof -
  have ok: "srv_ok b3 (k, s)" "srv_ok b3 (k', s')"
    using srv_reach_ok [OF assms(1)] srv_ok_step [OF srv_reach_ok [OF assms(1)] assms(2,3)] assms(6) by simp_all
  then have "jsmap_get (sv_clients s) i = Some c" "jsmap_get (sv_clients s') i = Some c'"
    using assms(4,7) by (auto simp: srv_ok_def clients_ok_def jsmap_wf_def map_of_eq_Some_iff)
  with step_stamps [OF ok(1) assms(2,3), of i c c'] assms(6) have "stamps_kept c c'" by simp
  with assms(5) have "jsmap_get (cl_jobShareDiff c') j = Some d" by (auto simp: stamps_kept_def map_le_def dom_def)
  then show ?thesis by (simp add: assigned_diff_def)
qed


definition sample_job0 :: stratum_job where
  "sample_job0 = \<lparr>jc_jobId = ''0000001'', jc_coinb1Hex = '''', jc_coinb2Hex = '''', jc_merkleBranchesHexBE = [], jc_version = 1,
     jc_bits = 0, jc_prevHashHexBE = '''', jc_networkTargetHexBE = '''', jc_txnsHex = [], jc_height = 1, sj_cleanJobs = True,
     sj_ntimeMin = 0, sj_ntimeRoll = 0\<rparr>"

definition sample_stamped :: "pad_cache \<Rightarrow> client_counters \<times> server" where
  "sample_stamped pads = (let st = sample_start pads in snd (srv_step sample_env (NewJob (sv_jobs (snd st)) sample_job0)
     (snd (srv_step sample_env (Rpc 1 None MAuthorize [Some ''u''])
     (snd (srv_step sample_env (Connect default_params ''127.0.0.1'') st))))))"

lemma sample_stamped_reach: "newPadCache 8 = Inr pads \<Longrightarrow> srv_reach sample_b3 (sample_stamped pads)"
proof -
  assume "newPadCache 8 = Inr pads"
  moreover have "slots_ok sample_table"
    by (simp add: sample_table_def slots_ok_def addEmpty_def addUser_def newPassports_def Let_def)
  ultimately show ?thesis
    unfolding sample_stamped_def sample_start_def Let_def
    by (intro srv_reach.step srv_reach.start) (simp_all add: sample_env_ok params_ok_default)
qed

lemma sample_stamp: "stampJob sample_job0 c = (Inr (Fin 1024), c\<lparr>cl_jobShareDiff := [(''0000001'', Fin 1024)]\<rparr>)"
  if "currentDiff (cl_vardiff c) = Fin 1024" "cl_jobShareDiff c = []"
proof -
  have "rnd (1 / 1000000) \<le> rnd 1" by (rule rnd_mono) simp
  then have "\<not> js_lt (Fin 1024) MIN_SHARE_DIFFICULTY" using rnd_of_int [of 1] by (simp add: MIN_SHARE_Fin)
  moreover have "networkDifficultyFromBits 0 = Fin (2 ^ 53 - 1)"
    by (simp add: networkDifficultyFromBits_def targetFromBits_def MAX_SAFE_INTEGER_def)
  ultimately show ?thesis using that by (simp add: stampJob_def sample_job0_def Let_def)
qed

lemma sample_stamped_clients:
  "\<exists>c. sv_clients (snd (sample_stamped pads)) = [(1, c)] \<and> cl_jobShareDiff c = [(''0000001'', Fin 1024)]"
proof -
  have s: "splitUserName ''u'' = (''u'', ''default'')" "trim ''u'' = ''u''" by code_simp+
  show ?thesis
    by (simp add: sample_stamped_def sample_start_def newServer_def onConnection_def newStratumClient_def case_prod_beta
        handleRpc_def onAuthorize_def catch_rpc_def param_def text_of_def s sample_env_def memory_ops_def
        sample_table_def addEmpty_def addUser_def newPassports_def findUserId_def getCurrent_def broadcastJob_def
        pushJob_def sample_stamp newVardiff_def default_params_def pushDifficulty_def Let_def)
qed

theorem stamped_difficulty_fixed_witness:
  "\<exists>pads c'. let (out, k', s') = srv_step sample_env (VardiffTick True) (sample_stamped pads) in
     (1, c') \<in> set (sv_clients s') \<and> assigned_diff c' ''0000001'' = Fin 1024"
proof -
  obtain pads where p: "newPadCache 8 = Inr pads" by (simp add: newPadCache_def)
  obtain k s where ks: "sample_stamped pads = (k, s)" by (cases "sample_stamped pads")
  have r: "srv_reach sample_b3 (k, s)" using sample_stamped_reach [OF p] by (simp add: ks)
  obtain c where c: "sv_clients s = [(1, c)]" "cl_jobShareDiff c = [(''0000001'', Fin 1024)]"
    using sample_stamped_clients [of pads] by (auto simp: ks)
  obtain out k' s' where st: "srv_step sample_env (VardiffTick True) (k, s) = (out, k', s')" by (metis surj_pair)
  then have "s' = snd (vardiffTick True (en_now sample_env) s)" by (auto simp: case_prod_beta)
  then have "\<exists>c'. sv_clients s' = [(1, c')]" by (simp add: vardiffTick_def c(1) case_prod_beta)
  then obtain c' where "(1, c') \<in> set (sv_clients s')" by auto
  with stamped_difficulty_fixed [OF r sample_env_ok _ _ _ st this, of c "''0000001''" "Fin 1024"] c st show ?thesis
    by (intro exI [of _ pads] exI [of _ c']) (simp add: ks)
qed


text \<open>
  An attestation can become valid for a key that has no slot: a challenge sent for a registered
  key of the account stays outstanding when the connection announces another key, and answering
  it under that key is accepted.
\<close>

definition unregistered_run :: "pad_cache \<Rightarrow> client_counters \<times> server" where
  "unregistered_run pads = fold (\<lambda>e st. snd (srv_step sample_env e st))
     [Connect default_params ''127.0.0.1'', Rpc 1 None MAuthorize [Some ''u''], Rpc 1 None MPubkey [Some sample_key],
      Rpc 1 None MPubkey [Some (replicate 128 (CHR ''1''))], Rpc 1 None MAttest [Some sample_key]]
     (fst (sample_start pads), (snd (sample_start pads))\<lparr>sv_passports := snd (lock 1 sample_key sample_table)\<rparr>)"

theorem attest_valid_without_slot:
  "\<exists>c. sv_clients (snd (unregistered_run pads)) = [(1, c)] \<and> cl_attest c = AValid \<and>
     cl_pubkey c = Some (replicate 128 (CHR ''1'')) \<and>
     findSlotByPubkey (replicate 128 (CHR ''1'')) (sv_passports (snd (unregistered_run pads))) = None"
proof -
  have s: "splitUserName ''u'' = (''u'', ''default'')" "trim ''u'' = ''u''" "lower_char CHR ''0'' = CHR ''0''" "lower_char CHR ''1'' = CHR ''1''"
    by code_simp+
  then have h: "is_hex128 sample_key" "to_lower sample_key = sample_key" "is_hex128 (replicate 128 (CHR ''1''))"
    "to_lower (replicate 128 (CHR ''1'')) = replicate 128 (CHR ''1'')" "sample_key \<noteq> replicate 128 (CHR ''1'')"
    by (simp_all add: is_hex128_def list_all_iff to_lower_def replicate_eq_replicate)
  show ?thesis
    by (simp add: unregistered_run_def sample_start_def newServer_def onConnection_def newStratumClient_def case_prod_beta
        handleRpc_def onAuthorize_def onPubkey_def onAttest_def catch_rpc_def param_def text_of_def s h sample_env_def memory_ops_def
        sample_table_def addEmpty_def addUser_def newPassports_def findUserId_def findSlotByPubkey_def reserveEmpty_def lock_def
        set_pubkey_def verifyP256Digest_def getCurrent_def sendChallenge_def Let_def)
qed

end
