(* ===== verification/Pplns.thy ===== *)
theory Pplns
  imports Js_Number Stratum_Server "HOL-Library.Product_Lexorder"
begin

text \<open>
  The ledger of the pool daemon: the tables of the database that its statements read and write
  (\<^verbatim>\<open>lib/db.ts\<close>, \<^verbatim>\<open>db/migrations\<close>), the PPLNS credit of a confirmed block (\<^verbatim>\<open>pool/pplns.ts\<close>,
  \<^verbatim>\<open>lib/pplns-math.ts\<close>) and its preview.

  A \<^verbatim>\<open>NUMERIC(20,8)\<close> column is a \<^typ>\<open>jsnum\<close> that is a multiple of \<open>10\<^sup>-\<^sup>8\<close> or \<^verbatim>\<open>NaN\<close>; \<^verbatim>\<open>SUM\<close> over it is
  exact. Timestamps are milliseconds. What the node answers and whether a transaction commits
  are fields of the environment.
\<close>

section \<open>Numbers in the database\<close>

definition numeric_text :: "jsnum \<Rightarrow> jsnum res" where
  "numeric_text v = (case v of
     NaN \<Rightarrow> Inr NaN
   | Fin x \<Rightarrow> if 10 ^ 12 \<le> \<bar>fixed8 x\<bar> then Inl (Error ''numeric field overflow'') else Inr (Fin (fixed8 x))
   | _ \<Rightarrow> Inl (Error ''numeric field overflow''))"

definition parse_numeric :: "jsnum \<Rightarrow> jsnum" where
  "parse_numeric v = (case v of Fin x \<Rightarrow> to_num x | _ \<Rightarrow> v)"

definition numeric_add :: "jsnum \<Rightarrow> jsnum \<Rightarrow> jsnum" where
  "numeric_add a b = (case (a, b) of (Fin x, Fin y) \<Rightarrow> Fin (x + y) | _ \<Rightarrow> NaN)"

definition numeric_sum :: "jsnum list \<Rightarrow> jsnum" where
  "numeric_sum xs = foldr numeric_add xs (Fin 0)"

section \<open>Tables\<close>

record user_row =
  us_id :: int
  us_email :: string
  us_verified :: bool
  us_payoutAddress :: "string option"
  us_minimum :: jsnum

record worker_row =
  wk_id :: int
  wk_userId :: int
  wk_name :: string
  wk_lastDifficulty :: "jsnum option"
  wk_lastSeenAt :: int
  wk_rejected :: "string \<Rightarrow> nat"
  wk_lastReject :: "(reject_reason \<times> int) option"

record share_row =
  sr_id :: int
  sr_userId :: int
  sr_workerId :: int
  sr_diff :: jsnum
  sr_isBlock :: bool
  sr_blockHash :: "string option"
  sr_submittedAt :: int

record block_row =
  bk_id :: int
  bk_height :: int
  bk_hash :: string
  bk_finder :: "int option"
  bk_worker :: "int option"
  bk_reward :: jsnum
  bk_poolFee :: jsnum
  bk_confirmations :: int
  bk_confirmed :: bool
  bk_orphan :: bool
  bk_credited :: bool
  bk_foundAt :: int
  bk_confirmedAt :: "int option"

datatype entry_kind = Credit | Debit

record balance_entry =
  be_userId :: int
  be_blockId :: "int option"
  be_payoutId :: "int option"
  be_delta :: jsnum
  be_kind :: entry_kind

record payout_row =
  py_id :: int
  py_txid :: string
  py_total :: jsnum

record payout_recipient =
  pr_payoutId :: int
  pr_userId :: int
  pr_address :: string
  pr_amount :: jsnum

record signature_row =
  sw_shareId :: "int option"
  sw_userId :: "int option"
  sw_workerId :: "int option"
  sw_attest :: share_attest
  sw_submittedAt :: int

record pool_db =
  db_users :: "user_row list"
  db_workers :: "worker_row list"
  db_shares :: "share_row list"
  db_blocks :: "block_row list"
  db_entries :: "balance_entry list"
  db_payouts :: "payout_row list"
  db_recipients :: "payout_recipient list"
  db_signatures :: "signature_row list"
  db_nextId :: int

record block_info =
  bi_confirmations :: int
  bi_height :: int
  bi_tx :: "string list"

record pool_env =
  pe_getBlock :: "string \<Rightarrow> block_info option res"
  pe_rawTransaction :: "string \<Rightarrow> jsnum option list res"
  pe_walletBalance :: "jsnum res"
  pe_sendMany :: "(string \<times> jsnum) list \<Rightarrow> string res"
  pe_commit :: bool
  pe_now :: int

record pool_config =
  pc_feePercent :: jsnum
  pc_nShares :: nat
  pc_blockConfirmations :: int
  pc_network :: network

text \<open>\<^verbatim>\<open>tx\<close>: all statements or none.\<close>

definition tx :: "bool \<Rightarrow> (pool_db \<Rightarrow> pool_db res) \<Rightarrow> pool_db \<Rightarrow> unit res \<times> pool_db" where
  "tx commit f db = (case f db of
     Inl e \<Rightarrow> (Inl e, db)
   | Inr db' \<Rightarrow> if commit then (Inr (), db') else (Inl (Error ''transaction failed''), db))"

definition has_user :: "int \<Rightarrow> pool_db \<Rightarrow> bool" where
  "has_user uid db \<longleftrightarrow> uid \<in> set (map us_id (db_users db))"

text \<open>Inserting a ledger entry: \<^verbatim>\<open>user_id\<close> refers to a user.\<close>

definition insert_entry :: "balance_entry \<Rightarrow> pool_db \<Rightarrow> pool_db res" where
  "insert_entry e db =
     (if has_user (be_userId e) db then Inr (db\<lparr>db_entries := db_entries db @ [e]\<rparr>)
      else Inl (Error ''foreign key violation''))"

definition update_block :: "int \<Rightarrow> (block_row \<Rightarrow> block_row) \<Rightarrow> pool_db \<Rightarrow> pool_db" where
  "update_block i f db = db\<lparr>db_blocks := map (\<lambda>b. if bk_id b = i then f b else b) (db_blocks db)\<rparr>"

section \<open>PPLNS\<close>

text \<open>The last \<open>n\<close> shares at or before a time, newest first.\<close>

definition pplns_window :: "nat \<Rightarrow> int \<Rightarrow> share_row list \<Rightarrow> share_row list" where
  "pplns_window n foundAt shares =
     take n (rev (sort_key (\<lambda>r. (sr_submittedAt r, sr_id r)) (filter (\<lambda>r. sr_submittedAt r \<le> foundAt) shares)))"

definition add_total :: "share_row \<Rightarrow> (int, jsnum) jsmap \<times> jsnum \<Rightarrow> (int, jsnum) jsmap \<times> jsnum" where
  "add_total r = (\<lambda>(totals, sum).
     (jsmap_set (sr_userId r) (js_add (case jsmap_get totals (sr_userId r) of None \<Rightarrow> Fin 0 | Some t \<Rightarrow> t) (sr_diff r)) totals,
      js_add sum (sr_diff r)))"

definition share_totals :: "share_row list \<Rightarrow> (int, jsnum) jsmap \<times> jsnum" where
  "share_totals rows = fold add_total rows ([], Fin 0)"

definition credit_amount :: "jsnum \<Rightarrow> jsnum \<Rightarrow> jsnum \<Rightarrow> jsnum" where
  "credit_amount distributable sumDiff diff = num_fixed8 (js_mul (js_div diff sumDiff) distributable)"

text \<open>The loop over the totals inside the transaction.\<close>

fun insert_credits :: "int \<Rightarrow> jsnum \<Rightarrow> jsnum \<Rightarrow> (int \<times> jsnum) list \<Rightarrow> pool_db \<Rightarrow> pool_db res" where
  "insert_credits blockId distributable sumDiff [] db = Inr db"
| "insert_credits blockId distributable sumDiff ((uid, diff) # totals) db =
     (let rounded = credit_amount distributable sumDiff diff in
      if js_le rounded (Fin 0) then insert_credits blockId distributable sumDiff totals db
      else andthen (numeric_text rounded) (\<lambda>delta.
           andthen (insert_entry \<lparr>be_userId = uid, be_blockId = Some blockId, be_payoutId = None, be_delta = delta,
                      be_kind = Credit\<rparr> db) (\<lambda>db.
           insert_credits blockId distributable sumDiff totals db)))"

definition mark_credited :: "int \<Rightarrow> jsnum \<Rightarrow> pool_db \<Rightarrow> pool_db res" where
  "mark_credited blockId fee db = andthen (numeric_text fee) (\<lambda>f.
     Inr (update_block blockId (\<lambda>b. b\<lparr>bk_credited := True, bk_poolFee := f\<rparr>) db))"

definition creditPplns :: "pool_env \<Rightarrow> pool_config \<Rightarrow> int \<Rightarrow> pool_db \<Rightarrow> unit res \<times> pool_db" where
  "creditPplns env cfg blockId db =
     (case filter (\<lambda>b. bk_id b = blockId \<and> bk_confirmed b \<and> \<not> bk_orphan b) (db_blocks db) of
        [] \<Rightarrow> (Inr (), db)
      | b # _ \<Rightarrow>
          if bk_credited b then (Inr (), db)
          else let reward = parse_numeric (bk_reward b);
                   feeFraction = js_div (pc_feePercent cfg) (Fin 100);
                   grossFee = js_mul reward feeFraction;
                   distributable = js_sub reward grossFee;
                   shares = pplns_window (pc_nShares cfg) (bk_foundAt b) (db_shares db)
               in if shares = [] then tx (pe_commit env) (mark_credited blockId reward) db
                  else let (totals, sumDiff) = share_totals shares
                       in tx (pe_commit env) (\<lambda>db. andthen (insert_credits blockId distributable sumDiff totals db)
                            (mark_credited blockId grossFee)) db)"

text \<open>The read-only amount of one user.\<close>

definition valid_diff :: "jsnum \<Rightarrow> bool" where
  "valid_diff d \<longleftrightarrow> js_is_finite d \<and> \<not> js_le d (Fin 0)"

definition userCreditFromShares :: "(int \<times> jsnum) list \<Rightarrow> int \<Rightarrow> jsnum \<Rightarrow> jsnum \<Rightarrow> jsnum" where
  "userCreditFromShares shares userId reward feePercent =
     (if \<not> js_is_finite reward \<or> js_le reward (Fin 0) then Fin 0
      else let (sum, mine) = fold (\<lambda>(u, d) (sum, mine). if \<not> valid_diff d then (sum, mine)
                 else (js_add sum d, if u = userId then js_add mine d else mine)) shares (Fin 0, Fin 0)
           in if js_le sum (Fin 0) \<or> js_le mine (Fin 0) then Fin 0
              else let distributable = js_sub reward (js_mul reward (js_div feePercent (Fin 100)));
                       amount = js_mul (js_div mine sum) distributable
                   in if \<not> js_is_finite amount \<or> js_le amount (Fin 0) then Fin 0 else num_fixed8 amount)"

definition previewImmatureB3c :: "pool_config \<Rightarrow> int \<Rightarrow> pool_db \<Rightarrow> jsnum" where
  "previewImmatureB3c cfg userId db =
     (let blocks = sort_key bk_id (filter (\<lambda>b. \<not> bk_confirmed b \<and> \<not> bk_orphan b) (db_blocks db));
          total = fold (\<lambda>b total. js_add total (userCreditFromShares
              (map (\<lambda>r. (sr_userId r, sr_diff r)) (pplns_window (pc_nShares cfg) (bk_foundAt b) (db_shares db)))
              userId (parse_numeric (bk_reward b)) (pc_feePercent cfg))) blocks (Fin 0)
      in num_fixed8 total)"

definition projectedPplns :: "pool_config \<Rightarrow> int \<Rightarrow> pool_db \<Rightarrow> (int, jsnum \<times> jsnum) jsmap" where
  "projectedPplns cfg now db =
     (let (totals, sum) = share_totals (pplns_window (pc_nShares cfg) now (db_shares db))
      in if js_num_eq sum (Fin 0) then [] else map (\<lambda>(uid, d). (uid, (d, js_div d sum))) totals)"

section \<open>Rounding to eight decimals\<close>

lemma fixed8_zero [simp]: "fixed8 0 = 0"
  by (simp add: fixed8_def)

lemma fixed8_nonneg: "0 \<le> x \<Longrightarrow> 0 \<le> fixed8 x"
  by (cases "x = 0") (auto simp: fixed8_def sgn_if)

lemma fixed8_pos_def: "0 \<le> x \<Longrightarrow> x < 10 ^ 21 \<Longrightarrow> fixed8 x = of_int \<lfloor>x * 10 ^ 8 + 1 / 2\<rfloor> / 10 ^ 8"
  by (cases "x = 0") (simp_all add: fixed8_def floor_eq_iff)

lemma fixed8_mono:
  assumes "0 \<le> x" "x \<le> y"
  shows "fixed8 x \<le> fixed8 y"
proof -
  consider "y < 10 ^ 21" | "10 ^ 21 \<le> x" | "x < 10 ^ 21" "10 ^ 21 \<le> y" by linarith
  then show ?thesis
  proof cases
    case 1
    have "\<lfloor>x * 10 ^ 8 + 1 / 2\<rfloor> \<le> \<lfloor>y * 10 ^ 8 + 1 / 2\<rfloor>" using assms by (intro floor_mono) simp
    then show ?thesis using assms 1 by (simp add: fixed8_pos_def divide_right_mono)
  next
    case 2
    then show ?thesis using assms by (simp add: fixed8_def)
  next
    case 3
    have "x * 10 ^ 8 + 1 / 2 < of_int (10 ^ 29) + 1" using 3(1) by simp
    then have "\<lfloor>x * 10 ^ 8 + 1 / 2\<rfloor> \<le> 10 ^ 29" by (simp add: floor_le_iff)
    then have "of_int \<lfloor>x * 10 ^ 8 + 1 / 2\<rfloor> \<le> (of_int (10 ^ 29) :: rat)" by (simp only: of_int_le_iff)
    then have "fixed8 x \<le> 10 ^ 21" using assms(1) 3(1) by (simp add: fixed8_pos_def)
    also have "\<dots> \<le> fixed8 y" using 3(2) assms by (simp add: fixed8_def)
    finally show ?thesis .
  qed
qed

lemma fixed8_minus: "fixed8 (- x) = - fixed8 x"
  by (simp add: fixed8_def)

lemma fixed8_near:
  assumes "\<bar>x - of_int m / 10 ^ 8\<bar> < 1 / (2 * 10 ^ 8)" "0 \<le> x" "x < 10 ^ 21"
  shows "fixed8 x = of_int m / 10 ^ 8"
proof -
  have "of_int m \<le> x * 10 ^ 8 + 1 / 2" "x * 10 ^ 8 + 1 / 2 < of_int m + 1"
    using assms(1) unfolding abs_less_iff by (simp_all add: field_simps)
  then have "\<lfloor>x * 10 ^ 8 + 1 / 2\<rfloor> = m" by (simp add: floor_eq_iff)
  then show ?thesis using assms(2,3) by (simp add: fixed8_pos_def)
qed

text \<open>A column value below \<open>4 \<cdot> 10\<^sup>7\<close> survives \<^verbatim>\<open>parseFloat\<close> and \<^verbatim>\<open>toFixed(8)\<close>.\<close>

lemma fixed8_rnd_pos:
  assumes "0 \<le> m" "m \<le> 4 * 10 ^ 15"
  shows "fixed8 (rnd (of_int m / 10 ^ 8)) = of_int m / 10 ^ 8"
proof (cases "m = 0")
  case False
  let ?x = "of_int m / 10 ^ 8 :: rat"
  have m: "1 \<le> m" using assms(1) False by linarith
  have r: "of_int m \<le> (of_int (4 * 10 ^ 15) :: rat)" "of_int 1 \<le> (of_int m :: rat)"
    using assms(2) m by (simp_all only: of_int_le_iff)
  then have le: "?x \<le> 4 * 10 ^ 7" by simp
  have "1 / 2 ^ 60 \<le> (1 :: rat) / 10 ^ 8" by simp
  also have "\<dots> \<le> ?x" using r(2) by (intro divide_right_mono) simp_all
  finally have "1 / 2 ^ 60 \<le> ?x" .
  then have "\<bar>rnd ?x - ?x\<bar> \<le> \<bar>?x\<bar> / 2 ^ 53" by (intro rnd_error small_normal)
  also have "\<dots> \<le> 4 * 10 ^ 7 / 2 ^ 53" using le m by (intro divide_right_mono) auto
  also have "\<dots> < 1 / (2 * 10 ^ 8)" by simp
  finally have near: "\<bar>rnd ?x - ?x\<bar> < 1 / (2 * 10 ^ 8)" .
  have "0 \<le> rnd ?x" using m by (intro rnd_nonneg) simp
  moreover have "rnd ?x < 10 ^ 21" 
  proof -
    have "rnd ?x < ?x + 1 / (2 * 10 ^ 8)" using near unfolding abs_less_iff by linarith
    also have "\<dots> \<le> 4 * 10 ^ 7 + 1" using le by (intro add_mono) simp_all
    finally show ?thesis by simp
  qed
  ultimately show ?thesis using near by (intro fixed8_near)
qed simp

lemma fixed8_rnd:
  assumes "\<bar>m\<bar> \<le> 4 * 10 ^ 15"
  shows "fixed8 (rnd (of_int m / 10 ^ 8)) = of_int m / 10 ^ 8"
proof (cases "0 \<le> m")
  case False
  then have "fixed8 (rnd (of_int (- m) / 10 ^ 8)) = of_int (- m) / 10 ^ 8" using assms by (intro fixed8_rnd_pos) auto
  then show ?thesis by (simp add: rnd_minus fixed8_minus)
qed (use assms fixed8_rnd_pos in auto)

section \<open>Totals\<close>

definition total_of :: "(int, jsnum) jsmap \<Rightarrow> int \<Rightarrow> jsnum" where
  "total_of totals uid = (case jsmap_get totals uid of None \<Rightarrow> Fin 0 | Some t \<Rightarrow> t)"

text \<open>Shares as the pool writes them: positive doubles.\<close>

definition rows_ok :: "share_row list \<Rightarrow> bool" where
  "rows_ok rows \<longleftrightarrow> (\<forall>r \<in> set rows. \<exists>d. sr_diff r = Fin d \<and> 0 < d \<and> is_double d)"

lemma total_of_add: "total_of (fst (add_total r (totals, sm))) uid =
    (if sr_userId r = uid then js_add (total_of totals uid) (sr_diff r) else total_of totals uid)"
  by (simp add: total_of_def add_total_def jsmap_get_set)

text \<open>The preview accumulates the same sums as the credit.\<close>

lemma preview_fold:
  assumes "rows_ok rows"
  shows "fold (\<lambda>(u, d) (sm, mine). if \<not> valid_diff d then (sm, mine)
      else (js_add sm d, if u = uid then js_add mine d else mine))
      (map (\<lambda>r. (sr_userId r, sr_diff r)) rows) (sm, total_of totals uid) =
    (snd (fold add_total rows (totals, sm)), total_of (fst (fold add_total rows (totals, sm))) uid)"
  using assms
proof (induction rows arbitrary: totals sm)
  case (Cons r rows)
  then have v: "valid_diff (sr_diff r)" by (auto simp: rows_ok_def valid_diff_def)
  have s: "add_total r (totals, sm) = (fst (add_total r (totals, sm)), js_add sm (sr_diff r))" by (simp add: add_total_def)
  have "rows_ok rows" using Cons.prems by (simp add: rows_ok_def)
  from Cons.IH [OF this, of "js_add sm (sr_diff r)" "fst (add_total r (totals, sm))"] v s show ?case
    by (simp add: total_of_add)
qed simp

definition totals_bounded :: "(int, jsnum) jsmap \<Rightarrow> rat \<Rightarrow> bool" where
  "totals_bounded totals s \<longleftrightarrow> 0 \<le> s \<and> is_double s \<and>
     (\<forall>uid t. jsmap_get totals uid = Some t \<longrightarrow> (\<exists>a. t = Fin a \<and> 0 < a \<and> a \<le> s \<and> is_double a))"

lemma infinite_sum_stays: "rows_ok rows \<Longrightarrow> snd (fold add_total rows (totals, PosInf)) = PosInf"
  by (induction rows arbitrary: totals) (auto simp: rows_ok_def add_total_def)

lemma double_add:
  assumes "is_double a" "is_double s" "is_double d" "0 \<le> a" "a \<le> s" "0 < d" "js_add (Fin s) (Fin d) = Fin s'"
  shows "s' = rnd (s + d)" "is_double s'" "s \<le> s'" "\<exists>a'. js_add (Fin a) (Fin d) = Fin a' \<and> 0 < a' \<and> a' \<le> s' \<and> is_double a'"
proof -
  show s': "s' = rnd (s + d)" using assms(7) by (auto dest: to_num_Fin)
  have lim: "\<bar>rnd (s + d)\<bar> < 2 ^ 1024"
    using assms(7) by (simp add: to_num_def Let_def split: if_splits)
  then show "is_double s'" by (simp add: s' is_double_def)
  have "rnd s \<le> rnd (s + d)" using assms(6) by (intro rnd_mono) simp
  then show "s \<le> s'" using assms(2) by (simp add: s' is_double_def)
  have "rnd (a + d) \<le> rnd (s + d)" using assms(5) by (intro rnd_mono) simp
  moreover have "d \<le> rnd (a + d)" using rnd_mono [of d "a + d"] assms(3,4) by (simp add: is_double_def)
  ultimately show "\<exists>a'. js_add (Fin a) (Fin d) = Fin a' \<and> 0 < a' \<and> a' \<le> s' \<and> is_double a'"
    using lim assms(6) by (intro exI [of _ "rnd (a + d)"]) (auto simp: s' is_double_def to_num_finite)
qed

lemma share_totals_bounded:
  assumes "rows_ok rows" "totals_bounded totals s" "js_is_finite (snd (fold add_total rows (totals, Fin s)))"
  shows "\<exists>s'. snd (fold add_total rows (totals, Fin s)) = Fin s' \<and> totals_bounded (fst (fold add_total rows (totals, Fin s))) s'"
  using assms
proof (induction rows arbitrary: totals s)
  case (Cons r rows)
  obtain d where d: "sr_diff r = Fin d" "0 < d" "is_double d" using Cons.prems(1) by (auto simp: rows_ok_def)
  have rows: "rows_ok rows" using Cons.prems(1) by (simp add: rows_ok_def)
  let ?t = "fst (add_total r (totals, Fin s))"
  have st: "add_total r (totals, Fin s) = (?t, js_add (Fin s) (Fin d))" by (simp add: add_total_def d)
  obtain s1 where s1: "js_add (Fin s) (Fin d) = Fin s1"
  proof (cases "js_add (Fin s) (Fin d)")
    case PosInf
    then show thesis using infinite_sum_stays [OF rows, of ?t] Cons.prems(3) st by simp
  next
    case NegInf
    have "0 \<le> rnd (s + d)" using Cons.prems(2) d(2) by (intro rnd_nonneg) (simp add: totals_bounded_def)
    then show thesis using NegInf by (simp add: to_num_def Let_def split: if_splits)
  qed (use that in auto)
  have zero: "is_double 0" by (simp add: is_double_def)
  have step: "\<exists>a'. js_add (Fin a) (Fin d) = Fin a' \<and> 0 < a' \<and> a' \<le> s1 \<and> is_double a'" "is_double s1" "s \<le> s1"
    if "is_double a" "0 \<le> a" "a \<le> s" for a
    using double_add [OF that(1) _ d(3) that(2,3) d(2) s1] Cons.prems(2) by (auto simp: totals_bounded_def)
  have s: "0 \<le> s" "is_double s" using Cons.prems(2) by (auto simp: totals_bounded_def)
  have "totals_bounded ?t s1"
    unfolding totals_bounded_def
  proof (intro conjI allI impI)
    fix uid t assume t: "jsmap_get ?t uid = Some t"
    show "\<exists>a. t = Fin a \<and> 0 < a \<and> a \<le> s1 \<and> is_double a"
    proof (cases "jsmap_get totals uid")
      case None
      obtain a' where a': "js_add (Fin 0) (Fin d) = Fin a'" "0 < a'" "a' \<le> s1" "is_double a'" using step(1) [OF zero] s(1) by auto
      have "t = Fin a'" using t None by (simp add: add_total_def jsmap_get_set d a' del: js_add.simps split: if_splits)
      with a' show ?thesis by blast
    next
      case (Some u)
      with Cons.prems(2) obtain a where a: "u = Fin a" "0 < a" "a \<le> s" "is_double a" unfolding totals_bounded_def by blast
      have "a \<le> s1" using a(3) step(3) [OF zero] s(1) by simp
      obtain a' where a': "js_add (Fin a) (Fin d) = Fin a'" "0 < a'" "a' \<le> s1" "is_double a'" using step(1) [OF a(4)] a by auto
      have "t = Fin a' \<or> t = Fin a"
        using t Some a(1) by (simp add: add_total_def jsmap_get_set d a' del: js_add.simps split: if_splits)
      with a a' \<open>a \<le> s1\<close> show ?thesis by blast
    qed
  qed (use step(2,3) [OF zero] s in auto)
  from Cons.IH [OF rows this] Cons.prems(3) st s1 show ?case by simp
qed simp

section \<open>Credits\<close>

definition credit_of :: "int \<Rightarrow> jsnum \<Rightarrow> jsnum \<Rightarrow> int \<times> jsnum \<Rightarrow> balance_entry option" where
  "credit_of blockId distributable sumDiff = (\<lambda>(uid, diff).
     let rounded = credit_amount distributable sumDiff diff in
     if js_le rounded (Fin 0) then None
     else case numeric_text rounded of Inl _ \<Rightarrow> None
       | Inr delta \<Rightarrow> Some \<lparr>be_userId = uid, be_blockId = Some blockId, be_payoutId = None, be_delta = delta, be_kind = Credit\<rparr>)"

lemma insert_credits_eq:
  "insert_credits i D S totals db = Inr db' \<Longrightarrow>
   db' = db\<lparr>db_entries := db_entries db @ List.map_filter (credit_of i D S) totals\<rparr> \<and>
   (\<forall>(uid, diff) \<in> set totals. js_le (credit_amount D S diff) (Fin 0) \<or>
      (\<exists>d. numeric_text (credit_amount D S diff) = Inr d) \<and> has_user uid db)"
proof (induction i D S totals db rule: insert_credits.induct)
  case (2 i D S uid diff totals db)
  show ?case
  proof (cases "js_le (credit_amount D S diff) (Fin 0)")
    case True
    with 2 show ?thesis by (simp add: Let_def List.map_filter_simps credit_of_def)
  next
    case False
    let ?e = "\<lambda>delta. \<lparr>be_userId = uid, be_blockId = Some i, be_payoutId = None, be_delta = delta, be_kind = Credit\<rparr>"
    from "2.prems" False obtain delta where d: "numeric_text (credit_amount D S diff) = Inr delta" "has_user uid db"
      "insert_credits i D S totals (db\<lparr>db_entries := db_entries db @ [?e delta]\<rparr>) = Inr db'"
      by (auto simp: Let_def andthen_eq_Inr insert_entry_def split: if_splits)
    from "2.IH"(2) [OF refl False, of delta "db\<lparr>db_entries := db_entries db @ [?e delta]\<rparr>"] d False show ?thesis
      by (simp add: List.map_filter_simps credit_of_def insert_entry_def has_user_def split: prod.splits)
  qed
qed simp

lemma js_div_le_one:
  assumes "0 < a" "a \<le> s"
  shows "\<exists>q. js_div (Fin a) (Fin s) = Fin q \<and> 0 \<le> q \<and> q \<le> 1"
proof -
  have "a / s \<le> 1" using assms by simp
  then have "rnd (a / s) \<le> rnd 1" by (rule rnd_mono)
  then have "rnd (a / s) \<le> 1" using rnd_of_int [of 1] by simp
  moreover have "0 \<le> rnd (a / s)" using assms by (intro rnd_nonneg) simp
  ultimately show ?thesis using assms by (simp add: to_num_finite)
qed

lemma js_mul_le:
  assumes "0 \<le> q" "q \<le> 1" "0 \<le> d" "is_double d"
  shows "\<exists>v. js_mul (Fin q) (Fin d) = Fin v \<and> 0 \<le> v \<and> v \<le> d"
proof -
  have "q * d \<le> d" using assms by (simp add: mult_left_le_one_le)
  then have "rnd (q * d) \<le> d" using rnd_mono [of "q * d" d] assms(4) by (simp add: is_double_def)
  moreover have "0 \<le> rnd (q * d)" using assms by (intro rnd_nonneg) simp
  ultimately show ?thesis using assms(4) by (simp add: to_num_finite is_double_def)
qed

lemma num_fixed8_le:
  assumes "0 \<le> v" "v \<le> 4 * 10 ^ 7"
  shows "num_fixed8 (Fin v) = Fin (rnd (fixed8 v))" "rnd (fixed8 v) \<le> 4 * 10 ^ 7"
proof -
  have "fixed8 v \<le> fixed8 (4 * 10 ^ 7)" using assms by (rule fixed8_mono)
  also have "fixed8 (4 * 10 ^ 7) = 4 * 10 ^ 7" by (subst fixed8_pos_def) (simp_all add: floor_eq_iff)
  finally have "rnd (fixed8 v) \<le> rnd (4 * 10 ^ 7)" by (rule rnd_mono)
  then show le: "rnd (fixed8 v) \<le> 4 * 10 ^ 7" using rnd_of_int [of "4 * 10 ^ 7"] by simp
  have "0 \<le> rnd (fixed8 v)" using assms by (intro rnd_nonneg fixed8_nonneg)
  then have "\<bar>rnd (fixed8 v)\<bar> \<le> 4 * 10 ^ 7" using le by simp
  also have "\<dots> < 2 ^ 1024" by simp
  finally show "num_fixed8 (Fin v) = Fin (rnd (fixed8 v))" by (simp add: to_num_finite)
qed

lemma fixed8_stable:
  assumes "0 \<le> v" "v \<le> 4 * 10 ^ 7"
  shows "fixed8 (rnd (fixed8 v)) = fixed8 v" "0 < rnd (fixed8 v) \<Longrightarrow> 0 < fixed8 v"
proof -
  let ?k = "\<lfloor>v * 10 ^ 8 + 1 / 2\<rfloor>"
  have v: "fixed8 v = of_int ?k / 10 ^ 8" using assms by (intro fixed8_pos_def) simp_all
  have "v * 10 ^ 8 + 1 / 2 < of_int (4 * 10 ^ 15) + 1" using assms(2) by simp
  then have "?k \<le> 4 * 10 ^ 15" unfolding floor_le_iff by simp
  moreover have "0 \<le> ?k" using assms(1) by simp
  ultimately show "fixed8 (rnd (fixed8 v)) = fixed8 v" unfolding v by (intro fixed8_rnd_pos)
  show "0 < rnd (fixed8 v) \<Longrightarrow> 0 < fixed8 v"
    using fixed8_nonneg [OF assms(1)] by (cases "fixed8 v = 0") simp_all
qed

text \<open>The amount of a user whose difficulty is part of the sum.\<close>

lemma credit_amount_bound:
  assumes "0 < a" "a \<le> s" "0 \<le> d" "is_double d" "d \<le> R" "R \<le> 4 * 10 ^ 7"
  shows "\<exists>v c. js_mul (js_div (Fin a) (Fin s)) (Fin d) = Fin v \<and> 0 \<le> v \<and>
     credit_amount (Fin d) (Fin s) (Fin a) = Fin c \<and> num_fixed8 (Fin v) = Fin c \<and>
     0 \<le> c \<and> fixed8 c \<le> fixed8 R \<and> (0 < c \<longrightarrow> 0 < fixed8 c) \<and> (0 < c \<longrightarrow> 0 < v)"
proof -
  obtain q where q: "js_div (Fin a) (Fin s) = Fin q" "0 \<le> q" "q \<le> 1" using js_div_le_one [OF assms(1,2)] by blast
  obtain v where v: "js_mul (Fin q) (Fin d) = Fin v" "0 \<le> v" "v \<le> d" using js_mul_le [OF q(2,3) assms(3,4)] by blast
  have vR: "v \<le> R" "v \<le> 4 * 10 ^ 7" using v(3) assms(5,6) by simp_all
  have "fixed8 v \<le> fixed8 R" using v(2) vR(1) by (rule fixed8_mono)
  moreover have "0 \<le> rnd (fixed8 v)" using v(2) by (intro rnd_nonneg fixed8_nonneg)
  moreover have "0 < rnd (fixed8 v) \<Longrightarrow> 0 < v" using v(2) by (cases "v = 0") simp_all
  ultimately show ?thesis using num_fixed8_le [OF v(2) vR(2)] fixed8_stable [OF v(2) vR(2)] v(2)
    by (intro exI [of _ v] exI [of _ "rnd (fixed8 v)"]) (simp add: credit_amount_def q v(1) del: js_mul.simps js_div.simps num_fixed8.simps)
qed

text \<open>
  The inputs of a credit as the pool produces them: a reward of at most \<open>4 \<cdot> 10\<^sup>7\<close> coins in the column,
  a fee between 0 and 100 percent, and shares with positive difficulties whose sum is finite.
\<close>

definition credit_inputs_ok :: "pool_config \<Rightarrow> block_row \<Rightarrow> pool_db \<Rightarrow> int \<Rightarrow> bool" where
  "credit_inputs_ok cfg b db m \<longleftrightarrow> bk_reward b = Fin (of_int m / 10 ^ 8) \<and> 0 < m \<and> m \<le> 4 * 10 ^ 15 \<and>
     (case pc_feePercent cfg of Fin f \<Rightarrow> 0 \<le> f \<and> f \<le> 100 | _ \<Rightarrow> False) \<and>
     rows_ok (pplns_window (pc_nShares cfg) (bk_foundAt b) (db_shares db)) \<and>
     js_is_finite (snd (share_totals (pplns_window (pc_nShares cfg) (bk_foundAt b) (db_shares db))))"

lemma distributable_bound:
  assumes "0 \<le> m" "m \<le> 4 * 10 ^ 15" "0 \<le> f" "f \<le> 100"
  defines "R \<equiv> rnd (of_int m / 10 ^ 8)"
  shows "parse_numeric (Fin (of_int m / 10 ^ 8)) = Fin R" "0 \<le> R" "R \<le> 4 * 10 ^ 7"
    "\<exists>d h. js_mul (Fin R) (js_div (Fin f) (Fin 100)) = Fin h \<and> js_sub (Fin R) (Fin h) = Fin d \<and>
       0 \<le> d \<and> d \<le> R \<and> is_double d"
proof -
  have "of_int m \<le> (of_int (4 * 10 ^ 15) :: rat)" using assms(2) by (simp only: of_int_le_iff)
  then have "R \<le> rnd (4 * 10 ^ 7)" unfolding R_def by (intro rnd_mono) simp
  then show le: "R \<le> 4 * 10 ^ 7" using rnd_of_int [of "4 * 10 ^ 7"] by simp
  show R: "0 \<le> R" unfolding R_def using assms(1) by (intro rnd_nonneg) simp
  have big: "(4 * 10 ^ 7 :: rat) < 2 ^ 1024" by simp
  then have dR: "is_double R" using le R by (simp add: is_double_def R_def)
  then show "parse_numeric (Fin (of_int m / 10 ^ 8)) = Fin R"
    by (simp add: parse_numeric_def R_def is_double_def to_num_finite)
  obtain g where g: "js_div (Fin f) (Fin 100) = Fin g" "0 \<le> g" "g \<le> 1"
  proof (cases "f = 0")
    case True
    then show thesis using that [of 0] by (simp add: to_num_finite)
  next
    case False
    then show thesis using that js_div_le_one [of f 100] assms(3,4) by auto
  qed
  obtain h where h: "js_mul (Fin R) (Fin g) = Fin h" "0 \<le> h" "h \<le> R"
    using js_mul_le [OF g(2,3) R dR] by (auto simp: mult.commute)
  have "rnd (R - h) \<le> rnd R" using h(2) by (intro rnd_mono) simp
  then have d: "rnd (R - h) \<le> R" using dR by (simp add: is_double_def)
  moreover have "0 \<le> rnd (R - h)" using h(3) by (intro rnd_nonneg) simp
  ultimately have "\<bar>rnd (R - h)\<bar> < 2 ^ 1024" using le big by linarith
  then show "\<exists>d h. js_mul (Fin R) (js_div (Fin f) (Fin 100)) = Fin h \<and> js_sub (Fin R) (Fin h) = Fin d \<and>
       0 \<le> d \<and> d \<le> R \<and> is_double d"
    using g h d \<open>0 \<le> rnd (R - h)\<close>
    by (intro exI [of _ "rnd (R - h)"] exI [of _ h]) (simp add: js_sub_def to_num_finite is_double_def del: js_mul.simps js_div.simps)
qed

lemma totals_wf: "jsmap_wf totals \<Longrightarrow> jsmap_wf (fst (fold add_total rows (totals, sm)))"
  by (induction rows arbitrary: totals sm) (simp_all add: add_total_def)

lemma credits_of_user:
  "jsmap_wf totals \<Longrightarrow> filter (\<lambda>e. be_userId e = uid) (List.map_filter (credit_of i D S) totals) =
     (case jsmap_get totals uid of None \<Rightarrow> [] | Some t \<Rightarrow> (case credit_of i D S (uid, t) of None \<Rightarrow> [] | Some e \<Rightarrow> [e]))"
proof (induction totals)
  case (Cons x totals)
  obtain u t where x: "x = (u, t)" by (cases x)
  have "be_userId e = u" if "credit_of i D S (u, t) = Some e" for e
    using that by (auto simp: credit_of_def Let_def split: if_splits sum.splits)
  moreover have "jsmap_get totals u = None" using Cons.prems by (simp add: x jsmap_wf_def map_of_eq_None_iff)
  ultimately show ?case using Cons jsmap_wf_tl [of x totals]
    by (auto simp: x List.map_filter_simps split: option.splits)
qed (simp add: List.map_filter_simps)

lemma credits_distinct:
  "jsmap_wf ts \<Longrightarrow> distinct (map be_userId (List.map_filter (credit_of i D S) ts)) \<and>
     be_userId ` set (List.map_filter (credit_of i D S) ts) \<subseteq> fst ` set ts"
proof (induction ts)
  case (Cons x ts)
  obtain u d where x: "x = (u, d)" by (cases x)
  have "be_userId y = u" if "credit_of i D S (u, d) = Some y" for y
    using that by (auto simp: credit_of_def Let_def split: if_splits sum.splits)
  with Cons jsmap_wf_tl [of x ts] show ?case
    by (auto simp: x List.map_filter_simps jsmap_wf_def split: option.splits)
qed (simp add: List.map_filter_simps)

lemma creditPplns_entries:
  assumes "creditPplns env cfg i db = (Inr (), db')"
    and "filter (\<lambda>b. bk_id b = i \<and> bk_confirmed b \<and> \<not> bk_orphan b) (db_blocks db) = b # bs" "\<not> bk_credited b"
    and "credit_inputs_ok cfg b db m"
  defines "W \<equiv> pplns_window (pc_nShares cfg) (bk_foundAt b) (db_shares db)" and "R \<equiv> rnd (of_int m / 10 ^ 8)"
  obtains D S totals h where "share_totals W = (totals, Fin S)" "jsmap_wf totals" "totals_bounded totals S"
    "parse_numeric (bk_reward b) = Fin R" "0 \<le> R" "R \<le> 4 * 10 ^ 7"
    "js_mul (Fin R) (js_div (pc_feePercent cfg) (Fin 100)) = Fin h" "js_sub (Fin R) (Fin h) = Fin D"
    "0 \<le> D" "D \<le> R" "is_double D"
    "db_entries db' = db_entries db @ List.map_filter (credit_of i (Fin D) (Fin S)) totals"
proof -
  obtain f where f: "pc_feePercent cfg = Fin f" "0 \<le> f" "f \<le> 100"
    using assms(4) by (auto simp: credit_inputs_ok_def split: jsnum.splits)
  have m: "bk_reward b = Fin (of_int m / 10 ^ 8)" "0 \<le> m" "m \<le> 4 * 10 ^ 15" and rows: "rows_ok W" "js_is_finite (snd (share_totals W))"
    using assms(4) by (simp_all add: credit_inputs_ok_def W_def)
  note d = distributable_bound [OF m(2,3) f(2,3), folded R_def]
  have pr: "parse_numeric (bk_reward b) = Fin R" unfolding m(1) by (rule d(1))
  obtain D h where D: "js_mul (Fin R) (js_div (Fin f) (Fin 100)) = Fin h" "js_sub (Fin R) (Fin h) = Fin D" "0 \<le> D" "D \<le> R" "is_double D"
    using d(4) by blast
  have "totals_bounded [] 0" by (simp add: totals_bounded_def is_double_def)
  from share_totals_bounded [OF rows(1) this] rows(2) obtain S totals
    where S: "share_totals W = (totals, Fin S)" "totals_bounded totals S"
    by (auto simp: share_totals_def prod_eq_iff)
  have wf: "jsmap_wf totals" using totals_wf [of "[]" W "Fin 0"] S(1) by (simp add: share_totals_def)
  have "db_entries db' = db_entries db @ List.map_filter (credit_of i (Fin D) (Fin S)) totals"
  proof (cases "W = []")
    case True
    then show ?thesis using assms(1) S(1)
      by (auto simp: creditPplns_def assms(2,3) W_def [symmetric] Let_def tx_def mark_credited_def andthen_def update_block_def
          share_totals_def List.map_filter_simps split: sum.splits if_splits)
  next
    case False
    then obtain db1 where "insert_credits i (Fin D) (Fin S) totals db = Inr db1" "db_entries db' = db_entries db1"
      using assms(1)
      by (auto simp: creditPplns_def assms(2,3) W_def [symmetric] Let_def S(1) pr f(1) D(1,2) tx_def mark_credited_def
          andthen_def update_block_def simp del: js_mul.simps js_div.simps split: sum.splits if_splits)
    with insert_credits_eq [of i "Fin D" "Fin S" totals db db1] show ?thesis by simp
  qed
  then show thesis using that [OF S(1) wf S(2) pr d(2,3) _ D(2-5)] f(1) D(1) by simp
qed

section \<open>Properties\<close>


text \<open>
  C35: The preview is exact: for every user, the amount that the dashboard shows for a block
  (\<^verbatim>\<open>userCreditFromShares\<close>) is the amount that \<^verbatim>\<open>creditPplns\<close> later inserts for the block with the same
  window, bit for bit before it is written as a column, and zero exactly when nothing is inserted.
\<close>
theorem preview_matches_credit:
  assumes "creditPplns env cfg i db = (Inr (), db')"
    and "filter (\<lambda>b. bk_id b = i \<and> bk_confirmed b \<and> \<not> bk_orphan b) (db_blocks db) = b # bs" "\<not> bk_credited b"
    and "credit_inputs_ok cfg b db m"
  defines "v \<equiv> \<lambda>uid. userCreditFromShares
      (map (\<lambda>r. (sr_userId r, sr_diff r)) (pplns_window (pc_nShares cfg) (bk_foundAt b) (db_shares db)))
      uid (parse_numeric (bk_reward b)) (pc_feePercent cfg)"
  shows "\<exists>es. db_entries db' = db_entries db @ es \<and>
    (\<forall>uid. map (Inr \<circ> be_delta) (filter (\<lambda>e. be_userId e = uid) es) = (if v uid = Fin 0 then [] else [numeric_text (v uid)]))"
proof -
  define R where "R = rnd (of_int m / 10 ^ 8)"
  let ?W = "pplns_window (pc_nShares cfg) (bk_foundAt b) (db_shares db)"
  obtain D S totals h where W: "share_totals ?W = (totals, Fin S)" and wf: "jsmap_wf totals" and tb: "totals_bounded totals S"
    and R: "parse_numeric (bk_reward b) = Fin R" "R \<le> 4 * 10 ^ 7"
    and h: "js_mul (Fin R) (js_div (pc_feePercent cfg) (Fin 100)) = Fin h" "js_sub (Fin R) (Fin h) = Fin D"
    and D: "0 \<le> D" "D \<le> R" "is_double D"
    and es: "db_entries db' = db_entries db @ List.map_filter (credit_of i (Fin D) (Fin S)) totals"
    using creditPplns_entries [OF assms(1-4), folded R_def] by metis
  have m8: "fixed8 R = of_int m / 10 ^ 8" unfolding R_def using assms(4) by (intro fixed8_rnd_pos) (simp_all add: credit_inputs_ok_def)
  have m: "0 < m" "m \<le> 4 * 10 ^ 15" using assms(4) by (simp_all add: credit_inputs_ok_def)
  then have "of_int m \<le> (of_int (4 * 10 ^ 15) :: rat)" by (simp only: of_int_le_iff)
  then have lim: "(of_int m / 10 ^ 8 :: rat) < 10 ^ 12" by simp
  have pos: "0 < R" using m8 m(1) rnd_nonneg [of "of_int m / 10 ^ 8", folded R_def] by (cases "R = 0") auto
  have fold: "fold (\<lambda>(u, d) (sm, mine). if \<not> valid_diff d then (sm, mine) else (js_add sm d, if u = uid then js_add mine d else mine))
      (map (\<lambda>r. (sr_userId r, sr_diff r)) ?W) (Fin 0, Fin 0) = (Fin S, total_of totals uid)" for uid
    using preview_fold [of ?W uid "Fin 0" "[]"] assms(4) W by (simp add: credit_inputs_ok_def share_totals_def total_of_def)
  have entry: "map (Inr \<circ> be_delta) (filter (\<lambda>e. be_userId e = uid) (List.map_filter (credit_of i (Fin D) (Fin S)) totals)) =
      (if v uid = Fin 0 then [] else [numeric_text (v uid)])" for uid
  proof (cases "jsmap_get totals uid")
    case None
    then have "v uid = Fin 0" using fold [of uid] by (simp add: v_def userCreditFromShares_def total_of_def Let_def)
    then show ?thesis by (simp add: credits_of_user [OF wf] None)
  next
    case (Some t)
    with tb obtain a where a: "t = Fin a" "0 < a" "a \<le> S" unfolding totals_bounded_def by blast
    from credit_amount_bound [OF a(2,3) D(1,3,2) R(2)] obtain x c where x: "js_mul (js_div (Fin a) (Fin S)) (Fin D) = Fin x" "0 \<le> x"
      "credit_amount (Fin D) (Fin S) (Fin a) = Fin c" "num_fixed8 (Fin x) = Fin c" "0 \<le> c" "0 < c \<longrightarrow> 0 < x" "fixed8 c \<le> fixed8 R" by blast
    have "v uid = Fin c"
      using fold [of uid] x a pos
      by (auto simp: v_def userCreditFromShares_def total_of_def Some R(1) h Let_def simp del: js_mul.simps js_div.simps num_fixed8.simps)
    moreover have "numeric_text (Fin c) = Inr (Fin (fixed8 c))"
    proof -
      have "\<bar>fixed8 c\<bar> < 10 ^ 12" using x(7) lim m8 fixed8_nonneg [OF x(5)] by linarith
      then show ?thesis by (simp add: numeric_text_def)
    qed
    moreover have "credit_of i (Fin D) (Fin S) (uid, t) = (if c = 0 then None
        else case numeric_text (Fin c) of Inl _ \<Rightarrow> None | Inr delta \<Rightarrow>
          Some \<lparr>be_userId = uid, be_blockId = Some i, be_payoutId = None, be_delta = delta, be_kind = Credit\<rparr>)"
      using x(5) by (auto simp: credit_of_def a(1) x(3) Let_def)
    ultimately show ?thesis by (simp add: credits_of_user [OF wf] Some)
  qed
  then show ?thesis using es by blast
qed

lemma to_num_zero_one [simp]: "to_num 0 = Fin 0" "to_num 1 = Fin 1"
  using to_num_of_int [of 0] to_num_of_int [of 1] by simp_all

text \<open>One block of 50 coins, one share.\<close>

definition sample_block_row :: block_row where
  "sample_block_row = \<lparr>bk_id = 1, bk_height = 10, bk_hash = ''aa'', bk_finder = None, bk_worker = None, bk_reward = Fin (of_int 5000000000 / 10 ^ 8),
     bk_poolFee = Fin 0, bk_confirmations = 100, bk_confirmed = True, bk_orphan = False, bk_credited = False, bk_foundAt = 5,
     bk_confirmedAt = Some 9\<rparr>"

definition sample_db :: pool_db where
  "sample_db = \<lparr>db_users = [\<lparr>us_id = 7, us_email = ''u'', us_verified = True, us_payoutAddress = None, us_minimum = Fin 1\<rparr>],
     db_workers = [], db_shares = [\<lparr>sr_id = 1, sr_userId = 7, sr_workerId = 1, sr_diff = Fin 1, sr_isBlock = True,
       sr_blockHash = Some ''aa'', sr_submittedAt = 5\<rparr>],
     db_blocks = [sample_block_row], db_entries = [], db_payouts = [], db_recipients = [], db_signatures = [], db_nextId = 2\<rparr>"

definition sample_pool_env :: pool_env where
  "sample_pool_env = \<lparr>pe_getBlock = \<lambda>_. Inr None, pe_rawTransaction = \<lambda>_. Inr [], pe_walletBalance = Inr (Fin 100),
     pe_sendMany = \<lambda>_. Inr ''txid'', pe_commit = True, pe_now = 10\<rparr>"

definition sample_config :: pool_config where
  "sample_config = \<lparr>pc_feePercent = Fin 0, pc_nShares = 4032, pc_blockConfirmations = 100, pc_network = Testnet\<rparr>"

lemma sample_inputs_ok: "credit_inputs_ok sample_config sample_block_row sample_db 5000000000"
  by (simp add: credit_inputs_ok_def sample_config_def sample_block_row_def sample_db_def pplns_window_def rows_ok_def
      share_totals_def add_total_def is_double_def rnd_of_int [of 1, simplified])

lemma fixed8_50: "fixed8 50 = 50"
  by (simp add: fixed8_pos_def floor_eq_iff)

lemma sample_credit: "\<exists>db'. creditPplns sample_pool_env sample_config 1 sample_db = (Inr (), db') \<and>
    map be_delta (db_entries db') = [Fin 50]"
proof -
  note f = fixed8_50
  have n: "numeric_text (Fin 50) = Inr (Fin 50)" "numeric_text (Fin 0) = Inr (Fin 0)"
    by (simp_all add: numeric_text_def f)
  show ?thesis
    by (simp add: creditPplns_def sample_db_def sample_block_row_def sample_config_def sample_pool_env_def pplns_window_def
        share_totals_def add_total_def parse_numeric_def to_num_numeral js_sub_def credit_amount_def f n tx_def insert_entry_def
        has_user_def mark_credited_def update_block_def Let_def)
qed


theorem preview_matches_credit_witness:
  "\<exists>db'. creditPplns sample_pool_env sample_config 1 sample_db = (Inr (), db') \<and>
     userCreditFromShares [(7, Fin 1)] 7 (parse_numeric (bk_reward sample_block_row)) (Fin 0) \<noteq> Fin 0 \<and>
     map be_userId (db_entries db') = [7]"
proof -
  obtain db' where c: "creditPplns sample_pool_env sample_config 1 sample_db = (Inr (), db')" "map be_delta (db_entries db') = [Fin 50]"
    using sample_credit by (elim exE conjE)
  have f: "filter (\<lambda>b. bk_id b = 1 \<and> bk_confirmed b \<and> \<not> bk_orphan b) (db_blocks sample_db) = [sample_block_row]" "\<not> bk_credited sample_block_row"
    by (simp_all add: sample_db_def sample_block_row_def)
  have w: "map (\<lambda>r. (sr_userId r, sr_diff r)) (pplns_window (pc_nShares sample_config) (bk_foundAt sample_block_row) (db_shares sample_db)) = [(7, Fin 1)]"
    "pc_feePercent sample_config = Fin 0"
    by (simp_all add: sample_db_def sample_block_row_def sample_config_def pplns_window_def)
  let ?v = "userCreditFromShares [(7, Fin 1)] 7 (parse_numeric (bk_reward sample_block_row)) (Fin 0)"
  have e: "map (Inr \<circ> be_delta) (filter (\<lambda>e. be_userId e = 7) (db_entries db')) = (if ?v = Fin 0 then [] else [numeric_text ?v])"
    using preview_matches_credit [OF c(1) f sample_inputs_ok] unfolding w by (auto simp: sample_db_def)
  have v: "?v = Fin 50"
    by (simp add: userCreditFromShares_def valid_diff_def sample_block_row_def parse_numeric_def to_num_numeral js_sub_def Let_def fixed8_50)
  obtain x where x: "db_entries db' = [x]" using c(2) by (auto simp: map_eq_Cons_conv)
  have "be_userId x = 7" using e unfolding v x by (auto split: if_splits)
  then show ?thesis using c(1) v x by auto
qed

end
