(* ===== verification/Payouts.thy ===== *)
theory Payouts
  imports Pplns
begin

text \<open>
  The jobs of the pool daemon over its ledger: recording a found block (\<^verbatim>\<open>pool/block-recorder.ts\<close>),
  confirming or orphaning it (\<^verbatim>\<open>pool/block-confirmer.ts\<close>), paying balances out
  (\<^verbatim>\<open>pool/payout-job.ts\<close>, \<^verbatim>\<open>lib/payout-readiness.ts\<close>) and the operator's replay of a credit
  (\<^verbatim>\<open>cli/recompute-pplns.ts\<close>). \<open>pool_reach\<close> are the databases these jobs produce in any order.
\<close>

section \<open>Found blocks\<close>

text \<open>The reward: the sum of the outputs of the first transaction, if the node returns it.\<close>

definition coinbase_reward :: "pool_env \<Rightarrow> block_info option \<Rightarrow> jsnum" where
  "coinbase_reward env info = (case info of
     Some i \<Rightarrow> (case bi_tx i of
         [] \<Rightarrow> Fin 0
       | txid # _ \<Rightarrow> if txid = [] then Fin 0 else (case pe_rawTransaction env txid of
             Inl _ \<Rightarrow> Fin 0
           | Inr vout \<Rightarrow> fold (\<lambda>out reward. js_add reward (case out of None \<Rightarrow> Fin 0 | Some v \<Rightarrow> v)) vout (Fin 0)))
   | None \<Rightarrow> Fin 0)"

definition recordFoundBlock :: "pool_env \<Rightarrow> share_event \<Rightarrow> pool_db \<Rightarrow> unit res \<times> pool_db" where
  "recordFoundBlock env s db = (case se_blockHash s of
     None \<Rightarrow> (Inr (), db)
   | Some hash \<Rightarrow>
       if \<not> se_isBlock s \<or> hash = [] then (Inr (), db)
       else if hash \<in> set (map bk_hash (db_blocks db)) then (Inr (), db)
       else
         let info = (case pe_getBlock env hash of Inl _ \<Rightarrow> None | Inr i \<Rightarrow> i);
             height = (case info of Some i \<Rightarrow> bi_height i | None \<Rightarrow> (case se_blockHeight s of None \<Rightarrow> 0 | Some h \<Rightarrow> h));
             reward = coinbase_reward env info;
             finderId = map_option us_id (find (\<lambda>u. us_email u = se_user s) (db_users db));
             workerId = (case finderId of
                 None \<Rightarrow> None
               | Some f \<Rightarrow> map_option wk_id (find (\<lambda>w. wk_userId w = f \<and> wk_name w = se_workerName s) (db_workers db)))
         in case numeric_text reward of
              Inl e \<Rightarrow> (Inl e, db)
            | Inr r \<Rightarrow> (Inr (), db\<lparr>db_blocks := db_blocks db @
                  [\<lparr>bk_id = db_nextId db, bk_height = height, bk_hash = hash, bk_finder = finderId, bk_worker = workerId,
                    bk_reward = r, bk_poolFee = Fin 0, bk_confirmations = 0, bk_confirmed = False, bk_orphan = False,
                    bk_credited = False, bk_foundAt = se_timestampMs s, bk_confirmedAt = None\<rparr>],
                  db_nextId := db_nextId db + 1\<rparr>))"

section \<open>Confirmation\<close>

definition checkOne :: "pool_env \<Rightarrow> pool_config \<Rightarrow> int \<Rightarrow> string \<Rightarrow> pool_db \<Rightarrow> unit res \<times> pool_db" where
  "checkOne env cfg i hash db = (case pe_getBlock env hash of
     Inl e \<Rightarrow> (Inl e, db)
   | Inr None \<Rightarrow> (Inr (), update_block i (\<lambda>b. b\<lparr>bk_orphan := True, bk_confirmations := 0\<rparr>) db)
   | Inr (Some info) \<Rightarrow>
       if bi_confirmations info < 0
       then (Inr (), update_block i (\<lambda>b. b\<lparr>bk_orphan := True, bk_confirmations := bi_confirmations info\<rparr>) db)
       else
         let db = update_block i (\<lambda>b. b\<lparr>bk_confirmations := bi_confirmations info\<rparr>) db in
         if bi_confirmations info \<ge> pc_blockConfirmations cfg
         then creditPplns env cfg i
                (update_block i (\<lambda>b. b\<lparr>bk_confirmed := True, bk_confirmedAt := Some (pe_now env)\<rparr>) db)
         else (Inr (), db))"

text \<open>A tick checks at most 200 open blocks, oldest first; the error of one does not stop the others.\<close>

definition open_blocks :: "pool_db \<Rightarrow> block_row list" where
  "open_blocks db = take 200 (sort_key bk_id (filter (\<lambda>b. \<not> bk_confirmed b \<and> \<not> bk_orphan b) (db_blocks db)))"

definition confirmer_tick :: "pool_env \<Rightarrow> pool_config \<Rightarrow> pool_db \<Rightarrow> pool_db" where
  "confirmer_tick env cfg db = fold (\<lambda>b db. snd (checkOne env cfg (bk_id b) (bk_hash b) db)) (open_blocks db) db"

section \<open>Payouts\<close>

definition balance :: "int \<Rightarrow> pool_db \<Rightarrow> jsnum" where
  "balance uid db = numeric_sum (map be_delta (filter (\<lambda>e. be_userId e = uid) (db_entries db)))"

record debit =
  dp_userId :: int
  dp_amount :: jsnum
  dp_address :: string
  dp_email :: string

record payout_plan =
  pp_targets :: "(string, jsnum) jsmap"
  pp_debits :: "debit list"
  pp_total :: jsnum

definition payout_candidates :: "pool_db \<Rightarrow> user_row list" where
  "payout_candidates db = sort_key us_id (filter (\<lambda>u. us_verified u \<and> us_payoutAddress u \<noteq> None) (db_users db))"

text \<open>One iteration of the loop over the candidates.\<close>

definition plan_user :: "pool_config \<Rightarrow> pool_db \<Rightarrow> user_row \<Rightarrow> payout_plan \<Rightarrow> payout_plan" where
  "plan_user cfg db u plan =
     (let bal = parse_numeric (balance (us_id u) db); mn = parse_numeric (us_minimum u); addr = text_of (us_payoutAddress u) in
      if js_lt bal mn \<or> js_le bal (Fin 0) then plan
      else if \<not> isValidB3AddressForNetwork addr (pc_network cfg) then plan
      else let amount = num_fixed8 bal in
        \<lparr>pp_targets = jsmap_set addr (js_add (case jsmap_get (pp_targets plan) addr of None \<Rightarrow> Fin 0 | Some v \<Rightarrow> v) amount) (pp_targets plan),
         pp_debits = pp_debits plan @ [\<lparr>dp_userId = us_id u, dp_amount = amount, dp_address = addr, dp_email = us_email u\<rparr>],
         pp_total = js_add (pp_total plan) amount\<rparr>)"

definition payout_plan_of :: "pool_config \<Rightarrow> pool_db \<Rightarrow> payout_plan" where
  "payout_plan_of cfg db = fold (plan_user cfg db) (payout_candidates db) \<lparr>pp_targets = [], pp_debits = [], pp_total = Fin 0\<rparr>"

text \<open>The loop over the debits inside the transaction.\<close>

fun insert_debits :: "int \<Rightarrow> debit list \<Rightarrow> pool_db \<Rightarrow> pool_db res" where
  "insert_debits payoutId [] db = Inr db"
| "insert_debits payoutId (d # ds) db =
     andthen (numeric_text (dp_amount d)) (\<lambda>amount.
     throw_if (\<not> has_user (dp_userId d) db) (Error ''foreign key violation'') (
     andthen (numeric_text (js_neg (dp_amount d))) (\<lambda>delta.
     insert_debits payoutId ds
       (db\<lparr>db_recipients := db_recipients db @
             [\<lparr>pr_payoutId = payoutId, pr_userId = dp_userId d, pr_address = dp_address d, pr_amount = amount\<rparr>],
           db_entries := db_entries db @
             [\<lparr>be_userId = dp_userId d, be_blockId = None, be_payoutId = Some payoutId, be_delta = delta, be_kind = Debit\<rparr>]\<rparr>))))"

definition insert_payout :: "string \<Rightarrow> payout_plan \<Rightarrow> pool_db \<Rightarrow> pool_db res" where
  "insert_payout txid plan db = andthen (numeric_text (pp_total plan)) (\<lambda>total.
     insert_debits (db_nextId db) (pp_debits plan)
       (db\<lparr>db_payouts := db_payouts db @ [\<lparr>py_id = db_nextId db, py_txid = txid, py_total = total\<rparr>],
           db_nextId := db_nextId db + 1\<rparr>))"

text \<open>The transfer that was made, if any, and the database after it.\<close>

definition doPayouts :: "pool_env \<Rightarrow> pool_config \<Rightarrow> pool_db \<Rightarrow> (string \<times> jsnum) list option \<times> unit res \<times> pool_db" where
  "doPayouts env cfg db =
     (let plan = payout_plan_of cfg db in
      if pp_debits plan = [] then (None, Inr (), db)
      else case pe_walletBalance env of
          Inl _ \<Rightarrow> (None, Inr (), db)
        | Inr walletBal \<Rightarrow>
            if js_lt walletBal (pp_total plan) then (None, Inr (), db)
            else let targets = map (\<lambda>(a, v). (a, num_fixed8 v)) (pp_targets plan) in
              case pe_sendMany env targets of
                Inl _ \<Rightarrow> (None, Inr (), db)
              | Inr txid \<Rightarrow> (Some targets, tx (pe_commit env) (insert_payout txid plan) db))"

datatype payout_blocker = NotVerified | NoAddress | InvalidAddress | BelowMinimum | Eligible

definition payoutReadiness :: "bool \<Rightarrow> string option \<Rightarrow> jsnum \<Rightarrow> jsnum \<Rightarrow> network \<Rightarrow> payout_blocker" where
  "payoutReadiness emailVerified payoutAddress bal minimum network =
     (if \<not> emailVerified then NotVerified
      else let addr = trim (text_of payoutAddress) in
        if addr = [] then NoAddress
        else if \<not> isValidB3AddressForNetwork addr network then InvalidAddress
        else if \<not> js_is_finite bal \<or> js_le bal (Fin 0) \<or> js_lt bal minimum then BelowMinimum
        else Eligible)"

section \<open>Replay by the operator\<close>

definition recomputePplns :: "pool_env \<Rightarrow> pool_config \<Rightarrow> int \<Rightarrow> pool_db \<Rightarrow> unit res \<times> pool_db" where
  "recomputePplns env cfg i db =
     creditPplns env cfg i (update_block i (\<lambda>b. b\<lparr>bk_credited := False\<rparr>)
       (db\<lparr>db_entries := filter (\<lambda>e. \<not> (be_blockId e = Some i \<and> be_payoutId e = None)) (db_entries db)\<rparr>))"

section \<open>Balances\<close>

lemma numeric_sum_append: "numeric_sum (xs @ [y]) = numeric_add (numeric_sum xs) y"
proof -
  have "foldr numeric_add xs (numeric_add y (Fin 0)) = numeric_add (foldr numeric_add xs (Fin 0)) y"
    by (induction xs) (auto simp: numeric_add_def algebra_simps split: jsnum.splits)
  then show ?thesis by (simp add: numeric_sum_def)
qed

definition coins :: "int \<Rightarrow> jsnum" where
  "coins m = Fin (of_int m / 10 ^ 8)"

text \<open>The debit of a balance in range is the negated balance.\<close>

lemma amount_of_balance:
  assumes "\<bar>m\<bar> \<le> 4 * 10 ^ 15"
  shows "num_fixed8 (parse_numeric (coins m)) = Fin (rnd (of_int m / 10 ^ 8))"
    "numeric_text (js_neg (num_fixed8 (parse_numeric (coins m)))) = Inr (coins (- m))"
proof -
  define x :: rat where "x = of_int m / 10 ^ 8"
  have "of_int \<bar>m\<bar> \<le> (of_int (4 * 10 ^ 15) :: rat)" using assms by (simp only: of_int_le_iff)
  then have x: "\<bar>x\<bar> \<le> 4 * 10 ^ 7" by (simp add: x_def abs_divide)
  have "rnd x \<le> rnd (4 * 10 ^ 7)" "rnd (- (4 * 10 ^ 7)) \<le> rnd x" using x by (auto intro!: rnd_mono simp: abs_le_iff)
  then have "\<bar>rnd x\<bar> \<le> 4 * 10 ^ 7" using rnd_of_int [of "4 * 10 ^ 7"] by (simp add: rnd_minus)
  also have "(4 * 10 ^ 7 :: rat) < 2 ^ 1024" by simp
  finally have fin: "to_num x = Fin (rnd x)" by (rule to_num_finite)
  have f: "fixed8 (rnd x) = x" unfolding x_def using assms by (rule fixed8_rnd)
  have c: "coins m = Fin x" "coins (- m) = Fin (- x)" by (simp_all add: coins_def x_def)
  have n: "num_fixed8 (parse_numeric (coins m)) = Fin (rnd x)" by (simp add: parse_numeric_def c fin f)
  then show "num_fixed8 (parse_numeric (coins m)) = Fin (rnd (of_int m / 10 ^ 8))" by (simp only: x_def)
  have "\<bar>x\<bar> < 10 ^ 12" using x by simp
  then show "numeric_text (js_neg (num_fixed8 (parse_numeric (coins m)))) = Inr (coins (- m))"
    unfolding n c(2) by (simp add: numeric_text_def fixed8_minus f)
qed

lemma insert_debits_entries:
  "insert_debits i ds db = Inr db' \<Longrightarrow>
   \<exists>deltas. list_all2 (\<lambda>d x. numeric_text (js_neg (dp_amount d)) = Inr x) ds deltas \<and>
     db_entries db' = db_entries db @ map2 (\<lambda>d x. \<lparr>be_userId = dp_userId d, be_blockId = None, be_payoutId = Some i,
       be_delta = x, be_kind = Debit\<rparr>) ds deltas \<and> db_blocks db' = db_blocks db \<and> db_users db' = db_users db"
proof (induction i ds db rule: insert_debits.induct)
  case (2 i d ds db)
  then obtain amount delta where a: "numeric_text (dp_amount d) = Inr amount" "has_user (dp_userId d) db"
    "numeric_text (js_neg (dp_amount d)) = Inr delta"
    by (auto simp: andthen_eq_Inr throw_if_eq_Inr)
  let ?db = "db\<lparr>db_recipients := db_recipients db @
       [\<lparr>pr_payoutId = i, pr_userId = dp_userId d, pr_address = dp_address d, pr_amount = amount\<rparr>],
     db_entries := db_entries db @
       [\<lparr>be_userId = dp_userId d, be_blockId = None, be_payoutId = Some i, be_delta = delta, be_kind = Debit\<rparr>]\<rparr>"
  have "insert_debits i ds ?db = Inr db'" using "2.prems" a by (simp add: throw_if_def)
  from "2.IH" [OF a(1,3) this] obtain deltas where "list_all2 (\<lambda>d x. numeric_text (js_neg (dp_amount d)) = Inr x) ds deltas"
    "db_entries db' = db_entries ?db @ map2 (\<lambda>d x. \<lparr>be_userId = dp_userId d, be_blockId = None, be_payoutId = Some i,
       be_delta = x, be_kind = Debit\<rparr>) ds deltas" "db_blocks db' = db_blocks db" "db_users db' = db_users db" by auto
  then show ?case using a by (intro exI [of _ "delta # deltas"]) simp
qed simp

text \<open>The plan debits each eligible user once, with the whole balance.\<close>

definition eligible :: "pool_config \<Rightarrow> pool_db \<Rightarrow> user_row \<Rightarrow> bool" where
  "eligible cfg db u \<longleftrightarrow> \<not> js_lt (parse_numeric (balance (us_id u) db)) (parse_numeric (us_minimum u)) \<and>
     \<not> js_le (parse_numeric (balance (us_id u) db)) (Fin 0) \<and>
     isValidB3AddressForNetwork (text_of (us_payoutAddress u)) (pc_network cfg)"

definition debit_of :: "pool_db \<Rightarrow> user_row \<Rightarrow> debit" where
  "debit_of db u = \<lparr>dp_userId = us_id u, dp_amount = num_fixed8 (parse_numeric (balance (us_id u) db)),
     dp_address = text_of (us_payoutAddress u), dp_email = us_email u\<rparr>"

lemma plan_debits:
  "pp_debits (fold (plan_user cfg db) us plan) = pp_debits plan @ map (debit_of db) (filter (eligible cfg db) us)"
  by (induction us arbitrary: plan) (auto simp: plan_user_def eligible_def debit_of_def Let_def)

lemma entries_of_user:
  assumes "distinct (map dp_userId ds)" "length xs = length ds"
  shows "map be_delta (filter (\<lambda>e. be_userId e = uid) (map2 (\<lambda>d x. \<lparr>be_userId = dp_userId d, be_blockId = None, be_payoutId = Some i,
       be_delta = x, be_kind = Debit\<rparr>) ds xs)) = map snd (filter (\<lambda>(d, x). dp_userId d = uid) (zip ds xs))"
proof -
  have "map be_delta (filter (\<lambda>e. be_userId e = uid) (map (\<lambda>(d, x). \<lparr>be_userId = dp_userId d, be_blockId = None, be_payoutId = Some i,
       be_delta = x, be_kind = Debit\<rparr>) ps)) = map snd (filter (\<lambda>(d, x). dp_userId d = uid) ps)" for ps
    by (induction ps) auto
  then show ?thesis .
qed

lemma list_all2_zip_user:
  assumes "list_all2 P ds xs" "distinct (map dp_userId ds)" "d \<in> set ds"
  shows "\<exists>x. P d x \<and> filter (\<lambda>(d', x). dp_userId d' = dp_userId d) (zip ds xs) = [(d, x)]"
  using assms
proof (induction rule: list_all2_induct)
  case (Cons e ds y xs)
  show ?case
  proof (cases "d = e")
    case True
    have "dp_userId a \<noteq> dp_userId d" if "a \<in> set ds" for a
      using Cons.prems(1) True that by simp (metis imageI)
    then have "\<forall>(d', x) \<in> set (zip ds xs). dp_userId d' \<noteq> dp_userId d" by (auto dest!: set_zip_leftD)
    then show ?thesis using Cons.hyps(1) True by (auto simp: filter_empty_conv)
  next
    case False
    then show ?thesis using Cons.IH Cons.prems by auto
  qed
qed simp

text \<open>
  C36: A committed payout clears the ledger exactly: every user in the plan ends with balance zero,
  although balances go through doubles, and every other user's balance is unchanged. The plan
  pays each verified user with a valid address whose balance is positive and at least the
  minimum, once.
\<close>
theorem payout_clears_balances:
  assumes "doPayouts env cfg db = (Some targets, Inr (), db')" and "distinct (map us_id (db_users db))"
    and "\<forall>u \<in> set (db_users db). \<exists>m. balance (us_id u) db = coins m \<and> \<bar>m\<bar> \<le> 4 * 10 ^ 15"
  shows "\<exists>paid. set paid = {u \<in> set (db_users db). us_verified u \<and> us_payoutAddress u \<noteq> None \<and> eligible cfg db u} \<and>
    pp_debits (payout_plan_of cfg db) = map (debit_of db) paid \<and>
    (\<forall>u \<in> set (db_users db). balance (us_id u) db' = (if u \<in> set paid then Fin 0 else balance (us_id u) db))"
proof -
  let ?paid = "filter (eligible cfg db) (payout_candidates db)"
  have ds: "pp_debits (payout_plan_of cfg db) = map (debit_of db) ?paid" by (simp add: payout_plan_of_def plan_debits)
  have dist: "distinct (map us_id ?paid)"
    using assms(2) by (simp add: payout_candidates_def distinct_map_filter distinct_map inj_on_def distinct_filter)
  obtain txid where "tx (pe_commit env) (insert_payout txid (payout_plan_of cfg db)) db = (Inr (), db')"
    using assms(1) by (auto simp: doPayouts_def Let_def split: if_splits sum.splits)
  then have "insert_payout txid (payout_plan_of cfg db) db = Inr db'" by (auto simp: tx_def split: sum.splits if_splits)
  then obtain db1 where i: "insert_debits (db_nextId db) (map (debit_of db) ?paid) db1 = Inr db'" "db_entries db1 = db_entries db"
    unfolding insert_payout_def ds by (auto simp: andthen_eq_Inr)
  then obtain xs where xs: "list_all2 (\<lambda>d x. numeric_text (js_neg (dp_amount d)) = Inr x) (map (debit_of db) ?paid) xs"
    "db_entries db' = db_entries db @ map2 (\<lambda>d x. \<lparr>be_userId = dp_userId d, be_blockId = None, be_payoutId = Some (db_nextId db),
       be_delta = x, be_kind = Debit\<rparr>) (map (debit_of db) ?paid) xs"
    using insert_debits_entries [OF i(1)] by auto
  have du: "distinct (map dp_userId (map (debit_of db) ?paid))" using dist by (simp add: debit_of_def comp_def)
  have len: "length xs = length (map (debit_of db) ?paid)" using list_all2_lengthD [OF xs(1)] by simp
  have new: "balance uid db' = numeric_sum (map be_delta (filter (\<lambda>e. be_userId e = uid) (db_entries db)) @
      map snd (filter (\<lambda>(d, x). dp_userId d = uid) (zip (map (debit_of db) ?paid) xs)))" for uid
    unfolding balance_def xs(2) filter_append map_append entries_of_user [OF du len] by (rule refl)
  have "balance (us_id u) db' = (if u \<in> set ?paid then Fin 0 else balance (us_id u) db)" if u: "u \<in> set (db_users db)" for u
  proof (cases "u \<in> set ?paid")
    case True
    then have "debit_of db u \<in> set (map (debit_of db) ?paid)" by simp
    from list_all2_zip_user [OF xs(1) du this] obtain x where x: "numeric_text (js_neg (dp_amount (debit_of db u))) = Inr x"
      "filter (\<lambda>(d', x). dp_userId d' = us_id u) (zip (map (debit_of db) ?paid) xs) = [(debit_of db u, x)]"
      by (auto simp: debit_of_def)
    obtain m where m: "balance (us_id u) db = coins m" "\<bar>m\<bar> \<le> 4 * 10 ^ 15" using assms(3) u by blast
    have "x = coins (- m)" using x(1) amount_of_balance(2) [OF m(2)] by (simp add: debit_of_def m(1))
    then have "balance (us_id u) db' = numeric_add (coins m) (coins (- m))"
      using m(1) unfolding new x(2) list.map snd_conv numeric_sum_append by (simp add: balance_def)
    then show ?thesis using True by (simp add: numeric_add_def coins_def)
  next
    case False
    have "\<forall>(d, x) \<in> set (zip (map (debit_of db) ?paid) xs). dp_userId d \<noteq> us_id u"
    proof (clarify)
      fix d x assume "(d, x) \<in> set (zip (map (debit_of db) ?paid) xs)" "dp_userId d = us_id u"
      then obtain v where "v \<in> set ?paid" "us_id v = us_id u" by (auto simp: debit_of_def dest!: set_zip_leftD)
      moreover have "v \<in> set (db_users db)" using \<open>v \<in> set ?paid\<close> by (simp add: payout_candidates_def)
      ultimately show False using False u assms(2) by (auto simp: distinct_map inj_on_def)
    qed
    then have "filter (\<lambda>(d, x). dp_userId d = us_id u) (zip (map (debit_of db) ?paid) xs) = []"
      by (auto simp: filter_empty_conv)
    then show ?thesis using False unfolding new by (auto simp: balance_def)
  qed
  then show ?thesis using ds by (intro exI [of _ ?paid]) (auto simp: payout_candidates_def)
qed

section \<open>The ledger over time\<close>

inductive pool_reach :: "pool_db \<Rightarrow> bool" where
  start: "db_blocks db = [] \<Longrightarrow> db_entries db = [] \<Longrightarrow> pool_reach db"
| found: "pool_reach db \<Longrightarrow> pool_reach (snd (recordFoundBlock env s db))"
| confirm: "pool_reach db \<Longrightarrow> pool_reach (confirmer_tick env cfg db)"
| pay: "pool_reach db \<Longrightarrow> pool_reach (snd (snd (doPayouts env cfg db)))"
| replay: "pool_reach db \<Longrightarrow> pool_reach (snd (recomputePplns env cfg i db))"
| other: "pool_reach db \<Longrightarrow> db_nextId db \<le> n \<Longrightarrow>
    pool_reach (db\<lparr>db_users := us, db_workers := ws, db_shares := ss, db_signatures := sg, db_nextId := n\<rparr>)"

definition credit_key :: "balance_entry \<Rightarrow> int option \<times> int" where
  "credit_key e = (be_blockId e, be_userId e)"

definition block_entries :: "pool_db \<Rightarrow> balance_entry list" where
  "block_entries db = filter (\<lambda>e. be_blockId e \<noteq> None) (db_entries db)"

definition ledger_blocks_ok :: "pool_db \<Rightarrow> bool" where
  "ledger_blocks_ok db \<longleftrightarrow> distinct (map bk_id (db_blocks db)) \<and>
     (\<forall>b \<in> set (db_blocks db). bk_id b < db_nextId db \<and> (bk_credited b \<longrightarrow> bk_confirmed b) \<and> (bk_confirmed b \<longrightarrow> \<not> bk_orphan b))"

definition ledger_ok :: "pool_db \<Rightarrow> bool" where
  "ledger_ok db \<longleftrightarrow> ledger_blocks_ok db \<and> distinct (map credit_key (block_entries db)) \<and>
     (\<forall>e \<in> set (block_entries db). be_payoutId e = None \<and> (\<exists>b \<in> set (db_blocks db). be_blockId e = Some (bk_id b) \<and> bk_credited b))"

lemma creditPplns_cases:
  assumes "creditPplns env cfg i db = (r, db')"
  obtains "db' = db"
  | b D S totals f where "b \<in> set (db_blocks db)" "bk_id b = i" "bk_confirmed b" "\<not> bk_orphan b" "\<not> bk_credited b"
      "jsmap_wf totals" "db' = update_block i (\<lambda>b. b\<lparr>bk_credited := True, bk_poolFee := f\<rparr>)
         (db\<lparr>db_entries := db_entries db @ List.map_filter (credit_of i D S) totals\<rparr>)"
proof -
  let ?q = "\<lambda>b. bk_id b = i \<and> bk_confirmed b \<and> \<not> bk_orphan b"
  show thesis
  proof (cases "filter ?q (db_blocks db)")
    case (Cons b bs)
    have b: "b \<in> set (db_blocks db)" "?q b" using Cons by (auto simp: filter_eq_Cons_iff)
    let ?W = "pplns_window (pc_nShares cfg) (bk_foundAt b) (db_shares db)"
    let ?R = "parse_numeric (bk_reward b)" and ?f = "js_div (pc_feePercent cfg) (Fin 100)"
    obtain totals S where t: "share_totals ?W = (totals, S)" by fastforce
    have wf: "jsmap_wf totals" using totals_wf [of "[]" ?W "Fin 0"] t by (simp add: share_totals_def)
    show thesis
    proof (cases "db' = db")
      case changed: False
      then have nc: "\<not> bk_credited b" using assms by (auto simp: creditPplns_def Cons)
      consider f where "?W = []" "db' = update_block i (\<lambda>b. b\<lparr>bk_credited := True, bk_poolFee := f\<rparr>) db"
        | f db1 where "insert_credits i (js_sub ?R (js_mul ?R ?f)) S totals db = Inr db1"
            "db' = update_block i (\<lambda>b. b\<lparr>bk_credited := True, bk_poolFee := f\<rparr>) db1"
        using assms changed nc
        by (auto simp: creditPplns_def Cons Let_def t tx_def mark_credited_def andthen_def split: if_splits sum.splits)
      then show thesis
      proof cases
        case 1
        then show thesis using that(2) [OF b(1) _ _ _ nc, of "[]"] b(2) by (simp add: List.map_filter_simps)
      next
        case 2
        with insert_credits_eq [OF 2(1)] show thesis using that(2) [OF b(1) _ _ _ nc wf] b(2) by auto
      qed
    qed (rule that(1))
  qed (use assms that(1) in \<open>simp add: creditPplns_def\<close>)
qed

lemma update_block_blocks: "set (db_blocks (update_block i f db)) = (\<lambda>b. if bk_id b = i then f b else b) ` set (db_blocks db)"
  by (simp add: update_block_def)

lemma update_block_ok:
  assumes "ledger_ok db" "\<And>b. bk_id (f b) = bk_id b"
    "\<And>b. b \<in> set (db_blocks db) \<Longrightarrow> bk_id b = i \<Longrightarrow> (bk_credited (f b) \<longrightarrow> bk_confirmed (f b)) \<and> (bk_confirmed (f b) \<longrightarrow> \<not> bk_orphan (f b)) \<and>
       (bk_credited b \<longrightarrow> bk_credited (f b))"
  shows "ledger_ok (update_block i f db)"
proof -
  have ids: "map bk_id (db_blocks (update_block i f db)) = map bk_id (db_blocks db)"
    by (simp add: update_block_def assms(2))
  have es: "block_entries (update_block i f db) = block_entries db" "db_nextId (update_block i f db) = db_nextId db"
    by (simp_all add: block_entries_def update_block_def)
  have "\<exists>b' \<in> set (db_blocks (update_block i f db)). bk_id b' = bk_id b \<and> bk_credited b'"
    if "b \<in> set (db_blocks db)" "bk_credited b" for b
  proof -
    let ?b = "if bk_id b = i then f b else b"
    have "?b \<in> set (db_blocks (update_block i f db))" using that(1) unfolding update_block_blocks by (rule imageI)
    moreover have "bk_id ?b = bk_id b \<and> bk_credited ?b" using that assms(2) assms(3) [OF that(1)] by auto
    ultimately show ?thesis by blast
  qed
  moreover have "bk_id b < db_nextId db \<and> (bk_credited b \<longrightarrow> bk_confirmed b) \<and> (bk_confirmed b \<longrightarrow> \<not> bk_orphan b)"
    if "b \<in> set (db_blocks (update_block i f db))" for b
    using that assms unfolding update_block_blocks ledger_ok_def ledger_blocks_ok_def by auto
  ultimately show ?thesis using assms(1) ids unfolding ledger_ok_def ledger_blocks_ok_def es by metis
qed

lemma credit_entries_keys:
  "e \<in> set (List.map_filter (credit_of i D S) totals) \<Longrightarrow> be_blockId e = Some i \<and> be_payoutId e = None"
  by (auto simp: List.map_filter_def credit_of_def Let_def split: if_splits sum.splits)

lemma creditPplns_ok:
  assumes "ledger_ok db"
  shows "ledger_ok (snd (creditPplns env cfg i db))"
proof -
  obtain r db' where c: "creditPplns env cfg i db = (r, db')" by fastforce
  then show ?thesis
  proof (cases rule: creditPplns_cases)
    case (2 b D S totals f)
    let ?es = "List.map_filter (credit_of i D S) totals"
    let ?db = "db\<lparr>db_entries := db_entries db @ ?es\<rparr>"
    have only: "b' = b" if "b' \<in> set (db_blocks db)" "bk_id b' = i" for b'
      using that 2(1,2) assms by (auto simp: ledger_ok_def ledger_blocks_ok_def distinct_map inj_on_def)
    have old: "be_blockId e \<noteq> Some i" if "e \<in> set (block_entries db)" for e
      using that assms 2(5) only by (auto simp: ledger_ok_def)
    have be: "block_entries ?db = block_entries db @ ?es"
      using credit_entries_keys by (force simp: block_entries_def filter_id_conv)
    have "inj_on credit_key (set ?es)"
    proof -
      have "inj_on be_userId (set ?es)" using credits_distinct [OF 2(6)] by (auto simp: distinct_map)
      then show ?thesis by (auto simp: inj_on_def credit_key_def)
    qed
    then have "distinct (map credit_key ?es)" using credits_distinct [OF 2(6), of i D S] by (auto simp: distinct_map)
    moreover have "set (map credit_key (block_entries db)) \<inter> set (map credit_key ?es) = {}"
      using old credit_entries_keys [of _ i D S totals] by (fastforce simp: credit_key_def)
    ultimately have dist: "distinct (map credit_key (block_entries ?db))" using assms by (simp add: be ledger_ok_def)
    let ?g = "\<lambda>b. b\<lparr>bk_credited := True, bk_poolFee := f\<rparr>"
    let ?db' = "update_block i ?g ?db"
    have bl: "set (db_blocks ?db') = (\<lambda>b. if bk_id b = i then ?g b else b) ` set (db_blocks db)" by (simp add: update_block_blocks)
    have "ledger_blocks_ok ?db'"
      using assms 2(3,4) only unfolding ledger_ok_def ledger_blocks_ok_def
      by (auto simp: bl) (simp add: update_block_def comp_def if_distrib [of bk_id] cong: if_cong, simp_all add: update_block_def)
    moreover have "be_payoutId e = None \<and> (\<exists>b \<in> set (db_blocks ?db'). be_blockId e = Some (bk_id b) \<and> bk_credited b)"
      if "e \<in> set (block_entries ?db)" for e
    proof (cases "e \<in> set ?es")
      case True
      have "?g b \<in> set (db_blocks ?db')" unfolding bl using 2(1,2) by (intro image_eqI [of _ _ b]) simp_all
      then show ?thesis using credit_entries_keys [OF True] 2(2) by (intro conjI bexI [of _ "?g b"]) simp_all
    next
      case False
      with that be have e: "e \<in> set (block_entries db)" by auto
      with assms obtain c where c: "c \<in> set (db_blocks db)" "be_blockId e = Some (bk_id c)" "bk_credited c" "be_payoutId e = None"
        by (auto simp: ledger_ok_def)
      have "c \<in> set (db_blocks ?db')" unfolding bl using c(1,2) old [OF e] by (intro image_eqI [of _ _ c]) simp_all
      with c show ?thesis by blast
    qed
    moreover have "block_entries ?db' = block_entries ?db" by (simp add: block_entries_def update_block_def)
    ultimately show ?thesis using dist c 2(7) by (simp add: ledger_ok_def)
  qed (use c assms in simp)
qed

lemma checkOne_ok:
  assumes "ledger_ok db" "\<And>b. b \<in> set (db_blocks db) \<Longrightarrow> bk_id b = i \<Longrightarrow> \<not> bk_confirmed b \<and> \<not> bk_orphan b"
  shows "ledger_ok (snd (checkOne env cfg i hash db))"
proof -
  have closed: "\<not> bk_credited b" if "b \<in> set (db_blocks db)" "bk_id b = i" for b
    using assms that by (auto simp: ledger_ok_def ledger_blocks_ok_def)
  have upd: "ledger_ok (update_block i f db)"
    if "\<And>b. bk_id (f b) = bk_id b \<and> bk_credited (f b) = bk_credited b \<and> (bk_confirmed (f b) = bk_confirmed b)" for f
    using that assms closed by (intro update_block_ok) auto
  have twice: "update_block i f (update_block i g db) = update_block i (f \<circ> g) db" if "\<And>b. bk_id (g b) = bk_id b" for f g
    using that by (simp add: update_block_def comp_def)
  have conf: "ledger_ok (update_block i ((\<lambda>b. b\<lparr>bk_confirmed := True, bk_confirmedAt := t\<rparr>) \<circ> (\<lambda>b. b\<lparr>bk_confirmations := n\<rparr>)) db)" for t n
    using assms closed by (intro update_block_ok) auto
  show ?thesis
    by (auto simp: checkOne_def Let_def twice assms(1) intro!: upd creditPplns_ok conf split: sum.split option.split)
qed

text \<open>A check touches only its own block's status.\<close>

lemma checkOne_others:
  assumes "b \<in> set (db_blocks (snd (checkOne env cfg i hash db)))" "bk_id b \<noteq> i"
  shows "b \<in> set (db_blocks db)"
proof -
  have upd: "b \<in> set (db_blocks db)" if "b \<in> set (db_blocks (update_block i f db))" "\<And>b. bk_id (f b) = bk_id b" for f db
    using that assms(2) by (auto simp: update_block_blocks split: if_splits)
  have credit: "b \<in> set (db_blocks db)" if "b \<in> set (db_blocks (snd (creditPplns env cfg i db)))" for db
  proof -
    obtain r db' where c: "creditPplns env cfg i db = (r, db')" by fastforce
    then show ?thesis
    proof (cases rule: creditPplns_cases)
      case (2 c D S totals f)
      then show ?thesis using that c upd [of "\<lambda>b. b\<lparr>bk_credited := True, bk_poolFee := f\<rparr>"
          "db\<lparr>db_entries := db_entries db @ List.map_filter (credit_of i D S) totals\<rparr>"] by simp
    qed (use that c in simp)
  qed
  show ?thesis using assms(1)
    by (auto simp: checkOne_def Let_def split: sum.splits option.splits if_splits dest!: credit upd)
qed

lemma confirmer_ok:
  assumes "ledger_ok db"
  shows "ledger_ok (confirmer_tick env cfg db)"
proof -
  let ?check = "\<lambda>b db. snd (checkOne env cfg (bk_id b) (bk_hash b) db)"
  have "ledger_ok (fold ?check rows db)"
    if "ledger_ok db" "distinct (map bk_id rows)"
      "\<forall>r \<in> set rows. \<forall>b \<in> set (db_blocks db). bk_id b = bk_id r \<longrightarrow> \<not> bk_confirmed b \<and> \<not> bk_orphan b" for rows db
    using that
  proof (induction rows arbitrary: db)
    case (Cons r rows)
    have ok: "ledger_ok (?check r db)" using Cons.prems by (intro checkOne_ok) auto
    have "\<not> bk_confirmed b \<and> \<not> bk_orphan b"
      if "q \<in> set rows" "b \<in> set (db_blocks (?check r db))" "bk_id b = bk_id q" for q b
    proof -
      have "bk_id q \<noteq> bk_id r" using Cons.prems(2) that(1) by (auto simp: image_iff)
      then have "b \<in> set (db_blocks db)" using checkOne_others [OF that(2)] that(3) by simp
      then show ?thesis using Cons.prems(3) that by simp
    qed
    then show ?case using Cons.IH [OF ok] Cons.prems(2) by simp
  qed simp
  moreover have "distinct (map bk_id (open_blocks db))"
    using assms by (simp add: open_blocks_def ledger_ok_def ledger_blocks_ok_def take_map [symmetric] distinct_map distinct_filter inj_on_def)
  moreover have "\<forall>r \<in> set (open_blocks db). \<forall>b \<in> set (db_blocks db). bk_id b = bk_id r \<longrightarrow> \<not> bk_confirmed b \<and> \<not> bk_orphan b"
  proof (intro ballI impI)
    fix r b assume "r \<in> set (open_blocks db)" and b: "b \<in> set (db_blocks db)" "bk_id b = bk_id r"
    then have r: "r \<in> set (db_blocks db)" "\<not> bk_confirmed r" "\<not> bk_orphan r"
      by (auto simp: open_blocks_def dest!: in_set_takeD)
    have "inj_on bk_id (set (db_blocks db))" using assms by (simp add: ledger_ok_def ledger_blocks_ok_def distinct_map)
    then have "b = r" using b r(1) by (simp add: inj_on_def)
    with r show "\<not> bk_confirmed b \<and> \<not> bk_orphan b" by simp
  qed
  ultimately show ?thesis using assms by (simp add: confirmer_tick_def)
qed

lemma recordFoundBlock_ok:
  assumes "ledger_ok db"
  shows "ledger_ok (snd (recordFoundBlock env s db))"
proof -
  have fresh: "ledger_ok (db\<lparr>db_blocks := db_blocks db @ [b], db_nextId := db_nextId db + 1\<rparr>)"
    if "bk_id b = db_nextId db" "\<not> bk_confirmed b" "\<not> bk_credited b" for b
    using assms that unfolding ledger_ok_def ledger_blocks_ok_def block_entries_def by (auto simp: less_imp_le)
  show ?thesis
    by (auto simp: recordFoundBlock_def Let_def assms intro!: fresh split: option.split sum.split)
qed

lemma ledger_ok_cong:
  "ledger_ok db \<Longrightarrow> db_blocks db' = db_blocks db \<Longrightarrow> block_entries db' = block_entries db \<Longrightarrow> db_nextId db \<le> db_nextId db' \<Longrightarrow>
   ledger_ok db'"
  by (auto simp: ledger_ok_def ledger_blocks_ok_def)

lemma insert_debits_nextId: "insert_debits i ds db = Inr db' \<Longrightarrow> db_nextId db' = db_nextId db"
  by (induction i ds db rule: insert_debits.induct) (auto simp: andthen_eq_Inr throw_if_eq_Inr)

lemma doPayouts_ok:
  assumes "ledger_ok db"
  shows "ledger_ok (snd (snd (doPayouts env cfg db)))"
proof -
  have pay: "ledger_ok (snd (tx c (insert_payout txid plan) db))" for c txid plan
  proof (cases "insert_payout txid plan db")
    case (Inr db')
    then obtain db1 where d: "insert_debits (db_nextId db) (pp_debits plan) db1 = Inr db'" "db_blocks db1 = db_blocks db"
      "db_entries db1 = db_entries db" "db_nextId db1 = db_nextId db + 1"
      by (auto simp: insert_payout_def andthen_eq_Inr)
    from insert_debits_entries [OF d(1)] obtain xs where xs: "db_entries db' = db_entries db1 @
        map2 (\<lambda>d x. \<lparr>be_userId = dp_userId d, be_blockId = None, be_payoutId = Some (db_nextId db), be_delta = x, be_kind = Debit\<rparr>)
          (pp_debits plan) xs" "db_blocks db' = db_blocks db1" by blast
    have "block_entries db' = block_entries db" by (auto simp: block_entries_def xs(1) d(3) filter_empty_conv)
    then have "ledger_ok db'" using assms xs(2) d insert_debits_nextId [OF d(1)] by (intro ledger_ok_cong [of db db']) auto
    then show ?thesis using assms by (simp add: tx_def Inr)
  qed (simp add: tx_def assms)
  show ?thesis by (auto simp: doPayouts_def Let_def assms pay split: sum.split)
qed

lemma recompute_ok:
  assumes "ledger_ok db"
  shows "ledger_ok (snd (recomputePplns env cfg i db))"
proof -
  let ?db = "db\<lparr>db_entries := filter (\<lambda>e. \<not> (be_blockId e = Some i \<and> be_payoutId e = None)) (db_entries db)\<rparr>"
  let ?db' = "update_block i (\<lambda>b. b\<lparr>bk_credited := False\<rparr>) ?db"
  have be: "block_entries ?db' = filter (\<lambda>e. \<not> (be_blockId e = Some i \<and> be_payoutId e = None)) (block_entries db)"
    by (simp add: block_entries_def update_block_def conj_commute)
  have blocks: "ledger_blocks_ok ?db'"
    using assms unfolding ledger_ok_def ledger_blocks_ok_def
    by (auto simp: update_block_blocks) (simp_all add: update_block_def comp_def if_distrib [of bk_id] cong: if_cong)
  have "be_payoutId e = None \<and> (\<exists>b \<in> set (db_blocks ?db'). be_blockId e = Some (bk_id b) \<and> bk_credited b)"
    if "e \<in> set (block_entries ?db')" for e
  proof -
    from that be have e: "e \<in> set (block_entries db)" "\<not> (be_blockId e = Some i \<and> be_payoutId e = None)" by auto
    with assms obtain b where b: "be_payoutId e = None" "b \<in> set (db_blocks db)" "be_blockId e = Some (bk_id b)" "bk_credited b"
      by (auto simp: ledger_ok_def)
    with e(2) have "b \<in> set (db_blocks ?db')" by (auto simp: update_block_blocks)
    with b show ?thesis by blast
  qed
  moreover have "distinct (map credit_key (block_entries ?db'))"
    using assms unfolding be ledger_ok_def by (blast intro: distinct_map_filter)
  ultimately have "ledger_ok ?db'" using blocks unfolding ledger_ok_def by blast
  then show ?thesis unfolding recomputePplns_def by (rule creditPplns_ok)
qed

lemma pool_reach_ok: "pool_reach db \<Longrightarrow> ledger_ok db"
proof (induction rule: pool_reach.induct)
  case (start db)
  then show ?case by (simp add: ledger_ok_def ledger_blocks_ok_def block_entries_def)
next
  case (found db env s)
  from found.IH show ?case by (rule recordFoundBlock_ok)
next
  case (confirm db env cfg)
  from confirm.IH show ?case by (rule confirmer_ok)
next
  case (pay db env cfg)
  from pay.IH show ?case by (rule doPayouts_ok)
next
  case (replay db env cfg i)
  from replay.IH show ?case by (rule recompute_ok)
next
  case (other db n us ws ss sg)
  from other.IH show ?case by (rule ledger_ok_cong) (simp_all add: block_entries_def other.hyps)
qed

lemma filter_distinct_key: "distinct (map f xs) \<Longrightarrow> x \<in> set xs \<Longrightarrow> filter (\<lambda>y. f y = f x) xs = [x]"
proof (induction xs)
  case (Cons a xs)
  show ?case
  proof (cases "x = a")
    case True
    have "filter (\<lambda>y. f y = f a) xs = []" using Cons.prems(1) by (auto simp: filter_empty_conv) (metis imageI)
    then show ?thesis using True by simp
  next
    case False
    then have "x \<in> set xs" using Cons.prems(2) by simp
    moreover have "f a \<noteq> f x" using Cons.prems(1) calculation by auto
    ultimately show ?thesis using Cons by simp
  qed
qed simp


section \<open>Failures after the point of no return\<close>

text \<open>
  The transfer and the debits are not atomic: when the transaction fails after \<^verbatim>\<open>sendmany\<close>, the ledger
  is unchanged and the next run sends the same transfer again.
\<close>

theorem failed_debit_pays_twice:
  assumes "doPayouts env cfg db = (Some targets, Inl err, db')" and "pe_walletBalance env' = pe_walletBalance env"
    and "pe_sendMany env' = pe_sendMany env"
  shows "db' = db \<and> fst (doPayouts env' cfg db') = Some targets"
proof -
  have "db' = db" using assms(1)
    by (auto simp: doPayouts_def Let_def tx_def split: if_splits sum.splits)
  moreover have "fst (doPayouts env' cfg db) = fst (doPayouts env cfg db)"
    by (simp add: doPayouts_def Let_def assms(2,3) split: sum.split)
  ultimately show ?thesis using assms(1) by simp
qed

text \<open>
  A credit that fails after the block was marked confirmed is not retried: the next ticks do not
  visit the block, and only the operator's replay credits it.
\<close>

theorem failed_credit_not_retried:
  assumes "b \<in> set (db_blocks db)" "bk_confirmed b" "distinct (map bk_id (db_blocks db))"
  shows "b \<in> set (db_blocks (confirmer_tick env cfg db))"
proof -
  have keep: "b \<in> set (db_blocks (snd (checkOne env cfg i hash db)))" if "b \<in> set (db_blocks db)" "bk_id b \<noteq> i" for i hash db
  proof -
    have upd: "b \<in> set (db_blocks (update_block i f db))" if "b \<in> set (db_blocks db)" for f db
      using that \<open>bk_id b \<noteq> i\<close> by (force simp: update_block_blocks)
    have "b \<in> set (db_blocks (snd (creditPplns env cfg i db)))" if "b \<in> set (db_blocks db)" for db
    proof -
      obtain r db' where c: "creditPplns env cfg i db = (r, db')" by fastforce
      then show ?thesis
      proof (cases rule: creditPplns_cases)
        case (2 c D S totals f)
        then show ?thesis using c upd [of "db\<lparr>db_entries := db_entries db @ List.map_filter (credit_of i D S) totals\<rparr>"] that by simp
      qed (use that c in simp)
    qed
    then show ?thesis using that(1) by (simp add: checkOne_def Let_def upd split: sum.split option.split)
  qed
  have "b \<in> set (db_blocks (fold (\<lambda>r db. snd (checkOne env cfg (bk_id r) (bk_hash r) db)) rows db))"
    if "b \<in> set (db_blocks db)" "\<forall>r \<in> set rows. bk_id r \<noteq> bk_id b" for rows db
    using that by (induction rows arbitrary: db) (simp_all add: keep)
  moreover have "bk_id r \<noteq> bk_id b" if "r \<in> set (open_blocks db)" for r
  proof
    assume eq: "bk_id r = bk_id b"
    have r: "r \<in> set (db_blocks db)" "\<not> bk_confirmed r" using that by (auto simp: open_blocks_def dest!: in_set_takeD)
    have "inj_on bk_id (set (db_blocks db))" using assms(3) by (simp add: distinct_map)
    then have "r = b" using r(1) assms(1) eq by (simp add: inj_on_def)
    with r(2) assms(2) show False by simp
  qed
  ultimately show ?thesis unfolding confirmer_tick_def using assms(1) by blast
qed

section \<open>A sample ledger\<close>

definition sample_payout_db :: pool_db where
  "sample_payout_db = sample_db\<lparr>
     db_users := [\<lparr>us_id = 7, us_email = ''u'', us_verified = True, us_payoutAddress = Some sample_address, us_minimum = coins 100000000\<rparr>],
     db_blocks := [], db_entries := [\<lparr>be_userId = 7, be_blockId = None, be_payoutId = None, be_delta = coins 5000000000, be_kind = Credit\<rparr>]\<rparr>"

lemma sample_address_valid: "isValidB3AddressForNetwork sample_address Testnet"
  unfolding sample_address_def by code_simp

lemma sample_balance: "balance 7 sample_payout_db = coins 5000000000" "parse_numeric (coins 5000000000) = Fin 50"
    "parse_numeric (coins 100000000) = Fin 1"
  by (simp_all add: balance_def sample_payout_db_def numeric_sum_def numeric_add_def coins_def parse_numeric_def to_num_numeral)

lemma sample_plan: "payout_plan_of sample_config sample_payout_db =
    \<lparr>pp_targets = [(sample_address, Fin 50)], pp_debits = [\<lparr>dp_userId = 7, dp_amount = Fin 50, dp_address = sample_address, dp_email = ''u''\<rparr>],
     pp_total = Fin 50\<rparr>"
proof -
  have u: "payout_candidates sample_payout_db =
      [\<lparr>us_id = 7, us_email = ''u'', us_verified = True, us_payoutAddress = Some sample_address, us_minimum = coins 100000000\<rparr>]"
    by (simp add: payout_candidates_def sample_payout_db_def)
  show ?thesis
    by (simp add: payout_plan_of_def u plan_user_def sample_balance text_of_def sample_address_valid sample_config_def fixed8_50
        to_num_numeral Let_def)
qed

theorem payout_clears_balances_witness:
  "\<exists>targets db'. doPayouts sample_pool_env sample_config sample_payout_db = (Some targets, Inr (), db') \<and>
     balance 7 sample_payout_db = coins 5000000000 \<and> balance 7 db' = Fin 0"
proof -
  have n: "numeric_text (Fin 50) = Inr (Fin 50)" "numeric_text (Fin (- 50)) = Inr (Fin (- 50))"
    by (simp_all add: numeric_text_def fixed8_50 fixed8_minus)
  have users: "db_users sample_payout_db =
      [\<lparr>us_id = 7, us_email = ''u'', us_verified = True, us_payoutAddress = Some sample_address, us_minimum = coins 100000000\<rparr>]"
    by (simp add: sample_payout_db_def)
  have ok: "\<exists>targets db'. doPayouts sample_pool_env sample_config sample_payout_db = (Some targets, Inr (), db')"
    by (simp add: doPayouts_def sample_plan sample_pool_env_def insert_payout_def n tx_def throw_if_def has_user_def users Let_def)
  then obtain targets db' where p: "doPayouts sample_pool_env sample_config sample_payout_db = (Some targets, Inr (), db')"
    by (elim exE)
  have e: "eligible sample_config sample_payout_db (hd (db_users sample_payout_db))"
    by (simp add: eligible_def users sample_balance text_of_def sample_config_def sample_address_valid)
  have range: "\<forall>u \<in> set (db_users sample_payout_db). \<exists>m. balance (us_id u) sample_payout_db = coins m \<and> \<bar>m\<bar> \<le> 4 * 10 ^ 15"
    by (simp add: users sample_balance) (rule exI [of _ 5000000000], simp)
  have "distinct (map us_id (db_users sample_payout_db))" by (simp add: users)
  from payout_clears_balances [OF p this range] e have "balance 7 db' = Fin 0" by (auto simp: users)
  with p sample_balance show ?thesis by (intro exI [of _ targets] exI [of _ db']) simp
qed

definition sample_found :: share_event where
  "sample_found = \<lparr>se_user = ''u'', se_workerName = ''w'', se_diff = Fin 1, se_isBlock = True, se_blockHash = Some ''aa'',
     se_blockHeight = Some 10, se_networkDifficulty = Fin 1, se_timestampMs = 5, se_attest = None\<rparr>"

definition sample_node :: pool_env where
  "sample_node = sample_pool_env\<lparr>pe_getBlock := \<lambda>_. Inr (Some \<lparr>bi_confirmations = 100, bi_height = 10, bi_tx = [''t'']\<rparr>),
     pe_rawTransaction := \<lambda>_. Inr [Some (Fin 50), None]\<rparr>"

definition sample_empty_db :: pool_db where
  "sample_empty_db = sample_db\<lparr>db_blocks := [], db_entries := []\<rparr>"

definition sample_found_row :: block_row where
  "sample_found_row = \<lparr>bk_id = 2, bk_height = 10, bk_hash = ''aa'', bk_finder = Some 7, bk_worker = None, bk_reward = Fin 50,
     bk_poolFee = Fin 0, bk_confirmations = 0, bk_confirmed = False, bk_orphan = False, bk_credited = False, bk_foundAt = 5,
     bk_confirmedAt = None\<rparr>"

lemma numeric_text_samples: "numeric_text (Fin 50) = Inr (Fin 50)" "numeric_text (Fin 0) = Inr (Fin 0)"
  by (simp_all add: numeric_text_def fixed8_50)

lemma sample_recorded: "snd (recordFoundBlock sample_node sample_found sample_empty_db) =
    sample_empty_db\<lparr>db_blocks := [sample_found_row], db_nextId := 3\<rparr>"
  by (simp add: recordFoundBlock_def coinbase_reward_def sample_node_def sample_found_def sample_empty_db_def sample_db_def
      numeric_text_samples to_num_numeral sample_found_row_def Let_def)

lemma sample_confirmed: "db_entries (confirmer_tick sample_node sample_config (sample_empty_db\<lparr>db_blocks := [sample_found_row], db_nextId := 3\<rparr>)) =
    [\<lparr>be_userId = 7, be_blockId = Some 2, be_payoutId = None, be_delta = Fin 50, be_kind = Credit\<rparr>]"
  by (simp add: confirmer_tick_def open_blocks_def checkOne_def sample_found_row_def sample_node_def sample_pool_env_def sample_empty_db_def
      creditPplns_def sample_db_def sample_config_def pplns_window_def update_block_def
      share_totals_def add_total_def parse_numeric_def to_num_numeral js_sub_def credit_amount_def fixed8_50 numeric_text_samples tx_def insert_entry_def
      has_user_def mark_credited_def Let_def)


end
