(* ===== verification/Sv2_Types.thy ===== *)
theory Sv2_Types
  imports Header Js_Bits
begin

text \<open>
  The Stratum V2 type system (\<^verbatim>\<open>sv2/lib/types.ts\<close>) and the 32-bit float helper of
  \<^verbatim>\<open>sv2/lib/messages/mining.ts\<close>. A write operation is the byte string it appends, or the exception
  it throws; \<open>wr\<close> chains operations as the fluent calls on a \<^verbatim>\<open>WriteBuf\<close> do. A read operation
  takes the unread bytes and returns its value with the bytes left, or throws; \<open>rd\<close> sequences
  two reads on one \<^verbatim>\<open>ReadBuf\<close>. Strings are lists of Unicode code points.

  The locale \<open>wire\<close> is the contract of a wire type: what is written is read back, whatever
  follows it. It is interpreted on every type here and on the messages; inside it, encodings
  are shown to be injective and self-delimiting, and sequences of a wire type to be one again.
\<close>

section \<open>Writers\<close>

definition w_u8 :: "int \<Rightarrow> bytes res" where "w_u8 v = Inr (le_bytes 1 v)"
definition w_u16 :: "int \<Rightarrow> bytes res" where "w_u16 v = Inr (le_bytes 2 v)"
definition w_u24 :: "int \<Rightarrow> bytes res" where "w_u24 v = Inr (le_bytes 3 v)"
definition w_u32 :: "int \<Rightarrow> bytes res" where "w_u32 v = Inr (le_bytes 4 v)"
definition w_u64 :: "int \<Rightarrow> bytes res" where "w_u64 v = Inr (le_bytes 8 v)"
definition w_bool :: "bool \<Rightarrow> bytes res" where "w_bool v = w_u8 (if v then 1 else 0)"
definition w_bytesRaw :: "bytes \<Rightarrow> bytes res" where "w_bytesRaw b = Inr b"

definition w_u256 :: "bytes \<Rightarrow> bytes res" where
  "w_u256 b = throw_if (length b \<noteq> 32) (Error ''U256 must be 32 bytes'') (Inr b)"

definition w_pubkey :: "bytes \<Rightarrow> bytes res" where "w_pubkey b = w_u256 b"

definition w_signature :: "bytes \<Rightarrow> bytes res" where
  "w_signature b = throw_if (length b \<noteq> 64) (Error ''SIGNATURE must be 64 bytes'') (Inr b)"

text \<open>The fluent chain of write operations; \<^verbatim>\<open>finish\<close> concatenates the chunks.\<close>

fun wr :: "bytes res list \<Rightarrow> bytes res" where
  "wr [] = Inr []"
| "wr (op # ops) = andthen op (\<lambda>b. andthen (wr ops) (\<lambda>bs. Inr (b @ bs)))"

definition w_b0_255 :: "bytes \<Rightarrow> bytes res" where
  "w_b0_255 b = throw_if (length b > 255) (Error ''B0_255 length > 255'')
     (wr [w_u8 (int (length b)), w_bytesRaw b])"

definition w_b0_64k :: "bytes \<Rightarrow> bytes res" where
  "w_b0_64k b = throw_if (length b > 0xffff) (Error ''B0_64K length > 65535'')
     (wr [w_u16 (int (length b)), w_bytesRaw b])"

definition w_b0_16m :: "bytes \<Rightarrow> bytes res" where
  "w_b0_16m b = throw_if (length b > 0xffffff) (Error ''B0_16M length > 16777215'')
     (wr [w_u24 (int (length b)), w_bytesRaw b])"

definition w_seq0_255 :: "('a \<Rightarrow> bytes res) \<Rightarrow> 'a list \<Rightarrow> bytes res" where
  "w_seq0_255 encOne items = throw_if (length items > 255) (Error ''SEQ0_255 length > 255'')
     (wr (w_u8 (int (length items)) # map encOne items))"

definition w_seq0_64k :: "('a \<Rightarrow> bytes res) \<Rightarrow> 'a list \<Rightarrow> bytes res" where
  "w_seq0_64k encOne items = throw_if (length items > 0xffff) (Error ''SEQ0_64K length > 65535'')
     (wr (w_u16 (int (length items)) # map encOne items))"

section \<open>Readers\<close>

type_synonym 'a reader = "bytes \<Rightarrow> ('a \<times> bytes) res"

definition rd :: "'a reader \<Rightarrow> ('a \<Rightarrow> 'b reader) \<Rightarrow> 'b reader" where
  "rd r f buf = andthen (r buf) (\<lambda>(x, rest). f x rest)"

definition rd_return :: "'a \<Rightarrow> 'a reader" where
  "rd_return x buf = Inr (x, buf)"

definition r_bytesRaw :: "nat \<Rightarrow> bytes reader" where
  "r_bytesRaw n buf = throw_if (n > length buf) (Error ''SV2 read: need more bytes'')
     (Inr (take n buf, drop n buf))"

definition r_le :: "nat \<Rightarrow> int reader" where
  "r_le n = rd (r_bytesRaw n) (\<lambda>b. rd_return (le_value b))"

definition r_u8 :: "int reader" where "r_u8 = r_le 1"
definition r_u16 :: "int reader" where "r_u16 = r_le 2"
definition r_u24 :: "int reader" where "r_u24 = r_le 3"
definition r_u32 :: "int reader" where "r_u32 = r_le 4"
definition r_u64 :: "int reader" where "r_u64 = r_le 8"
definition r_bool :: "bool reader" where "r_bool = rd r_u8 (\<lambda>v. rd_return (v \<noteq> 0))"
definition r_u256 :: "bytes reader" where "r_u256 = r_bytesRaw 32"
definition r_pubkey :: "bytes reader" where "r_pubkey = r_bytesRaw 32"
definition r_signature :: "bytes reader" where "r_signature = r_bytesRaw 64"
definition r_b0_255 :: "bytes reader" where "r_b0_255 = rd r_u8 (\<lambda>n. r_bytesRaw (nat n))"
definition r_b0_64k :: "bytes reader" where "r_b0_64k = rd r_u16 (\<lambda>n. r_bytesRaw (nat n))"
definition r_b0_16m :: "bytes reader" where "r_b0_16m = rd r_u24 (\<lambda>n. r_bytesRaw (nat n))"

fun r_times :: "nat \<Rightarrow> 'a reader \<Rightarrow> 'a list reader" where
  "r_times 0 decOne = rd_return []"
| "r_times (Suc n) decOne = rd decOne (\<lambda>x. rd (r_times n decOne) (\<lambda>xs. rd_return (x # xs)))"

definition r_seq0_255 :: "'a reader \<Rightarrow> 'a list reader" where
  "r_seq0_255 decOne = rd r_u8 (\<lambda>n. r_times (nat n) decOne)"

definition r_seq0_64k :: "'a reader \<Rightarrow> 'a list reader" where
  "r_seq0_64k decOne = rd r_u16 (\<lambda>n. r_times (nat n) decOne)"

text \<open>Decoding a payload: what follows the last field is ignored, as the decoders do.\<close>

definition decode_payload :: "'a reader \<Rightarrow> bytes \<Rightarrow> 'a res" where
  "decode_payload r payload = andthen (r payload) (\<lambda>(x, _). Inr x)"

section \<open>Strings\<close>

type_synonym ustring = "nat list"

definition is_surrogate :: "nat \<Rightarrow> bool" where
  "is_surrogate c \<longleftrightarrow> 0xd800 \<le> c \<and> c \<le> 0xdfff"

text \<open>\<^verbatim>\<open>TextEncoder\<close>: a lone surrogate is replaced by U+FFFD.\<close>

definition utf8_char :: "nat \<Rightarrow> bytes" where
  "utf8_char c0 = (let c = (if is_surrogate c0 then 0xfffd else c0) in
     map word_of_nat (
       if c < 0x80 then [c]
       else if c < 0x800 then [0xc0 + c div 64, 0x80 + c mod 64]
       else if c < 0x10000 then [0xe0 + c div 4096, 0x80 + c div 64 mod 64, 0x80 + c mod 64]
       else [0xf0 + c div 262144, 0x80 + c div 4096 mod 64, 0x80 + c div 64 mod 64, 0x80 + c mod 64]))"

definition utf8_encode :: "ustring \<Rightarrow> bytes" where
  "utf8_encode s = concat (map utf8_char s)"

text \<open>
  \<^verbatim>\<open>TextDecoder("utf-8", { fatal: true })\<close>: overlong forms, surrogates and values above U+10FFFF are
  rejected with a \<^verbatim>\<open>TypeError\<close>, and a leading byte order mark is dropped.
\<close>

definition cont :: "byte \<Rightarrow> nat \<Rightarrow> nat \<Rightarrow> bool" where
  "cont b lo hi \<longleftrightarrow> lo \<le> unat b \<and> unat b \<le> hi"

fun utf8_scan :: "bytes \<Rightarrow> ustring res" where
  "utf8_scan [] = Inr []"
| "utf8_scan (b0 # bs) =
     (let n0 = unat b0 in
      if n0 < 0x80 then andthen (utf8_scan bs) (\<lambda>s. Inr (n0 # s))
      else if 0xc2 \<le> n0 \<and> n0 \<le> 0xdf then
        (case bs of
           b1 # bs1 \<Rightarrow> if cont b1 0x80 0xbf
             then andthen (utf8_scan bs1) (\<lambda>s. Inr (((n0 - 0xc0) * 64 + (unat b1 - 0x80)) # s))
             else Inl TypeError
         | _ \<Rightarrow> Inl TypeError)
      else if 0xe0 \<le> n0 \<and> n0 \<le> 0xef then
        (case bs of
           b1 # b2 # bs2 \<Rightarrow>
             if cont b1 (if n0 = 0xe0 then 0xa0 else 0x80) (if n0 = 0xed then 0x9f else 0xbf) \<and> cont b2 0x80 0xbf
             then andthen (utf8_scan bs2) (\<lambda>s.
               Inr (((n0 - 0xe0) * 4096 + (unat b1 - 0x80) * 64 + (unat b2 - 0x80)) # s))
             else Inl TypeError
         | _ \<Rightarrow> Inl TypeError)
      else if 0xf0 \<le> n0 \<and> n0 \<le> 0xf4 then
        (case bs of
           b1 # b2 # b3 # bs3 \<Rightarrow>
             if cont b1 (if n0 = 0xf0 then 0x90 else 0x80) (if n0 = 0xf4 then 0x8f else 0xbf) \<and>
                cont b2 0x80 0xbf \<and> cont b3 0x80 0xbf
             then andthen (utf8_scan bs3) (\<lambda>s. Inr (((n0 - 0xf0) * 262144 + (unat b1 - 0x80) * 4096 +
               (unat b2 - 0x80) * 64 + (unat b3 - 0x80)) # s))
             else Inl TypeError
         | _ \<Rightarrow> Inl TypeError)
      else Inl TypeError)"

definition utf8_decode :: "bytes \<Rightarrow> ustring res" where
  "utf8_decode b = andthen (utf8_scan b) (\<lambda>s. Inr (case s of c # cs \<Rightarrow> if c = 0xfeff then cs else s | [] \<Rightarrow> []))"

definition w_str0_255 :: "ustring \<Rightarrow> bytes res" where
  "w_str0_255 s = w_b0_255 (utf8_encode s)"

definition r_str0_255 :: "ustring reader" where
  "r_str0_255 = rd r_b0_255 (\<lambda>b rest. andthen (utf8_decode b) (\<lambda>s. Inr (s, rest)))"

section \<open>Single-precision floats\<close>

text \<open>
  \<^verbatim>\<open>setFloat32\<close> rounds to nearest even; the bit pattern of a positive float is its exponent
  above the smallest, times $2^{23}$, plus its significand. The two zeros are one value.
\<close>

definition f32_pattern :: "rat \<Rightarrow> int" where
  "f32_pattern a = (let ue = max (flog2 a - 23) (- 149); q = rne (a / 2 powi ue) in
     min ((ue + 149) * 2 ^ 23 + q) (255 * 2 ^ 23))"

fun f32_bits :: "jsnum \<Rightarrow> int" where
  "f32_bits NaN = 0x7fc00000"
| "f32_bits PosInf = 0x7f800000"
| "f32_bits NegInf = 0xff800000"
| "f32_bits (Fin x) = (if x = 0 then 0 else if 0 < x then f32_pattern x else 2 ^ 31 + f32_pattern (- x))"

definition f32_value :: "int \<Rightarrow> jsnum" where
  "f32_value w = (let s = (if w div 2 ^ 31 mod 2 = 0 then 1 else - 1); e = w div 2 ^ 23 mod 256; m = w mod 2 ^ 23 in
     if e = 255 then if m \<noteq> 0 then NaN else if s = 1 then PosInf else NegInf
     else if e = 0 then Fin (s * (of_int m * 2 powi (- 149)))
     else Fin (s * (of_int (2 ^ 23 + m) * 2 powi (e - 150))))"

definition writeF32 :: "jsnum \<Rightarrow> bytes res" where
  "writeF32 v = w_bytesRaw (le_bytes 4 (f32_bits v))"

definition readF32 :: "jsnum reader" where
  "readF32 = rd (r_bytesRaw 4) (\<lambda>b. rd_return (f32_value (le_value b)))"

section \<open>Hexadecimal helpers\<close>

text \<open>The module has its own copies of the hexadecimal helpers of \<^verbatim>\<open>lib/header.ts\<close>.\<close>

definition sv2_hexToBytes :: "string \<Rightarrow> bytes res" where
  "sv2_hexToBytes hex = (let clean = (if starts_with hex ''0x'' then drop 2 hex else hex) in
     throw_if (length clean mod 2 \<noteq> 0) (Error ''odd-length hex'') (Inr (hex_pairs clean)))"

definition sv2_bytesToHex :: "bytes \<Rightarrow> string" where
  "sv2_bytesToHex b = concat (map (\<lambda>x. pad_start 2 (CHR ''0'') (hex_of_nat (unat x))) b)"

lemma sv2_hex_same: "sv2_hexToBytes = hexToBytes" "sv2_bytesToHex = bytesToHex"
  by (simp_all add: fun_eq_iff sv2_hexToBytes_def hexToBytes_def sv2_bytesToHex_def bytesToHex_def)

section \<open>The contract of a wire type\<close>

text \<open>A write operation and a reader agree on a value: the reader gets it back, whatever follows.\<close>

definition codes :: "bytes res \<Rightarrow> 'a reader \<Rightarrow> 'a \<Rightarrow> bool" where
  "codes w r x \<longleftrightarrow> (\<exists>bs. w = Inr bs \<and> (\<forall>rest. r (bs @ rest) = Inr (x, rest)))"

text \<open>A reader is stable when bytes that follow do not change what it read.\<close>

definition stable :: "'a reader \<Rightarrow> bool" where
  "stable r \<longleftrightarrow> (\<forall>buf x rest more. r buf = Inr (x, rest) \<longrightarrow> r (buf @ more) = Inr (x, rest @ more))"

named_theorems stable_intros "readers that are stable"

lemma stable_bytesRaw [stable_intros]: "stable (r_bytesRaw n)"
  by (auto simp: stable_def r_bytesRaw_def throw_if_eq_Inr)

lemma stable_return [stable_intros]: "stable (rd_return x)"
  by (simp add: stable_def rd_return_def)

lemma stable_rd [stable_intros]: "stable r \<Longrightarrow> (\<And>x. stable (f x)) \<Longrightarrow> stable (rd r f)"
  unfolding stable_def rd_def andthen_eq_Inr by fastforce

lemma stable_le [stable_intros]: "stable (r_le n)"
  unfolding r_le_def by (intro stable_intros)

lemma stable_times [stable_intros]: "stable r \<Longrightarrow> stable (r_times n r)"
  by (induction n) (auto intro!: stable_intros)

locale wire =
  fixes put :: "'a \<Rightarrow> bytes res" and get :: "'a reader" and ok :: "'a \<Rightarrow> bool"
  assumes roundtrip: "ok x \<Longrightarrow> codes (put x) get x"
    and stable: "stable get"
begin

lemma put_total: "ok x \<Longrightarrow> \<exists>bs. put x = Inr bs"
  using roundtrip unfolding codes_def by blast

lemma get_put: "ok x \<Longrightarrow> put x = Inr bs \<Longrightarrow> get (bs @ rest) = Inr (x, rest)"
  using roundtrip unfolding codes_def by fastforce

text \<open>No encoding is a proper prefix of another: the types are self-delimiting.\<close>

lemma prefix_free: "ok x \<Longrightarrow> ok y \<Longrightarrow> put x = Inr bs \<Longrightarrow> put y = Inr cs \<Longrightarrow> bs @ r = cs @ s \<Longrightarrow> x = y \<and> bs = cs"
  using get_put by (metis Inr_inject prod.inject same_append_eq append_same_eq)

lemma put_inj: "ok x \<Longrightarrow> ok y \<Longrightarrow> put x = put y \<Longrightarrow> x = y"
  using put_total prefix_free by metis

lemma decode_payload_put: "ok x \<Longrightarrow> put x = Inr bs \<Longrightarrow> decode_payload get bs = Inr x"
  using get_put [of x bs "[]"] by (simp add: decode_payload_def)

text \<open>A truncated encoding is rejected: every strict prefix makes the reader throw.\<close>

lemma truncated: "ok x \<Longrightarrow> put x = Inr (bs @ cs) \<Longrightarrow> cs \<noteq> [] \<Longrightarrow> \<exists>e. get bs = Inl e"
proof (rule ccontr)
  assume a: "ok x" "put x = Inr (bs @ cs)" "cs \<noteq> []" "\<nexists>e. get bs = Inl e"
  then obtain y r where "get bs = Inr (y, r)" by (metis old.sum.exhaust surj_pair)
  then have "get (bs @ cs) = Inr (y, r @ cs)" using stable unfolding stable_def by blast
  with get_put [OF a(1,2), of "[]"] a(3) show False by simp
qed

lemma times: "\<forall>x \<in> set xs. ok x \<Longrightarrow> codes (wr (map put xs)) (r_times (length xs) get) xs"
proof (induction xs)
  case (Cons x xs)
  then have "codes (put x) get x" "codes (wr (map put xs)) (r_times (length xs) get) xs"
    by (auto intro: roundtrip)
  then show ?case by (auto simp: codes_def rd_def rd_return_def)
qed (simp add: codes_def rd_return_def)

end

section \<open>Every type of the module is a wire type\<close>

named_theorems wire_simps "reading back what a writer wrote"

definition ok_uint :: "nat \<Rightarrow> int \<Rightarrow> bool" where
  "ok_uint n v \<longleftrightarrow> 0 \<le> v \<and> v < 256 ^ n"

abbreviation "ok_u8 \<equiv> ok_uint 1"
abbreviation "ok_u16 \<equiv> ok_uint 2"
abbreviation "ok_u24 \<equiv> ok_uint 3"
abbreviation "ok_u32 \<equiv> ok_uint 4"
abbreviation "ok_u64 \<equiv> ok_uint 8"
abbreviation ok_u256 :: "bytes \<Rightarrow> bool" where "ok_u256 b \<equiv> length b = 32"
abbreviation ok_b0_255 :: "bytes \<Rightarrow> bool" where "ok_b0_255 b \<equiv> length b \<le> 255"
abbreviation ok_b0_64k :: "bytes \<Rightarrow> bool" where "ok_b0_64k b \<equiv> length b \<le> 0xffff"
abbreviation ok_b0_16m :: "bytes \<Rightarrow> bool" where "ok_b0_16m b \<equiv> length b \<le> 0xffffff"

definition ok_scalar :: "nat \<Rightarrow> bool" where
  "ok_scalar c \<longleftrightarrow> c \<le> 0x10ffff \<and> \<not> is_surrogate c"

definition ok_str :: "ustring \<Rightarrow> bool" where
  "ok_str s \<longleftrightarrow> (\<forall>c \<in> set s. ok_scalar c) \<and> length (utf8_encode s) \<le> 255 \<and> (s \<noteq> [] \<longrightarrow> hd s \<noteq> 0xfeff)"

definition ok_f32 :: "jsnum \<Rightarrow> bool" where
  "ok_f32 v \<longleftrightarrow> f32_value (f32_bits v) = v"

lemma codes_Nil: "x = y \<Longrightarrow> codes (wr []) (rd_return x) y"
  by (simp add: codes_def rd_return_def)

lemma codes_Cons: "codes w r x \<Longrightarrow> codes (wr ws) (f x) y \<Longrightarrow> codes (wr (w # ws)) (rd r f) y"
  by (auto simp: codes_def rd_def)

context wire
begin

text \<open>One field of a message: written by \<open>put\<close>, read by \<open>get\<close>, then the rest of the message.\<close>

lemma field: "ok x \<Longrightarrow> codes (wr ws) (f x) y \<Longrightarrow> codes (wr (put x # ws)) (rd get f) y"
  by (rule codes_Cons [OF roundtrip])

end

lemma codes_last: "codes w r x \<Longrightarrow> codes (wr [w]) r x"
  by (auto simp: codes_def)

declare wr.simps [simp del]

lemma codes_bytesRaw: "length b = n \<Longrightarrow> codes (w_bytesRaw b) (r_bytesRaw n) b"
  by (simp add: codes_def w_bytesRaw_def r_bytesRaw_def)

lemma codes_le: "ok_uint n v \<Longrightarrow> codes (Inr (le_bytes n v)) (r_le n) v"
  by (simp add: codes_def r_le_def rd_def r_bytesRaw_def rd_return_def ok_uint_def)

interpretation u8: wire w_u8 r_u8 ok_u8
  unfolding w_u8_def r_u8_def by unfold_locales (rule codes_le, assumption, rule stable_le)

interpretation u16: wire w_u16 r_u16 ok_u16
  unfolding w_u16_def r_u16_def by unfold_locales (rule codes_le, assumption, rule stable_le)

interpretation u24: wire w_u24 r_u24 ok_u24
  unfolding w_u24_def r_u24_def by unfold_locales (rule codes_le, assumption, rule stable_le)

interpretation u32: wire w_u32 r_u32 ok_u32
  unfolding w_u32_def r_u32_def by unfold_locales (rule codes_le, assumption, rule stable_le)

interpretation u64: wire w_u64 r_u64 ok_u64
  unfolding w_u64_def r_u64_def by unfold_locales (rule codes_le, assumption, rule stable_le)

interpretation boolean: wire w_bool r_bool "\<lambda>_. True"
proof
  fix v
  have "codes (w_u8 (if v then 1 else 0)) r_u8 (if v then 1 else 0)"
    by (rule u8.roundtrip) (simp add: ok_uint_def)
  then show "codes (w_bool v) r_bool v"
    by (auto simp: codes_def w_bool_def r_bool_def rd_def rd_return_def)
  show "stable r_bool" unfolding r_bool_def by (intro stable_intros u8.stable)
qed

interpretation u256: wire w_u256 r_u256 ok_u256
  by unfold_locales (simp_all add: w_u256_def r_u256_def codes_bytesRaw [unfolded w_bytesRaw_def] stable_bytesRaw)

interpretation pubkey: wire w_pubkey r_pubkey ok_u256
  by unfold_locales (simp_all add: w_pubkey_def w_u256_def r_pubkey_def codes_bytesRaw [unfolded w_bytesRaw_def] stable_bytesRaw)

interpretation signature: wire w_signature r_signature "\<lambda>b. length b = 64"
  by unfold_locales (simp_all add: w_signature_def r_signature_def codes_bytesRaw [unfolded w_bytesRaw_def] stable_bytesRaw)

lemma ok_uint_len:
  "length xs \<le> 255 \<Longrightarrow> ok_u8 (int (length xs))"
  "length xs \<le> 0xffff \<Longrightarrow> ok_u16 (int (length xs))"
  "length xs \<le> 0xffffff \<Longrightarrow> ok_u24 (int (length xs))"
  by (simp_all add: ok_uint_def)

lemma codes_bytes_len: "codes w r (int (length b)) \<Longrightarrow> codes (wr [w, w_bytesRaw b]) (rd r (\<lambda>n. r_bytesRaw (nat n))) b"
  by (rule codes_Cons, assumption) (rule codes_last, simp add: codes_bytesRaw)

interpretation b0_255: wire w_b0_255 r_b0_255 ok_b0_255
  by unfold_locales (simp_all add: w_b0_255_def r_b0_255_def codes_bytes_len u8.roundtrip ok_uint_len
      stable_rd u8.stable stable_bytesRaw del: One_nat_def)

interpretation b0_64k: wire w_b0_64k r_b0_64k ok_b0_64k
  by unfold_locales (simp_all add: w_b0_64k_def r_b0_64k_def codes_bytes_len u16.roundtrip ok_uint_len
      stable_rd u16.stable stable_bytesRaw)

interpretation b0_16m: wire w_b0_16m r_b0_16m ok_b0_16m
  by unfold_locales (simp_all add: w_b0_16m_def r_b0_16m_def codes_bytes_len u24.roundtrip ok_uint_len
      stable_rd u24.stable stable_bytesRaw)

text \<open>A sequence of a wire type is a wire type.\<close>

context wire
begin

lemma codes_seq_len: "codes w r (int (length xs)) \<Longrightarrow> \<forall>x \<in> set xs. ok x \<Longrightarrow>
  codes (wr (w # map put xs)) (rd r (\<lambda>n. r_times (nat n) get)) xs"
  by (rule codes_Cons, assumption) (simp add: times)

lemma wire_seq0_255: "wire (w_seq0_255 put) (r_seq0_255 get) (\<lambda>xs. length xs \<le> 255 \<and> (\<forall>x \<in> set xs. ok x))"
  by unfold_locales (simp_all add: w_seq0_255_def r_seq0_255_def codes_seq_len u8.roundtrip ok_uint_len
      stable_rd u8.stable stable_times stable
      del: One_nat_def wr.simps)

lemma wire_seq0_64k: "wire (w_seq0_64k put) (r_seq0_64k get) (\<lambda>xs. length xs \<le> 0xffff \<and> (\<forall>x \<in> set xs. ok x))"
  by unfold_locales (simp_all add: w_seq0_64k_def r_seq0_64k_def codes_seq_len u16.roundtrip ok_uint_len
      stable_rd u16.stable stable_times stable
      del: wr.simps)

end

interpretation seq_u256_255: wire "w_seq0_255 w_u256" "r_seq0_255 r_u256"
  "\<lambda>xs. length xs \<le> 255 \<and> (\<forall>x \<in> set xs. ok_u256 x)"
  by (rule u256.wire_seq0_255)

interpretation seq_u256_64k: wire "w_seq0_64k w_u256" "r_seq0_64k r_u256"
  "\<lambda>xs. length xs \<le> 0xffff \<and> (\<forall>x \<in> set xs. ok_u256 x)"
  by (rule u256.wire_seq0_64k)

interpretation seq_b0_16m: wire "w_seq0_64k w_b0_16m" "r_seq0_64k r_b0_16m"
  "\<lambda>xs. length xs \<le> 0xffff \<and> (\<forall>x \<in> set xs. ok_b0_16m x)"
  by (rule b0_16m.wire_seq0_64k)

section \<open>Strings and floats are wire types\<close>

lemma unat_byte: "n < 256 \<Longrightarrow> unat (word_of_nat n :: byte) = n"
  by (simp add: unat_of_nat)

lemma scan1: "n < 0x80 \<Longrightarrow> utf8_scan (word_of_nat n # bs) = andthen (utf8_scan bs) (\<lambda>s. Inr (n # s))"
  by (simp add: unat_byte)

lemma scan2:
  "2 \<le> a \<Longrightarrow> a < 32 \<Longrightarrow> b < 64 \<Longrightarrow> utf8_scan (word_of_nat (0xc0 + a) # word_of_nat (0x80 + b) # bs) =
   andthen (utf8_scan bs) (\<lambda>s. Inr ((a * 64 + b) # s))"
  by (simp add: unat_byte cont_def del: of_nat_add)

lemma scan3:
  "a < 16 \<Longrightarrow> b < 64 \<Longrightarrow> d < 64 \<Longrightarrow> (a = 0 \<Longrightarrow> 32 \<le> b) \<Longrightarrow> (a = 13 \<Longrightarrow> b < 32) \<Longrightarrow>
   utf8_scan (word_of_nat (0xe0 + a) # word_of_nat (0x80 + b) # word_of_nat (0x80 + d) # bs) =
   andthen (utf8_scan bs) (\<lambda>s. Inr ((a * 4096 + b * 64 + d) # s))"
  by (cases "a = 0"; cases "a = 13") (auto simp: unat_byte cont_def simp del: of_nat_add)

lemma scan4:
  "a \<le> 4 \<Longrightarrow> b < 64 \<Longrightarrow> d < 64 \<Longrightarrow> e < 64 \<Longrightarrow> (a = 0 \<Longrightarrow> 16 \<le> b) \<Longrightarrow> (a = 4 \<Longrightarrow> b < 16) \<Longrightarrow>
   utf8_scan (word_of_nat (0xf0 + a) # word_of_nat (0x80 + b) # word_of_nat (0x80 + d) #
     word_of_nat (0x80 + e) # bs) =
   andthen (utf8_scan bs) (\<lambda>s. Inr ((a * 262144 + b * 4096 + d * 64 + e) # s))"
  by (cases "a = 0"; cases "a = 4") (auto simp: unat_byte cont_def simp del: of_nat_add)

lemma sextets3:
  obtains a b d :: nat where "c div 4096 = a" "c div 64 mod 64 = b" "c mod 64 = d"
    "c = a * 4096 + b * 64 + d" "b < 64" "d < 64"
proof -
  have "c = c div 64 div 64 * 4096 + c div 64 mod 64 * 64 + c mod 64"
    using div_mult_mod_eq [of "c div 64" 64] div_mult_mod_eq [of c 64] by linarith
  moreover have "c div 64 div 64 = c div 4096" by (simp add: div_mult2_eq [symmetric])
  ultimately show thesis by (intro that [of "c div 4096" "c div 64 mod 64" "c mod 64"]) simp_all
qed

lemma sextets4:
  obtains a b d e :: nat where "c div 262144 = a" "c div 4096 mod 64 = b" "c div 64 mod 64 = d" "c mod 64 = e"
    "c = a * 262144 + b * 4096 + d * 64 + e" "b < 64" "d < 64" "e < 64"
proof -
  obtain x d e where x: "c div 4096 = x" "c div 64 mod 64 = d" "c mod 64 = e" "c = x * 4096 + d * 64 + e"
    "d < 64" "e < 64" by (rule sextets3)
  moreover have "x = x div 64 * 64 + x mod 64" by simp
  moreover have "x div 64 = c div 262144" by (simp add: x(1) [symmetric] div_mult2_eq [symmetric])
  ultimately show thesis by (intro that [of "x div 64" "x mod 64" d e]) simp_all
qed

lemma scan_char:
  assumes ok: "ok_scalar c"
  shows "utf8_scan (utf8_char c @ bs) = andthen (utf8_scan bs) (\<lambda>s. Inr (c # s))"
proof -
  note char = utf8_char_def Let_def ok [unfolded ok_scalar_def, THEN conjunct2]
  note ok' = ok [unfolded ok_scalar_def is_surrogate_def]
  consider "c < 0x80" | "0x80 \<le> c" "c < 0x800" | "0x800 \<le> c" "c < 0x10000" | "0x10000 \<le> c" by linarith
  then show ?thesis
  proof cases
    case 1 then show ?thesis by (simp add: char scan1 del: utf8_scan.simps)
  next
    case 2 then show ?thesis using scan2 [of "c div 64" "c mod 64" bs]
      by (simp add: char del: utf8_scan.simps of_nat_add)
  next
    case 3
    obtain a b d where c: "c div 4096 = a" "c div 64 mod 64 = b" "c mod 64 = d" and
      eq: "c = a * 4096 + b * 64 + d" and lt: "b < 64" "d < 64" by (rule sextets3)
    have "a < 16" "a = 0 \<Longrightarrow> 32 \<le> b" "a = 13 \<Longrightarrow> b < 32" using 3 eq lt ok' by linarith+
    then show ?thesis using 3 c scan3 [of a b d bs, folded eq] lt
      by (simp add: char del: utf8_scan.simps of_nat_add)
  next
    case 4
    obtain a b d e where c: "c div 262144 = a" "c div 4096 mod 64 = b" "c div 64 mod 64 = d" "c mod 64 = e" and
      eq: "c = a * 262144 + b * 4096 + d * 64 + e" and lt: "b < 64" "d < 64" "e < 64" by (rule sextets4)
    have "a \<le> 4" "a = 0 \<Longrightarrow> 16 \<le> b" "a = 4 \<Longrightarrow> b < 16" using 4 eq lt ok' by linarith+
    then show ?thesis using 4 c scan4 [of a b d e bs, folded eq] lt
      by (simp add: char del: utf8_scan.simps of_nat_add)
  qed
qed

lemma utf8_scan_encode: "\<forall>c \<in> set s. ok_scalar c \<Longrightarrow> utf8_scan (utf8_encode s) = Inr s"
  by (induction s) (simp_all add: utf8_encode_def scan_char)

lemma utf8_decode_encode:
  "\<forall>c \<in> set s. ok_scalar c \<Longrightarrow> s \<noteq> [] \<longrightarrow> hd s \<noteq> 0xfeff \<Longrightarrow> utf8_decode (utf8_encode s) = Inr s"
  by (auto simp: utf8_decode_def utf8_scan_encode split: list.split)

interpretation str0_255: wire w_str0_255 r_str0_255 ok_str
proof
  fix s assume s: "ok_str s"
  then have "codes (w_b0_255 (utf8_encode s)) r_b0_255 (utf8_encode s)"
    by (simp add: ok_str_def b0_255.roundtrip)
  with s show "codes (w_str0_255 s) r_str0_255 s"
    by (auto simp: codes_def w_str0_255_def r_str0_255_def rd_def ok_str_def utf8_decode_encode)
next
  have "stable (\<lambda>rest. andthen (utf8_decode b) (\<lambda>s. Inr (s, rest)))" for b
    by (auto simp: stable_def andthen_eq_Inr)
  then show "stable r_str0_255" unfolding r_str0_255_def by (intro stable_rd b0_255.stable)
qed

lemma f32_pattern_range: "0 < a \<Longrightarrow> 0 \<le> f32_pattern a \<and> f32_pattern a < 2 ^ 31"
proof -
  assume a: "0 < a"
  define ue where "ue = max (flog2 a - 23) (- 149)"
  have "0 \<le> rne (a / 2 powi ue)" using a by (intro rne_ge) simp
  moreover have "- 149 \<le> ue" by (simp add: ue_def)
  ultimately show ?thesis by (simp add: f32_pattern_def Let_def flip: ue_def)
qed

lemma f32_bits_u32: "ok_u32 (f32_bits v)"
  using f32_pattern_range
  by (cases v) (fastforce simp: ok_uint_def dest: spec)+

interpretation f32: wire writeF32 readF32 ok_f32
proof
  fix v assume "ok_f32 v"
  then show "codes (writeF32 v) readF32 v" using f32_bits_u32 [of v]
    by (simp add: codes_def writeF32_def w_bytesRaw_def readF32_def rd_def r_bytesRaw_def rd_return_def
        ok_f32_def ok_uint_def)
next
  show "stable readF32" unfolding readF32_def by (intro stable_intros)
qed

text \<open>\<^verbatim>\<open>w.u32(v >>> 0)\<close>: the conversion changes nothing on a 32-bit value.\<close>

lemma to_uint32_ok [simp]: "ok_u32 v \<Longrightarrow> to_uint32 v = v"
  by (simp add: ok_uint_def to_uint32_def take_bit_eq_mod)

interpretation u32s: wire "\<lambda>v. w_u32 (to_uint32 v)" r_u32 ok_u32
  by unfold_locales (simp_all add: u32.roundtrip u32.stable)

lemmas wire_fields = u8.field u16.field u24.field u32.field u32s.field u64.field boolean.field u256.field
  pubkey.field signature.field b0_255.field b0_64k.field b0_16m.field str0_255.field f32.field
  seq_u256_255.field seq_u256_64k.field seq_b0_16m.field

lemmas wire_stable = u8.stable u16.stable u24.stable u32.stable u64.stable boolean.stable u256.stable
  pubkey.stable signature.stable b0_255.stable b0_64k.stable b0_16m.stable str0_255.stable f32.stable
  seq_u256_255.stable seq_u256_64k.stable seq_b0_16m.stable

section \<open>Sizes\<close>

definition sized :: "bytes res \<Rightarrow> nat \<Rightarrow> bool" where
  "sized w n \<longleftrightarrow> (\<forall>bs. w = Inr bs \<longrightarrow> length bs \<le> n)"

lemma sized_basic [simp]:
  "sized (w_u8 v) (Suc 0)" "sized (w_u16 v) 2" "sized (w_u24 v) 3" "sized (w_u32 v) 4" "sized (w_u64 v) 8"
  "sized (w_bool b) (Suc 0)" "sized (w_u256 h) 32" "sized (w_b0_255 x) 256" "sized (w_b0_64k x) 65537"
  "sized (w_str0_255 s) 256" "sized (writeF32 f) 4"
  by (auto simp: sized_def w_u8_def w_u16_def w_u24_def w_u32_def w_u64_def w_bool_def w_u256_def w_str0_255_def
      w_b0_255_def w_b0_64k_def w_bytesRaw_def writeF32_def wr.simps throw_if_eq_Inr andthen_eq_Inr)

lemma sized_wr: "list_all2 sized ws ns \<Longrightarrow> sized (wr ws) (sum_list ns)"
  by (induction rule: list_all2_induct) (fastforce simp: sized_def wr.simps andthen_eq_Inr)+

lemma sized_mono: "sized w n \<Longrightarrow> n \<le> m \<Longrightarrow> sized w m"
  by (fastforce simp: sized_def)

lemma sized_wr_replicate: "(\<And>x. sized (f x) k) \<Longrightarrow> sized (wr (map f xs)) (length xs * k)"
  by (induction xs) (fastforce simp: sized_def wr.simps andthen_eq_Inr)+

lemma sized_seq [simp]:
  "sized (w_seq0_255 w_u256 hs) 8161" "sized (w_seq0_64k w_u256 hs) 2097122"
proof -
  have r: "sized (wr (map w_u256 hs)) (length hs * 32)" by (rule sized_wr_replicate) simp
  show "sized (w_seq0_255 w_u256 hs) 8161" "sized (w_seq0_64k w_u256 hs) 2097122"
    using r by (fastforce simp: sized_def w_seq0_255_def w_seq0_64k_def wr.simps throw_if_eq_Inr andthen_eq_Inr
        w_u8_def w_u16_def)+
qed

text \<open>A message of at most 255 fields, none above 64 KiB, fits in a frame; so does one of up to 8
  fields with a sequence of 65,535 hashes.\<close>

lemma sized_fields:
  assumes "list_all (\<lambda>w. sized w k) ws" and "length ws * k \<le> n"
  shows "sized (wr ws) n"
proof -
  have "list_all2 sized ws (replicate (length ws) k)"
    using assms(1) by (simp add: list_all2_conv_all_nth list_all_length)
  from sized_wr [OF this] show ?thesis using assms(2) by (auto intro: sized_mono simp: sum_list_replicate)
qed

lemma sized_small [simp]:
  "sized (w_u8 v) 65537" "sized (w_u16 v) 65537" "sized (w_u32 v) 65537" "sized (w_u64 v) 65537"
  "sized (w_bool b) 65537" "sized (w_u256 h) 65537" "sized (w_b0_255 x) 65537"
  "sized (w_str0_255 s) 65537" "sized (writeF32 f) 65537" "sized (w_seq0_255 w_u256 hs) 65537"
  by (rule sized_mono [OF sized_basic(1)] sized_mono [OF sized_basic(2)] sized_mono [OF sized_basic(4)]
      sized_mono [OF sized_basic(5)] sized_mono [OF sized_basic(6)] sized_mono [OF sized_basic(7)]
      sized_mono [OF sized_basic(8)] sized_mono [OF sized_basic(10)] sized_mono [OF sized_basic(11)]
      sized_mono [OF sized_seq(1)], simp)+

lemma sized_wide: "sized w 65537 \<Longrightarrow> sized w 2097122"
  by (erule sized_mono) simp

lemma ok_u8_iff [simp]: "ok_uint (Suc 0) v \<longleftrightarrow> 0 \<le> v \<and> v < 256"
  by (simp add: ok_uint_def)

named_theorems message_defs "definitions of the messages"

end
