(* ===== verification/Sv2_Codec.thy ===== *)
theory Sv2_Codec
  imports Sv2_Types Js_Bits
begin

text \<open>
  Stratum V2 framing (\<^verbatim>\<open>sv2/lib/codec.ts\<close>) and the per-connection plaintext buffer that the
  servers keep around \<^verbatim>\<open>splitFrames\<close>. The theorems: a frame that \<^verbatim>\<open>encodeFrame\<close> wrote is read back
  with its header and payload, and the frames a peer sent come out of the buffer in order and
  exactly once however the stream was cut into chunks.
\<close>

section \<open>Frames\<close>

definition SV2_HEADER_LEN :: nat where "SV2_HEADER_LEN = 6"
definition SV2_MAX_PAYLOAD_LEN :: nat where [message_defs]: "SV2_MAX_PAYLOAD_LEN = 0xffffff"
definition CHANNEL_MSG_FLAG :: int where "CHANNEL_MSG_FLAG = 0x8000"

record sv2_frame_header =
  fh_extensionType :: int
  fh_msgType :: int
  fh_msgLength :: int
  fh_channelMsg :: bool

record sv2_frame =
  fr_header :: sv2_frame_header
  fr_payload :: bytes

definition encodeFrame :: "int \<Rightarrow> int \<Rightarrow> bytes \<Rightarrow> bool \<Rightarrow> bytes res" where
  "encodeFrame extensionType msgType payload channelMsg =
     throw_if (length payload > SV2_MAX_PAYLOAD_LEN) (Error ''SV2 payload too large'')
       (let ext = js_or (js_and extensionType 0x7fff) (if channelMsg then CHANNEL_MSG_FLAG else 0) in
        wr [w_u16 ext, w_u8 msgType, w_u24 (int (length payload)), w_bytesRaw payload])"

definition decodeHeader :: "bytes \<Rightarrow> nat \<Rightarrow> sv2_frame_header res" where
  "decodeHeader buf offset =
     throw_if (offset + SV2_HEADER_LEN > length buf) (Error ''SV2 header truncated'')
       (decode_payload
         (rd r_u16 (\<lambda>ext. rd r_u8 (\<lambda>msgType. rd r_u24 (\<lambda>msgLength.
           rd_return \<lparr>fh_extensionType = js_and ext 0x7fff, fh_msgType = msgType,
             fh_msgLength = msgLength, fh_channelMsg = js_and ext CHANNEL_MSG_FLAG \<noteq> 0\<rparr>))))
         (slice buf offset (offset + SV2_HEADER_LEN)))"

text \<open>
  The loop of \<^verbatim>\<open>splitFrames\<close> from offset \<open>off\<close>: the frames found and the final offset. The guard
  makes the header complete, so the exception of \<^verbatim>\<open>decodeHeader\<close> cannot occur (\<open>decodeHeader_total\<close>).
\<close>

function splitFrom :: "bytes \<Rightarrow> nat \<Rightarrow> sv2_frame list \<times> nat" where
  "splitFrom buf off =
     (if off + SV2_HEADER_LEN \<le> length buf then
        (case decodeHeader buf off of
           Inl _ \<Rightarrow> ([], off)
         | Inr header \<Rightarrow>
             let total = SV2_HEADER_LEN + nat (fh_msgLength header) in
             if off + total > length buf then ([], off)
             else
               let payload = slice buf (off + SV2_HEADER_LEN) (off + total);
                   (frames, consumed) = splitFrom buf (off + total)
               in (\<lparr>fr_header = header, fr_payload = payload\<rparr> # frames, consumed))
      else ([], off))"
  by pat_completeness auto
termination
  by (relation "measure (\<lambda>(buf, off). length buf - off)") (auto simp: SV2_HEADER_LEN_def)

declare splitFrom.simps [simp del]

definition splitFrames :: "bytes \<Rightarrow> sv2_frame list \<times> nat" where
  "splitFrames buf = splitFrom buf 0"

definition payloadChannelId :: "bytes \<Rightarrow> int res" where
  "payloadChannelId payload =
     throw_if (length payload < 4) (Error ''channel msg payload too short'') (Inr (le_value (take 4 payload)))"

section \<open>The connection's plaintext buffer\<close>

text \<open>
  What a server does with each decrypted chunk: append it to the buffer, take the complete
  frames out and keep what is left.
\<close>

definition feedPlain :: "bytes \<Rightarrow> bytes \<Rightarrow> sv2_frame list \<times> bytes" where
  "feedPlain plain chunk = (let buf = plain @ chunk; (frames, consumed) = splitFrames buf
     in (frames, drop consumed buf))"

fun feedAll :: "bytes \<Rightarrow> bytes list \<Rightarrow> sv2_frame list \<times> bytes" where
  "feedAll plain [] = ([], plain)"
| "feedAll plain (chunk # chunks) =
     (let (frames, plain') = feedPlain plain chunk; (rest, plain'') = feedAll plain' chunks
      in (frames @ rest, plain''))"

section \<open>Splitting\<close>

lemma decodeHeader_shift: "decodeHeader (pre @ buf) (length pre + off) = decodeHeader buf off"
  by (simp add: decodeHeader_def slice_def)

lemma decodeHeader_more: "off + SV2_HEADER_LEN \<le> length buf \<Longrightarrow> decodeHeader (buf @ rest) off = decodeHeader buf off"
  by (simp add: decodeHeader_def slice_def)

lemma decodeHeader_total: "off + SV2_HEADER_LEN \<le> length buf \<Longrightarrow> \<exists>h. decodeHeader buf off = Inr h"
  by (simp add: decodeHeader_def decode_payload_def slice_def rd_def r_u16_def r_u8_def r_u24_def r_le_def
      r_bytesRaw_def rd_return_def SV2_HEADER_LEN_def)

lemma splitFrom_shift:
  "splitFrom (pre @ buf) (length pre + off) = (let (fs, n) = splitFrom buf off in (fs, length pre + n))"
proof (induction buf off rule: splitFrom.induct)
  case (1 buf off)
  show ?case
    by (subst (1 2) splitFrom.simps)
       (use 1 in \<open>auto simp: decodeHeader_shift slice_def Let_def add.assoc split: sum.splits prod.splits\<close>)
qed

lemma splitFrom_le: "off \<le> length buf \<Longrightarrow> off \<le> snd (splitFrom buf off) \<and> snd (splitFrom buf off) \<le> length buf"
proof (induction buf off rule: splitFrom.induct)
  case (1 buf off)
  then show ?case
    by (subst (1 2) splitFrom.simps)
       (fastforce simp: Let_def split: sum.splits prod.splits)
qed

text \<open>Bytes that arrive later do not change the frames already complete.\<close>

lemma splitFrom_more:
  "splitFrom buf off = (fs, n) \<Longrightarrow> splitFrom (buf @ rest) off = (let (gs, m) = splitFrom (buf @ rest) n in (fs @ gs, m))"
proof (induction buf off arbitrary: fs rule: splitFrom.induct)
  case (1 buf off)
  show ?case
  proof (cases "off + SV2_HEADER_LEN \<le> length buf")
    case True
    then obtain h where h: "decodeHeader buf off = Inr h" using decodeHeader_total by blast
    define total where "total = SV2_HEADER_LEN + nat (fh_msgLength h)"
    show ?thesis
    proof (cases "off + total > length buf")
      case True
      with 1(2) h show ?thesis by (simp add: splitFrom.simps [of buf] Let_def total_def split: if_splits)
    next
      case False
      obtain gs where gs: "splitFrom buf (off + total) = (gs, n)"
        "fs = \<lparr>fr_header = h, fr_payload = slice buf (off + SV2_HEADER_LEN) (off + total)\<rparr> # gs"
        using 1(2) h True False
        by (subst (asm) splitFrom.simps) (auto simp: Let_def total_def split: prod.splits)
      have "splitFrom (buf @ rest) (off + total) = (let (hs, m) = splitFrom (buf @ rest) n in (gs @ hs, m))"
        using 1(1) [OF True h total_def _ _ gs(1)] False by simp
      then show ?thesis using gs(2) h True False
        by (subst splitFrom.simps)
           (simp add: decodeHeader_more Let_def slice_def total_def [symmetric] split: prod.splits)
    qed
  next
    case False
    with 1(2) show ?thesis by (simp add: splitFrom.simps [of buf])
  qed
qed

lemma splitFrames_append:
  assumes "splitFrames a = (fs, n)" and "splitFrames (drop n a @ b) = (gs, m)"
  shows "splitFrames (a @ b) = (fs @ gs, n + m)"
proof -
  have n: "n \<le> length a" using splitFrom_le [of 0 a] assms(1) by (simp add: splitFrames_def)
  have "splitFrom (a @ b) n = splitFrom (take n a @ drop n a @ b) (length (take n a) + 0)"
    using n by (simp add: append_assoc [symmetric] del: append_assoc)
  also have "\<dots> = (gs, n + m)" using assms(2) n
    by (subst splitFrom_shift) (simp add: splitFrames_def)
  finally show ?thesis using splitFrom_more [of a 0 fs n b] assms(1) by (simp add: splitFrames_def)
qed

lemma splitFrames_le: "snd (splitFrames buf) \<le> length buf"
  using splitFrom_le [of 0 buf] by (simp add: splitFrames_def)

lemma drop_settled: "n \<le> length xs \<Longrightarrow> drop (n + m) (xs @ ys) = drop m (drop n xs @ ys)"
proof -
  assume "n \<le> length xs"
  then have "drop n xs @ ys = drop n (xs @ ys)" by simp
  then show ?thesis by (simp only: drop_drop add.commute)
qed

lemma feedPlain_append:
  assumes "feedPlain p a = (fs, q)" and "feedPlain q b = (gs, r)"
  shows "feedPlain p (a @ b) = (fs @ gs, r)"
proof -
  obtain n where n: "splitFrames (p @ a) = (fs, n)" and q: "q = drop n (p @ a)"
    using assms(1) by (auto simp: feedPlain_def Let_def split: prod.splits)
  obtain m where m: "splitFrames (drop n (p @ a) @ b) = (gs, m)" and r: "r = drop m (q @ b)"
    using assms(2) q by (auto simp: feedPlain_def Let_def split: prod.splits)
  have "n \<le> length (p @ a)" using splitFrames_le [of "p @ a"] n by simp
  then have "drop (n + m) ((p @ a) @ b) = r"
    unfolding r q by (rule drop_settled)
  with splitFrames_append [OF n m] show ?thesis by (simp add: feedPlain_def Let_def)
qed

lemma splitFrom_none: "splitFrom buf off = (fs, n) \<Longrightarrow> splitFrom buf n = ([], n)"
proof (induction buf off arbitrary: fs rule: splitFrom.induct)
  case (1 buf off)
  show ?case
  proof (cases "splitFrom buf off = ([], off)")
    case True with 1(2) show ?thesis by simp
  next
    case False
    with 1(2) obtain h where h: "off + SV2_HEADER_LEN \<le> length buf" "decodeHeader buf off = Inr h"
      "\<not> off + (SV2_HEADER_LEN + nat (fh_msgLength h)) > length buf"
      by (subst (asm) (1 2) splitFrom.simps) (auto simp: Let_def split: sum.splits if_splits)
    moreover obtain gs where "splitFrom buf (off + (SV2_HEADER_LEN + nat (fh_msgLength h))) = (gs, n)"
      using 1(2) h by (subst (asm) splitFrom.simps) (auto simp: Let_def split: prod.splits)
    ultimately show ?thesis using 1(1) [OF h(1,2) refl _ _] by blast
  qed
qed

text \<open>Nothing complete stays in the buffer.\<close>

lemma feedPlain_settled: "feedPlain p a = (fs, q) \<Longrightarrow> feedPlain q [] = ([], q)"
proof -
  assume a: "feedPlain p a = (fs, q)"
  then obtain n where n: "splitFrom (p @ a) 0 = (fs, n)" and q: "q = drop n (p @ a)"
    by (auto simp: feedPlain_def splitFrames_def Let_def split: prod.splits)
  have le: "n \<le> length (p @ a)" using splitFrom_le [of 0 "p @ a"] n by simp
  have "splitFrom (take n (p @ a) @ q) (length (take n (p @ a)) + 0) = ([], n)"
    using splitFrom_none [OF n] le by (simp add: q del: take_append drop_append)
  then have "splitFrom q 0 = ([], 0)"
    using le by (subst (asm) splitFrom_shift) (auto simp del: take_append split: prod.splits)
  then show ?thesis by (simp add: feedPlain_def splitFrames_def)
qed

lemma feedAll_concat: "feedPlain p [] = ([], p) \<Longrightarrow> feedAll p chunks = feedPlain p (concat chunks)"
proof (induction chunks arbitrary: p)
  case (Cons c cs)
  obtain fs q where f: "feedPlain p c = (fs, q)" by (metis surj_pair)
  obtain gs r where g: "feedPlain q (concat cs) = (gs, r)" by (metis surj_pair)
  have "feedAll q cs = (gs, r)" using Cons.IH [of q] feedPlain_settled [OF f] g by simp
  then show ?case using f feedPlain_append [OF f g] by simp
qed simp

section \<open>Frames survive the wire\<close>

text \<open>The extension number and the channel flag share 16 bits.\<close>

definition ext_word :: "int \<Rightarrow> bool \<Rightarrow> int" where
  "ext_word x ch = js_or (js_and x 0x7fff) (if ch then CHANNEL_MSG_FLAG else 0)"

lemma mask15: "(0x7fff :: int) = mask 15" "to_int32 (mask 15) = mask 15"
  by (simp_all add: mask_eq_exp_minus_1 to_int32_def)

lemma flag15: "CHANNEL_MSG_FLAG = 2 ^ 15" "to_int32 (2 ^ 15) = 2 ^ 15" "to_int32 0 = 0"
  by (simp_all add: CHANNEL_MSG_FLAG_def to_int32_def)

lemma bit_flag: "bit (0x8000 :: int) n \<longleftrightarrow> n = 15"
  using bit_exp_iff [of 15 n, where 'a = int] by auto

lemma to_int32_bits: "bit (to_int32 x) n \<longleftrightarrow> bit x (min 31 n)"
  by (simp add: to_int32_def bit_signed_take_bit_iff)

lemma bit_ext_word: "bit (ext_word x ch) n \<longleftrightarrow> n < 15 \<and> bit x n \<or> ch \<and> n = 15"
  by (auto simp: ext_word_def js_or_def js_and_def mask15 flag15 to_int32_bits bit_flag bit_simps min_def)

lemma ext_word_u16: "ok_u16 (ext_word x ch)"
proof -
  have "ext_word x ch = take_bit 16 (ext_word x ch)"
    by (rule bit_eqI) (auto simp: bit_take_bit_iff bit_ext_word)
  then have "0 \<le> ext_word x ch" "ext_word x ch < 2 ^ 16"
    by (metis take_bit_nonnegative, metis take_bit_int_less_exp)
  then show ?thesis by (simp add: ok_uint_def)
qed

lemma ext_word_number: "js_and (ext_word x ch) 0x7fff = x mod 0x8000"
proof -
  have "js_and (ext_word x ch) 0x7fff = take_bit 15 x"
    by (rule bit_eqI) (auto simp: js_and_def mask15 to_int32_bits bit_ext_word bit_flag bit_simps min_def)
  then show ?thesis by (simp add: take_bit_eq_mod)
qed

lemma ext_word_flag: "js_and (ext_word x ch) CHANNEL_MSG_FLAG \<noteq> 0 \<longleftrightarrow> ch"
proof -
  have "js_and (ext_word x ch) CHANNEL_MSG_FLAG = (if ch then 2 ^ 15 else 0)"
    by (rule bit_eqI) (auto simp: js_and_def flag15 to_int32_bits bit_ext_word bit_flag bit_simps min_def)
  then show ?thesis by simp
qed

text \<open>The frame that the arguments of \<^verbatim>\<open>encodeFrame\<close> describe.\<close>

definition frame_of :: "int \<times> int \<times> bytes \<times> bool \<Rightarrow> sv2_frame" where
  "frame_of = (\<lambda>(ext, msgType, payload, ch).
     \<lparr>fr_header = \<lparr>fh_extensionType = ext mod 0x8000, fh_msgType = msgType,
        fh_msgLength = int (length payload), fh_channelMsg = ch\<rparr>, fr_payload = payload\<rparr>)"

definition ok_frame :: "int \<times> int \<times> bytes \<times> bool \<Rightarrow> bool" where
  "ok_frame = (\<lambda>(ext, msgType, payload, ch). ok_u8 msgType \<and> length payload \<le> SV2_MAX_PAYLOAD_LEN)"

definition header_bytes :: "int \<Rightarrow> int \<Rightarrow> bytes \<Rightarrow> bool \<Rightarrow> bytes" where
  "header_bytes ext msgType payload ch =
     le_bytes 2 (ext_word ext ch) @ le_bytes 1 msgType @ le_bytes 3 (int (length payload))"

lemma encodeFrame_eq: "length payload \<le> SV2_MAX_PAYLOAD_LEN \<Longrightarrow>
  encodeFrame ext msgType payload ch = Inr (header_bytes ext msgType payload ch @ payload)"
  by (simp add: encodeFrame_def ext_word_def [symmetric] w_u16_def w_u8_def w_u24_def w_bytesRaw_def wr.simps
      header_bytes_def del: One_nat_def)

lemma encodeFrame_too_large: "length payload > SV2_MAX_PAYLOAD_LEN \<Longrightarrow>
  encodeFrame ext msgType payload ch = Inl (Error ''SV2 payload too large'')"
  by (simp add: encodeFrame_def)

lemma length_header_bytes [simp]: "length (header_bytes ext t p ch) = SV2_HEADER_LEN"
  by (simp add: header_bytes_def SV2_HEADER_LEN_def)

lemma decodeHeader_header_bytes:
  assumes "ok_frame (ext, t, p, ch)"
  shows "decodeHeader (header_bytes ext t p ch @ rest) 0 = Inr (fr_header (frame_of (ext, t, p, ch)))"
proof -
  have t: "ok_u8 t" and p: "ok_u24 (int (length p))"
    using assms by (simp_all add: ok_frame_def ok_uint_def SV2_MAX_PAYLOAD_LEN_def)
  have "codes (wr [w_u16 (ext_word ext ch), w_u8 t, w_u24 (int (length p))])
    (rd r_u16 (\<lambda>e. rd r_u8 (\<lambda>m. rd r_u24 (\<lambda>l. rd_return \<lparr>fh_extensionType = js_and e 0x7fff, fh_msgType = m,
      fh_msgLength = l, fh_channelMsg = js_and e CHANNEL_MSG_FLAG \<noteq> 0\<rparr>)))) (fr_header (frame_of (ext, t, p, ch)))"
    by (intro u16.field u8.field u24.field codes_Nil ext_word_u16 t p)
       (simp add: frame_of_def ext_word_number ext_word_flag)
  moreover have "wr [w_u16 (ext_word ext ch), w_u8 t, w_u24 (int (length p))] = Inr (header_bytes ext t p ch)"
    by (simp add: w_u16_def w_u8_def w_u24_def wr.simps header_bytes_def del: One_nat_def)
  ultimately show ?thesis
    unfolding decodeHeader_def decode_payload_def codes_def
    by (auto simp: slice_def dest!: spec [of _ "[]"])
qed

lemma splitFrames_frame:
  assumes "ok_frame f" and "f = (ext, t, p, ch)" and "splitFrames rest = (fs, n)"
  shows "splitFrames (header_bytes ext t p ch @ p @ rest) = (frame_of f # fs, SV2_HEADER_LEN + length p + n)"
proof -
  have "splitFrom (header_bytes ext t p ch @ p @ rest) (SV2_HEADER_LEN + length p) = (fs, SV2_HEADER_LEN + length p + n)"
    using splitFrom_shift [of "header_bytes ext t p ch @ p" rest 0] assms(3) by (simp add: splitFrames_def)
  then show ?thesis using decodeHeader_header_bytes [of ext t p ch "p @ rest"] assms(1,2)
    unfolding splitFrames_def
    by (subst splitFrom.simps) (simp add: frame_of_def slice_def)
qed

lemma splitFrames_Nil [simp]: "splitFrames [] = ([], 0)"
  by (simp add: splitFrames_def splitFrom.simps SV2_HEADER_LEN_def)

lemma splitFrames_stream:
  "\<forall>f \<in> set fs. ok_frame f \<Longrightarrow> mapR (\<lambda>(ext, t, p, ch). encodeFrame ext t p ch) fs = Inr encs \<Longrightarrow>
   splitFrames (concat encs) = (map frame_of fs, length (concat encs))"
proof (induction fs arbitrary: encs)
  case (Cons f fs)
  obtain ext t p ch where f: "f = (ext, t, p, ch)" by (cases f)
  have "length p \<le> SV2_MAX_PAYLOAD_LEN" using Cons.prems(1) f by (simp add: ok_frame_def)
  then obtain es where es: "mapR (\<lambda>(ext, t, p, ch). encodeFrame ext t p ch) fs = Inr es"
    "encs = (header_bytes ext t p ch @ p) # es"
    using Cons.prems(2) f by (auto simp: encodeFrame_eq andthen_eq_Inr)
  have "splitFrames (concat es) = (map frame_of fs, length (concat es))"
    using Cons es by simp
  from splitFrames_frame [OF _ f this] Cons.prems(1) es show ?case by simp
qed simp

section \<open>Messages\<close>

text \<open>
  A message is delivered when its encoding, fed to the receiver's buffer, is one frame of the
  right type from which the receiver's decoder gets the message back.
\<close>

definition delivered :: "('a \<Rightarrow> bytes res) \<Rightarrow> (bytes \<Rightarrow> 'a res) \<Rightarrow> int \<Rightarrow> bool \<Rightarrow> 'a \<Rightarrow> bool" where
  "delivered enc dec msgType ch x \<longleftrightarrow>
     (\<exists>bs p. enc x = Inr bs \<and> feedPlain [] bs = ([frame_of (0, msgType, p, ch)], []) \<and> dec p = Inr x)"

text \<open>
  Decoding a strict prefix of what was sent throws: no field is made up from missing bytes.
\<close>

definition rejects_truncated :: "('a \<Rightarrow> bytes res) \<Rightarrow> (bytes \<Rightarrow> 'a res) \<Rightarrow> 'a \<Rightarrow> bool" where
  "rejects_truncated enc dec x \<longleftrightarrow>
     (\<forall>hdr p q. enc x = Inr (hdr @ p @ q) \<longrightarrow> length hdr = SV2_HEADER_LEN \<longrightarrow> q \<noteq> [] \<longrightarrow> (\<exists>e. dec p = Inl e))"

locale message = wire put get ok
  for put :: "'a \<Rightarrow> bytes res" and get :: "'a reader" and ok :: "'a \<Rightarrow> bool" +
  fixes encode :: "'a \<Rightarrow> bytes res" and decode :: "bytes \<Rightarrow> 'a res" and msgType :: int and ch :: bool
  assumes encode: "encode x = andthen (put x) (\<lambda>p. encodeFrame 0 msgType p ch)"
    and decode: "decode = decode_payload get"
    and fits: "ok x \<Longrightarrow> sized (put x) SV2_MAX_PAYLOAD_LEN"
    and type_u8: "ok_u8 msgType"
begin

lemma encode_ok:
  assumes "ok x"
  obtains p where "put x = Inr p" "encode x = Inr (header_bytes 0 msgType p ch @ p)" "ok_frame (0, msgType, p, ch)"
proof -
  obtain p where p: "put x = Inr p" using put_total [OF assms] by blast
  then have "length p \<le> SV2_MAX_PAYLOAD_LEN" using fits [OF assms] by (simp add: sized_def)
  then show thesis using p type_u8 by (intro that) (simp_all add: encode encodeFrame_eq ok_frame_def)
qed

lemma delivered: "ok x \<Longrightarrow> delivered encode decode msgType ch x"
proof -
  assume x: "ok x"
  then obtain p where p: "put x = Inr p" "encode x = Inr (header_bytes 0 msgType p ch @ p)"
    "ok_frame (0, msgType, p, ch)" by (rule encode_ok)
  have "feedPlain [] (header_bytes 0 msgType p ch @ p) = ([frame_of (0, msgType, p, ch)], [])"
    using splitFrames_frame [OF p(3) refl splitFrames_Nil] by (simp add: feedPlain_def)
  then show ?thesis using p x by (auto simp: delivered_def decode decode_payload_put)
qed

lemma rejects_truncated: "ok x \<Longrightarrow> rejects_truncated encode decode x"
  unfolding rejects_truncated_def
proof (intro allI impI)
  fix hdr a b
  assume x: "ok x"
  then obtain p where p: "put x = Inr p" and e: "encode x = Inr (header_bytes 0 msgType p ch @ p)"
    by (rule encode_ok)
  assume h: "encode x = Inr (hdr @ a @ b)" "length hdr = SV2_HEADER_LEN" "b \<noteq> []"
  with e have "p = a @ b" by (metis Inr_inject append_eq_append_conv length_header_bytes)
  then obtain err where "get a = Inl err" using truncated [OF x] p h(3) by blast
  then show "\<exists>e. decode a = Inl e" by (simp add: decode decode_payload_def)
qed

end

lemmas message_intros = wire_fields codes_Nil stable_intros wire_stable
  sized_fields [where k = 65537 and n = "0xffffff"]

text \<open>Facts that evaluate well-formedness on concrete messages.\<close>

lemma ok_str_sample: "ok_str [0x62, 0xe9, 0x20ac, 0x1f600]"
  by (simp add: ok_str_def ok_scalar_def is_surrogate_def utf8_encode_def utf8_char_def)

lemma ok_f32_zero: "ok_f32 (Fin 0)"
  by (simp add: ok_f32_def f32_value_def)

lemmas sample_simps = ok_uint_def ok_str_sample ok_f32_zero

section \<open>Any chunking\<close>

text \<open>
  C13: However the byte stream of a peer is cut into chunks, the server's buffer yields exactly
  the frames that were encoded, in order, with their extension number, message type, channel
  flag and payload, and is empty at the end.
\<close>
theorem frames_survive_chunking:
  assumes "\<forall>f \<in> set fs. ok_frame f"
    and "mapR (\<lambda>(ext, t, p, ch). encodeFrame ext t p ch) fs = Inr encs"
    and "concat chunks = concat encs"
  shows "feedAll [] chunks = (map frame_of fs, [])"
proof -
  have "feedAll [] chunks = feedPlain [] (concat encs)"
    using feedAll_concat [of "[]" chunks] assms(3) by (simp add: feedPlain_def)
  then show ?thesis using splitFrames_stream [OF assms(1,2)] by (simp add: feedPlain_def)
qed

theorem frames_survive_chunking_witness:
  "feedAll [] [[0, 0x80, 0x1a, 1], [0], [0, 7, 5, 0, 1, 0, 0, 0]] =
   ([frame_of (0, 0x1a, [7], True), frame_of (5, 1, [], False)], [])"
proof -
  let ?fs = "[(0, 0x1a, [7], True), (5, 1, [], False)] :: (int \<times> int \<times> bytes \<times> bool) list"
  have "mapR (\<lambda>(ext, t, p, ch). encodeFrame ext t p ch) ?fs =
    Inr [header_bytes 0 0x1a [7] True @ [7], header_bytes 5 1 [] False]"
    by (simp add: encodeFrame_eq SV2_MAX_PAYLOAD_LEN_def)
  moreover have "header_bytes 0 0x1a [7] True = [0, 0x80, 0x1a, 1, 0, 0]" "header_bytes 5 1 [] False = [5, 0, 1, 0, 0, 0]"
    by code_simp+
  moreover have "\<forall>f \<in> set ?fs. ok_frame f" by (simp add: ok_frame_def ok_uint_def SV2_MAX_PAYLOAD_LEN_def)
  ultimately show ?thesis
    using frames_survive_chunking [of ?fs _ "[[0, 0x80, 0x1a, 1], [0], [0, 7, 5, 0, 1, 0, 0, 0]]"] by simp
qed

end
