(* ===== verification/Sv2_Common.thy ===== *)
theory Sv2_Common
  imports Sv2_Codec
begin

text \<open>
  The connection set-up messages of Stratum V2 (\<^verbatim>\<open>sv2/lib/messages/common.ts\<close>): one record per
  message, its encoder as the chain of field writes and the frame around it, its decoder as the
  chain of field reads. Each message with both directions is an interpretation of \<open>message\<close>.
\<close>

section \<open>Message types\<close>

definition COMMON_EXT :: int where [message_defs]: "COMMON_EXT = 0"
definition MSG_SETUP_CONNECTION :: int where [message_defs]: "MSG_SETUP_CONNECTION = 0x00"
definition MSG_SETUP_CONNECTION_SUCCESS :: int where [message_defs]: "MSG_SETUP_CONNECTION_SUCCESS = 0x01"
definition MSG_SETUP_CONNECTION_ERROR :: int where [message_defs]: "MSG_SETUP_CONNECTION_ERROR = 0x02"
definition MSG_CHANNEL_ENDPOINT_CHANGED :: int where [message_defs]: "MSG_CHANNEL_ENDPOINT_CHANGED = 0x03"
definition MSG_RECONNECT :: int where [message_defs]: "MSG_RECONNECT = 0x04"
definition SubProtocol_Mining :: int where [message_defs]: "SubProtocol_Mining = 0"
definition SubProtocol_JobDeclaration :: int where [message_defs]: "SubProtocol_JobDeclaration = 1"
definition SubProtocol_TemplateDistribution :: int where [message_defs]: "SubProtocol_TemplateDistribution = 2"
definition MINING_REQUIRES_STANDARD_JOBS :: int where [message_defs]: "MINING_REQUIRES_STANDARD_JOBS = 0x01"
definition MINING_REQUIRES_WORK_SELECTION :: int where [message_defs]: "MINING_REQUIRES_WORK_SELECTION = 0x02"
definition MINING_REQUIRES_VERSION_ROLLING :: int where [message_defs]: "MINING_REQUIRES_VERSION_ROLLING = 0x04"

section \<open>Messages\<close>

record setup_connection =
  sc_protocol :: int
  sc_minVersion :: int
  sc_maxVersion :: int
  sc_flags :: int
  sc_endpointHost :: ustring
  sc_endpointPort :: int
  sc_vendor :: ustring
  sc_hardwareVersion :: ustring
  sc_firmware :: ustring
  sc_deviceId :: ustring

definition payloadSetupConnection :: "setup_connection \<Rightarrow> bytes res" where [message_defs]:
  "payloadSetupConnection m = wr [
     w_u8 (sc_protocol m), w_u16 (sc_minVersion m), w_u16 (sc_maxVersion m),
     w_u32 (to_uint32 (sc_flags m)), w_str0_255 (sc_endpointHost m), w_u16 (sc_endpointPort m),
     w_str0_255 (sc_vendor m), w_str0_255 (sc_hardwareVersion m), w_str0_255 (sc_firmware m),
     w_str0_255 (sc_deviceId m)]"

definition encodeSetupConnection :: "setup_connection \<Rightarrow> bytes res" where [message_defs]:
  "encodeSetupConnection m = andthen (payloadSetupConnection m) (\<lambda>p. encodeFrame COMMON_EXT MSG_SETUP_CONNECTION p False)"

definition readSetupConnection :: "setup_connection reader" where [message_defs]:
  "readSetupConnection =
     rd r_u8 (\<lambda>protocol. rd r_u16 (\<lambda>minVersion. rd r_u16 (\<lambda>maxVersion.
     rd r_u32 (\<lambda>flags. rd r_str0_255 (\<lambda>endpointHost. rd r_u16 (\<lambda>endpointPort.
     rd r_str0_255 (\<lambda>vendor. rd r_str0_255 (\<lambda>hardwareVersion.
     rd r_str0_255 (\<lambda>firmware. rd r_str0_255 (\<lambda>deviceId.
     rd_return \<lparr>
       sc_protocol = protocol, sc_minVersion = minVersion, sc_maxVersion = maxVersion,
       sc_flags = flags, sc_endpointHost = endpointHost, sc_endpointPort = endpointPort,
       sc_vendor = vendor, sc_hardwareVersion = hardwareVersion, sc_firmware = firmware,
       sc_deviceId = deviceId\<rparr>))))))))))"

definition decodeSetupConnection :: "bytes \<Rightarrow> setup_connection res" where [message_defs]:
  "decodeSetupConnection payload = decode_payload readSetupConnection payload"

definition ok_setup_connection :: "setup_connection \<Rightarrow> bool" where [message_defs]:
  "ok_setup_connection m \<longleftrightarrow>
     ok_u8 (sc_protocol m) \<and> ok_u16 (sc_minVersion m) \<and> ok_u16 (sc_maxVersion m) \<and>
     ok_u32 (sc_flags m) \<and> ok_str (sc_endpointHost m) \<and> ok_u16 (sc_endpointPort m) \<and>
     ok_str (sc_vendor m) \<and> ok_str (sc_hardwareVersion m) \<and> ok_str (sc_firmware m) \<and>
     ok_str (sc_deviceId m)"

record setup_connection_success =
  scs_usedVersion :: int
  scs_flags :: int

definition payloadSetupConnectionSuccess :: "setup_connection_success \<Rightarrow> bytes res" where [message_defs]:
  "payloadSetupConnectionSuccess m = wr [
     w_u16 (scs_usedVersion m), w_u32 (to_uint32 (scs_flags m))]"

definition encodeSetupConnectionSuccess :: "setup_connection_success \<Rightarrow> bytes res" where [message_defs]:
  "encodeSetupConnectionSuccess m = andthen (payloadSetupConnectionSuccess m) (\<lambda>p. encodeFrame COMMON_EXT MSG_SETUP_CONNECTION_SUCCESS p False)"

definition readSetupConnectionSuccess :: "setup_connection_success reader" where [message_defs]:
  "readSetupConnectionSuccess =
     rd r_u16 (\<lambda>usedVersion. rd r_u32 (\<lambda>flags.
     rd_return \<lparr>
       scs_usedVersion = usedVersion, scs_flags = flags\<rparr>))"

definition decodeSetupConnectionSuccess :: "bytes \<Rightarrow> setup_connection_success res" where [message_defs]:
  "decodeSetupConnectionSuccess payload = decode_payload readSetupConnectionSuccess payload"

definition ok_setup_connection_success :: "setup_connection_success \<Rightarrow> bool" where [message_defs]:
  "ok_setup_connection_success m \<longleftrightarrow>
     ok_u16 (scs_usedVersion m) \<and> ok_u32 (scs_flags m)"

record setup_connection_error =
  sce_flags :: int
  sce_errorCode :: ustring

definition payloadSetupConnectionError :: "setup_connection_error \<Rightarrow> bytes res" where [message_defs]:
  "payloadSetupConnectionError m = wr [
     w_u32 (to_uint32 (sce_flags m)), w_str0_255 (sce_errorCode m)]"

definition encodeSetupConnectionError :: "setup_connection_error \<Rightarrow> bytes res" where [message_defs]:
  "encodeSetupConnectionError m = andthen (payloadSetupConnectionError m) (\<lambda>p. encodeFrame COMMON_EXT MSG_SETUP_CONNECTION_ERROR p False)"

definition readSetupConnectionError :: "setup_connection_error reader" where [message_defs]:
  "readSetupConnectionError =
     rd r_u32 (\<lambda>flags. rd r_str0_255 (\<lambda>errorCode.
     rd_return \<lparr>
       sce_flags = flags, sce_errorCode = errorCode\<rparr>))"

definition decodeSetupConnectionError :: "bytes \<Rightarrow> setup_connection_error res" where [message_defs]:
  "decodeSetupConnectionError payload = decode_payload readSetupConnectionError payload"

definition ok_setup_connection_error :: "setup_connection_error \<Rightarrow> bool" where [message_defs]:
  "ok_setup_connection_error m \<longleftrightarrow>
     ok_u32 (sce_flags m) \<and> ok_str (sce_errorCode m)"

record channel_endpoint_changed =
  cec_channelId :: int

definition payloadChannelEndpointChanged :: "channel_endpoint_changed \<Rightarrow> bytes res" where [message_defs]:
  "payloadChannelEndpointChanged m = wr [
     w_u32 (cec_channelId m)]"

definition encodeChannelEndpointChanged :: "channel_endpoint_changed \<Rightarrow> bytes res" where [message_defs]:
  "encodeChannelEndpointChanged m = andthen (payloadChannelEndpointChanged m) (\<lambda>p. encodeFrame COMMON_EXT MSG_CHANNEL_ENDPOINT_CHANGED p True)"

record reconnect_msg =
  rc_newHost :: ustring
  rc_newPort :: int

definition payloadReconnectMsg :: "reconnect_msg \<Rightarrow> bytes res" where [message_defs]:
  "payloadReconnectMsg m = wr [
     w_str0_255 (rc_newHost m), w_u16 (rc_newPort m)]"

definition encodeReconnectMsg :: "reconnect_msg \<Rightarrow> bytes res" where [message_defs]:
  "encodeReconnectMsg m = andthen (payloadReconnectMsg m) (\<lambda>p. encodeFrame COMMON_EXT MSG_RECONNECT p False)"

section \<open>The messages are delivered\<close>

interpretation setup_connection: message payloadSetupConnection readSetupConnection ok_setup_connection
  encodeSetupConnection decodeSetupConnection MSG_SETUP_CONNECTION False
  by unfold_locales (auto simp: message_defs fun_eq_iff intro!: message_intros)

interpretation setup_connection_success: message payloadSetupConnectionSuccess readSetupConnectionSuccess ok_setup_connection_success
  encodeSetupConnectionSuccess decodeSetupConnectionSuccess MSG_SETUP_CONNECTION_SUCCESS False
  by unfold_locales (auto simp: message_defs fun_eq_iff intro!: message_intros)

interpretation setup_connection_error: message payloadSetupConnectionError readSetupConnectionError ok_setup_connection_error
  encodeSetupConnectionError decodeSetupConnectionError MSG_SETUP_CONNECTION_ERROR False
  by unfold_locales (auto simp: message_defs fun_eq_iff intro!: message_intros)


end
