(* ===== verification/Sv2_Jd_Messages.thy ===== *)
theory Sv2_Jd_Messages
  imports Sv2_Codec
begin

text \<open>
  The job declaration messages of Stratum V2 (\<^verbatim>\<open>sv2/lib/messages/jd.ts\<close>), as in \<open>Sv2_Common\<close>.
\<close>

section \<open>Message types\<close>

definition JD_EXT :: int where [message_defs]: "JD_EXT = 0"
definition MSG_ALLOCATE_JOB_TOKEN :: int where [message_defs]: "MSG_ALLOCATE_JOB_TOKEN = 0x50"
definition MSG_ALLOCATE_JOB_TOKEN_SUCCESS :: int where [message_defs]: "MSG_ALLOCATE_JOB_TOKEN_SUCCESS = 0x51"
definition MSG_DECLARE_MINING_JOB :: int where [message_defs]: "MSG_DECLARE_MINING_JOB = 0x57"
definition MSG_DECLARE_MINING_JOB_SUCCESS :: int where [message_defs]: "MSG_DECLARE_MINING_JOB_SUCCESS = 0x58"
definition MSG_DECLARE_MINING_JOB_ERROR :: int where [message_defs]: "MSG_DECLARE_MINING_JOB_ERROR = 0x59"
definition MSG_IDENTIFY_TRANSACTIONS :: int where [message_defs]: "MSG_IDENTIFY_TRANSACTIONS = 0x5a"
definition MSG_IDENTIFY_TRANSACTIONS_SUCCESS :: int where [message_defs]: "MSG_IDENTIFY_TRANSACTIONS_SUCCESS = 0x5b"
definition MSG_PROVIDE_MISSING_TRANSACTIONS :: int where [message_defs]: "MSG_PROVIDE_MISSING_TRANSACTIONS = 0x5c"
definition MSG_PROVIDE_MISSING_TRANSACTIONS_SUCCESS :: int where [message_defs]: "MSG_PROVIDE_MISSING_TRANSACTIONS_SUCCESS = 0x5d"
definition MSG_SUBMIT_SOLUTION_JD :: int where [message_defs]: "MSG_SUBMIT_SOLUTION_JD = 0x60"

section \<open>Messages\<close>

record allocate_mining_job_token =
  amt_userIdentifier :: ustring
  amt_requestId :: int

definition payloadAllocateMiningJobToken :: "allocate_mining_job_token \<Rightarrow> bytes res" where [message_defs]:
  "payloadAllocateMiningJobToken m = wr [
     w_str0_255 (amt_userIdentifier m), w_u32 (amt_requestId m)]"

definition encodeAllocateMiningJobToken :: "allocate_mining_job_token \<Rightarrow> bytes res" where [message_defs]:
  "encodeAllocateMiningJobToken m = andthen (payloadAllocateMiningJobToken m) (\<lambda>p. encodeFrame JD_EXT MSG_ALLOCATE_JOB_TOKEN p False)"

definition readAllocateMiningJobToken :: "allocate_mining_job_token reader" where [message_defs]:
  "readAllocateMiningJobToken =
     rd r_str0_255 (\<lambda>userIdentifier. rd r_u32 (\<lambda>requestId.
     rd_return \<lparr>
       amt_userIdentifier = userIdentifier, amt_requestId = requestId\<rparr>))"

definition decodeAllocateMiningJobToken :: "bytes \<Rightarrow> allocate_mining_job_token res" where [message_defs]:
  "decodeAllocateMiningJobToken payload = decode_payload readAllocateMiningJobToken payload"

definition ok_allocate_mining_job_token :: "allocate_mining_job_token \<Rightarrow> bool" where [message_defs]:
  "ok_allocate_mining_job_token m \<longleftrightarrow>
     ok_str (amt_userIdentifier m) \<and> ok_u32 (amt_requestId m)"

record allocate_mining_job_token_success =
  amts_requestId :: int
  amts_miningJobToken :: bytes
  amts_coinbaseOutputMaxAdditionalSize :: int
  amts_asyncMiningAllowed :: bool
  amts_coinbaseOutput :: bytes

definition payloadAllocateMiningJobTokenSuccess :: "allocate_mining_job_token_success \<Rightarrow> bytes res" where [message_defs]:
  "payloadAllocateMiningJobTokenSuccess m = wr [
     w_u32 (amts_requestId m), w_b0_255 (amts_miningJobToken m),
     w_u32 (to_uint32 (amts_coinbaseOutputMaxAdditionalSize m)), w_bool (amts_asyncMiningAllowed m),
     w_b0_64k (amts_coinbaseOutput m)]"

definition encodeAllocateMiningJobTokenSuccess :: "allocate_mining_job_token_success \<Rightarrow> bytes res" where [message_defs]:
  "encodeAllocateMiningJobTokenSuccess m = andthen (payloadAllocateMiningJobTokenSuccess m) (\<lambda>p. encodeFrame JD_EXT MSG_ALLOCATE_JOB_TOKEN_SUCCESS p False)"

definition readAllocateMiningJobTokenSuccess :: "allocate_mining_job_token_success reader" where [message_defs]:
  "readAllocateMiningJobTokenSuccess =
     rd r_u32 (\<lambda>requestId. rd r_b0_255 (\<lambda>miningJobToken.
     rd r_u32 (\<lambda>coinbaseOutputMaxAdditionalSize. rd r_bool (\<lambda>asyncMiningAllowed.
     rd r_b0_64k (\<lambda>coinbaseOutput.
     rd_return \<lparr>
       amts_requestId = requestId, amts_miningJobToken = miningJobToken,
       amts_coinbaseOutputMaxAdditionalSize = coinbaseOutputMaxAdditionalSize,
       amts_asyncMiningAllowed = asyncMiningAllowed, amts_coinbaseOutput = coinbaseOutput\<rparr>)))))"

definition decodeAllocateMiningJobTokenSuccess :: "bytes \<Rightarrow> allocate_mining_job_token_success res" where [message_defs]:
  "decodeAllocateMiningJobTokenSuccess payload = decode_payload readAllocateMiningJobTokenSuccess payload"

definition ok_allocate_mining_job_token_success :: "allocate_mining_job_token_success \<Rightarrow> bool" where [message_defs]:
  "ok_allocate_mining_job_token_success m \<longleftrightarrow>
     ok_u32 (amts_requestId m) \<and> ok_b0_255 (amts_miningJobToken m) \<and>
     ok_u32 (amts_coinbaseOutputMaxAdditionalSize m) \<and> ok_b0_64k (amts_coinbaseOutput m)"

record declare_mining_job =
  dmj_requestId :: int
  dmj_miningJobToken :: bytes
  dmj_version :: int
  dmj_coinbasePrefix :: bytes
  dmj_coinbaseSuffix :: bytes
  dmj_txShortHashList :: "bytes list"
  dmj_txHashListHash :: bytes
  dmj_excessData :: bytes

definition payloadDeclareMiningJob :: "declare_mining_job \<Rightarrow> bytes res" where [message_defs]:
  "payloadDeclareMiningJob m = wr [
     w_u32 (dmj_requestId m), w_b0_255 (dmj_miningJobToken m), w_u32 (to_uint32 (dmj_version m)),
     w_b0_255 (dmj_coinbasePrefix m), w_b0_64k (dmj_coinbaseSuffix m),
     w_seq0_64k w_u256 (dmj_txShortHashList m), w_u256 (dmj_txHashListHash m),
     w_b0_64k (dmj_excessData m)]"

definition encodeDeclareMiningJob :: "declare_mining_job \<Rightarrow> bytes res" where [message_defs]:
  "encodeDeclareMiningJob m = andthen (payloadDeclareMiningJob m) (\<lambda>p. encodeFrame JD_EXT MSG_DECLARE_MINING_JOB p False)"

definition readDeclareMiningJob :: "declare_mining_job reader" where [message_defs]:
  "readDeclareMiningJob =
     rd r_u32 (\<lambda>requestId. rd r_b0_255 (\<lambda>miningJobToken. rd r_u32 (\<lambda>vers.
     rd r_b0_255 (\<lambda>coinbasePrefix. rd r_b0_64k (\<lambda>coinbaseSuffix.
     rd (r_seq0_64k r_u256) (\<lambda>txShortHashList. rd r_u256 (\<lambda>txHashListHash.
     rd r_b0_64k (\<lambda>excessData.
     rd_return \<lparr>
       dmj_requestId = requestId, dmj_miningJobToken = miningJobToken, dmj_version = vers,
       dmj_coinbasePrefix = coinbasePrefix, dmj_coinbaseSuffix = coinbaseSuffix,
       dmj_txShortHashList = txShortHashList, dmj_txHashListHash = txHashListHash,
       dmj_excessData = excessData\<rparr>))))))))"

definition decodeDeclareMiningJob :: "bytes \<Rightarrow> declare_mining_job res" where [message_defs]:
  "decodeDeclareMiningJob payload = decode_payload readDeclareMiningJob payload"

definition ok_declare_mining_job :: "declare_mining_job \<Rightarrow> bool" where [message_defs]:
  "ok_declare_mining_job m \<longleftrightarrow>
     ok_u32 (dmj_requestId m) \<and> ok_b0_255 (dmj_miningJobToken m) \<and>
     ok_u32 (dmj_version m) \<and> ok_b0_255 (dmj_coinbasePrefix m) \<and>
     ok_b0_64k (dmj_coinbaseSuffix m) \<and>
     length (dmj_txShortHashList m) \<le> 0xffff \<and> (\<forall>h \<in> set (dmj_txShortHashList m). ok_u256 h) \<and>
     ok_u256 (dmj_txHashListHash m) \<and> ok_b0_64k (dmj_excessData m)"

record declare_mining_job_success =
  dmjs_requestId :: int
  dmjs_newMiningJobToken :: bytes

definition payloadDeclareMiningJobSuccess :: "declare_mining_job_success \<Rightarrow> bytes res" where [message_defs]:
  "payloadDeclareMiningJobSuccess m = wr [
     w_u32 (dmjs_requestId m), w_b0_255 (dmjs_newMiningJobToken m)]"

definition encodeDeclareMiningJobSuccess :: "declare_mining_job_success \<Rightarrow> bytes res" where [message_defs]:
  "encodeDeclareMiningJobSuccess m = andthen (payloadDeclareMiningJobSuccess m) (\<lambda>p. encodeFrame JD_EXT MSG_DECLARE_MINING_JOB_SUCCESS p False)"

record declare_mining_job_error =
  dmje_requestId :: int
  dmje_errorCode :: ustring
  dmje_errorDetails :: bytes

definition payloadDeclareMiningJobError :: "declare_mining_job_error \<Rightarrow> bytes res" where [message_defs]:
  "payloadDeclareMiningJobError m = wr [
     w_u32 (dmje_requestId m), w_str0_255 (dmje_errorCode m), w_b0_64k (dmje_errorDetails m)]"

definition encodeDeclareMiningJobError :: "declare_mining_job_error \<Rightarrow> bytes res" where [message_defs]:
  "encodeDeclareMiningJobError m = andthen (payloadDeclareMiningJobError m) (\<lambda>p. encodeFrame JD_EXT MSG_DECLARE_MINING_JOB_ERROR p False)"

record submit_solution_jd =
  ssj_extranonce :: bytes
  ssj_prevHash :: bytes
  ssj_ntime :: int
  ssj_nonce :: int
  ssj_nbits :: int
  ssj_version :: int

definition payloadSubmitSolutionJD :: "submit_solution_jd \<Rightarrow> bytes res" where [message_defs]:
  "payloadSubmitSolutionJD m = wr [
     w_b0_255 (ssj_extranonce m), w_u256 (ssj_prevHash m), w_u32 (to_uint32 (ssj_ntime m)),
     w_u32 (to_uint32 (ssj_nonce m)), w_u32 (to_uint32 (ssj_nbits m)),
     w_u32 (to_uint32 (ssj_version m))]"

definition encodeSubmitSolutionJD :: "submit_solution_jd \<Rightarrow> bytes res" where [message_defs]:
  "encodeSubmitSolutionJD m = andthen (payloadSubmitSolutionJD m) (\<lambda>p. encodeFrame JD_EXT MSG_SUBMIT_SOLUTION_JD p False)"

section \<open>The messages are delivered\<close>

interpretation allocate_mining_job_token: message payloadAllocateMiningJobToken readAllocateMiningJobToken ok_allocate_mining_job_token
  encodeAllocateMiningJobToken decodeAllocateMiningJobToken MSG_ALLOCATE_JOB_TOKEN False
  by unfold_locales (auto simp: message_defs fun_eq_iff intro!: message_intros)

interpretation allocate_mining_job_token_success: message payloadAllocateMiningJobTokenSuccess readAllocateMiningJobTokenSuccess ok_allocate_mining_job_token_success
  encodeAllocateMiningJobTokenSuccess decodeAllocateMiningJobTokenSuccess MSG_ALLOCATE_JOB_TOKEN_SUCCESS False
  by unfold_locales (auto simp: message_defs fun_eq_iff intro!: message_intros)

interpretation declare_mining_job: message payloadDeclareMiningJob readDeclareMiningJob ok_declare_mining_job
  encodeDeclareMiningJob decodeDeclareMiningJob MSG_DECLARE_MINING_JOB False
  by unfold_locales (auto simp: message_defs fun_eq_iff intro!: message_intros sized_fields [where k = 2097122] sized_wide)


end
