(* ===== verification/Sv2_Tp_Messages.thy ===== *)
theory Sv2_Tp_Messages
  imports Sv2_Codec
begin

text \<open>
  The template distribution messages of Stratum V2 (\<^verbatim>\<open>sv2/lib/messages/tp.ts\<close>), as in
  \<open>Sv2_Common\<close>. A transaction list may exceed the frame limit, so \<open>RequestTransactionDataSuccess\<close>
  is delivered when its payload fits.
\<close>

section \<open>Message types\<close>

definition TP_EXT :: int where [message_defs]: "TP_EXT = 0"
definition MSG_COINBASE_OUTPUT_DATA_SIZE :: int where [message_defs]: "MSG_COINBASE_OUTPUT_DATA_SIZE = 0x70"
definition MSG_NEW_TEMPLATE :: int where [message_defs]: "MSG_NEW_TEMPLATE = 0x71"
definition MSG_SET_NEW_PREV_HASH_TP :: int where [message_defs]: "MSG_SET_NEW_PREV_HASH_TP = 0x72"
definition MSG_REQUEST_TX_DATA :: int where [message_defs]: "MSG_REQUEST_TX_DATA = 0x73"
definition MSG_REQUEST_TX_DATA_SUCCESS :: int where [message_defs]: "MSG_REQUEST_TX_DATA_SUCCESS = 0x74"
definition MSG_REQUEST_TX_DATA_ERROR :: int where [message_defs]: "MSG_REQUEST_TX_DATA_ERROR = 0x75"
definition MSG_SUBMIT_SOLUTION_TP :: int where [message_defs]: "MSG_SUBMIT_SOLUTION_TP = 0x76"

section \<open>Messages\<close>

record coinbase_output_data_size =
  cods_coinbaseOutputMaxAdditionalSize :: int

definition payloadCoinbaseOutputDataSize :: "coinbase_output_data_size \<Rightarrow> bytes res" where [message_defs]:
  "payloadCoinbaseOutputDataSize m = wr [
     w_u32 (to_uint32 (cods_coinbaseOutputMaxAdditionalSize m))]"

definition encodeCoinbaseOutputDataSize :: "coinbase_output_data_size \<Rightarrow> bytes res" where [message_defs]:
  "encodeCoinbaseOutputDataSize m = andthen (payloadCoinbaseOutputDataSize m) (\<lambda>p. encodeFrame TP_EXT MSG_COINBASE_OUTPUT_DATA_SIZE p False)"

definition readCoinbaseOutputDataSize :: "coinbase_output_data_size reader" where [message_defs]:
  "readCoinbaseOutputDataSize =
     rd r_u32 (\<lambda>coinbaseOutputMaxAdditionalSize.
     rd_return \<lparr>
       cods_coinbaseOutputMaxAdditionalSize = coinbaseOutputMaxAdditionalSize\<rparr>)"

definition decodeCoinbaseOutputDataSize :: "bytes \<Rightarrow> coinbase_output_data_size res" where [message_defs]:
  "decodeCoinbaseOutputDataSize payload = decode_payload readCoinbaseOutputDataSize payload"

definition ok_coinbase_output_data_size :: "coinbase_output_data_size \<Rightarrow> bool" where [message_defs]:
  "ok_coinbase_output_data_size m \<longleftrightarrow>
     ok_u32 (cods_coinbaseOutputMaxAdditionalSize m)"

record new_template =
  nt_templateId :: int
  nt_futureTemplate :: bool
  nt_version :: int
  nt_coinbaseTxVersion :: int
  nt_coinbasePrefix :: bytes
  nt_coinbaseTxInputSequence :: int
  nt_coinbaseTxValueRemaining :: int
  nt_coinbaseTxOutputsCount :: int
  nt_coinbaseTxOutputs :: bytes
  nt_coinbaseTxLocktime :: int
  nt_merklePath :: "bytes list"

definition payloadNewTemplate :: "new_template \<Rightarrow> bytes res" where [message_defs]:
  "payloadNewTemplate m = wr [
     w_u64 (nt_templateId m), w_bool (nt_futureTemplate m), w_u32 (to_uint32 (nt_version m)),
     w_u32 (to_uint32 (nt_coinbaseTxVersion m)), w_b0_255 (nt_coinbasePrefix m),
     w_u32 (to_uint32 (nt_coinbaseTxInputSequence m)), w_u64 (nt_coinbaseTxValueRemaining m),
     w_u32 (to_uint32 (nt_coinbaseTxOutputsCount m)), w_b0_64k (nt_coinbaseTxOutputs m),
     w_u32 (to_uint32 (nt_coinbaseTxLocktime m)), w_seq0_255 w_u256 (nt_merklePath m)]"

definition encodeNewTemplate :: "new_template \<Rightarrow> bytes res" where [message_defs]:
  "encodeNewTemplate m = andthen (payloadNewTemplate m) (\<lambda>p. encodeFrame TP_EXT MSG_NEW_TEMPLATE p False)"

definition readNewTemplate :: "new_template reader" where [message_defs]:
  "readNewTemplate =
     rd r_u64 (\<lambda>templateId. rd r_bool (\<lambda>futureTemplate. rd r_u32 (\<lambda>vers.
     rd r_u32 (\<lambda>coinbaseTxVersion. rd r_b0_255 (\<lambda>coinbasePrefix.
     rd r_u32 (\<lambda>coinbaseTxInputSequence. rd r_u64 (\<lambda>coinbaseTxValueRemaining.
     rd r_u32 (\<lambda>coinbaseTxOutputsCount. rd r_b0_64k (\<lambda>coinbaseTxOutputs.
     rd r_u32 (\<lambda>coinbaseTxLocktime. rd (r_seq0_255 r_u256) (\<lambda>merklePath.
     rd_return \<lparr>
       nt_templateId = templateId, nt_futureTemplate = futureTemplate, nt_version = vers,
       nt_coinbaseTxVersion = coinbaseTxVersion, nt_coinbasePrefix = coinbasePrefix,
       nt_coinbaseTxInputSequence = coinbaseTxInputSequence,
       nt_coinbaseTxValueRemaining = coinbaseTxValueRemaining,
       nt_coinbaseTxOutputsCount = coinbaseTxOutputsCount, nt_coinbaseTxOutputs = coinbaseTxOutputs,
       nt_coinbaseTxLocktime = coinbaseTxLocktime, nt_merklePath = merklePath\<rparr>)))))))))))"

definition decodeNewTemplate :: "bytes \<Rightarrow> new_template res" where [message_defs]:
  "decodeNewTemplate payload = decode_payload readNewTemplate payload"

definition ok_new_template :: "new_template \<Rightarrow> bool" where [message_defs]:
  "ok_new_template m \<longleftrightarrow>
     ok_u64 (nt_templateId m) \<and> ok_u32 (nt_version m) \<and> ok_u32 (nt_coinbaseTxVersion m) \<and>
     ok_b0_255 (nt_coinbasePrefix m) \<and> ok_u32 (nt_coinbaseTxInputSequence m) \<and>
     ok_u64 (nt_coinbaseTxValueRemaining m) \<and> ok_u32 (nt_coinbaseTxOutputsCount m) \<and>
     ok_b0_64k (nt_coinbaseTxOutputs m) \<and> ok_u32 (nt_coinbaseTxLocktime m) \<and>
     length (nt_merklePath m) \<le> 255 \<and> (\<forall>h \<in> set (nt_merklePath m). ok_u256 h)"

record set_new_prev_hash_tp =
  snpt_templateId :: int
  snpt_prevHash :: bytes
  snpt_headerTimestamp :: int
  snpt_nbits :: int
  snpt_target :: bytes

definition payloadSetNewPrevHashTP :: "set_new_prev_hash_tp \<Rightarrow> bytes res" where [message_defs]:
  "payloadSetNewPrevHashTP m = wr [
     w_u64 (snpt_templateId m), w_u256 (snpt_prevHash m),
     w_u32 (to_uint32 (snpt_headerTimestamp m)), w_u32 (to_uint32 (snpt_nbits m)),
     w_u256 (snpt_target m)]"

definition encodeSetNewPrevHashTP :: "set_new_prev_hash_tp \<Rightarrow> bytes res" where [message_defs]:
  "encodeSetNewPrevHashTP m = andthen (payloadSetNewPrevHashTP m) (\<lambda>p. encodeFrame TP_EXT MSG_SET_NEW_PREV_HASH_TP p False)"

definition readSetNewPrevHashTP :: "set_new_prev_hash_tp reader" where [message_defs]:
  "readSetNewPrevHashTP =
     rd r_u64 (\<lambda>templateId. rd r_u256 (\<lambda>prevHash. rd r_u32 (\<lambda>headerTimestamp.
     rd r_u32 (\<lambda>nbits. rd r_u256 (\<lambda>tgt.
     rd_return \<lparr>
       snpt_templateId = templateId, snpt_prevHash = prevHash,
       snpt_headerTimestamp = headerTimestamp, snpt_nbits = nbits, snpt_target = tgt\<rparr>)))))"

definition decodeSetNewPrevHashTP :: "bytes \<Rightarrow> set_new_prev_hash_tp res" where [message_defs]:
  "decodeSetNewPrevHashTP payload = decode_payload readSetNewPrevHashTP payload"

definition ok_set_new_prev_hash_tp :: "set_new_prev_hash_tp \<Rightarrow> bool" where [message_defs]:
  "ok_set_new_prev_hash_tp m \<longleftrightarrow>
     ok_u64 (snpt_templateId m) \<and> ok_u256 (snpt_prevHash m) \<and>
     ok_u32 (snpt_headerTimestamp m) \<and> ok_u32 (snpt_nbits m) \<and> ok_u256 (snpt_target m)"

record request_transaction_data =
  rtd_templateId :: int

definition payloadRequestTransactionData :: "request_transaction_data \<Rightarrow> bytes res" where [message_defs]:
  "payloadRequestTransactionData m = wr [
     w_u64 (rtd_templateId m)]"

definition encodeRequestTransactionData :: "request_transaction_data \<Rightarrow> bytes res" where [message_defs]:
  "encodeRequestTransactionData m = andthen (payloadRequestTransactionData m) (\<lambda>p. encodeFrame TP_EXT MSG_REQUEST_TX_DATA p False)"

definition readRequestTransactionData :: "request_transaction_data reader" where [message_defs]:
  "readRequestTransactionData =
     rd r_u64 (\<lambda>templateId.
     rd_return \<lparr>
       rtd_templateId = templateId\<rparr>)"

definition decodeRequestTransactionData :: "bytes \<Rightarrow> request_transaction_data res" where [message_defs]:
  "decodeRequestTransactionData payload = decode_payload readRequestTransactionData payload"

definition ok_request_transaction_data :: "request_transaction_data \<Rightarrow> bool" where [message_defs]:
  "ok_request_transaction_data m \<longleftrightarrow>
     ok_u64 (rtd_templateId m)"

record request_transaction_data_success =
  rtds_templateId :: int
  rtds_excessData :: bytes
  rtds_transactionList :: "bytes list"

definition payloadRequestTransactionDataSuccess :: "request_transaction_data_success \<Rightarrow> bytes res" where [message_defs]:
  "payloadRequestTransactionDataSuccess m = wr [
     w_u64 (rtds_templateId m), w_b0_64k (rtds_excessData m),
     w_seq0_64k w_b0_16m (rtds_transactionList m)]"

definition encodeRequestTransactionDataSuccess :: "request_transaction_data_success \<Rightarrow> bytes res" where [message_defs]:
  "encodeRequestTransactionDataSuccess m = andthen (payloadRequestTransactionDataSuccess m) (\<lambda>p. encodeFrame TP_EXT MSG_REQUEST_TX_DATA_SUCCESS p False)"

definition readRequestTransactionDataSuccess :: "request_transaction_data_success reader" where [message_defs]:
  "readRequestTransactionDataSuccess =
     rd r_u64 (\<lambda>templateId. rd r_b0_64k (\<lambda>excessData.
     rd (r_seq0_64k r_b0_16m) (\<lambda>transactionList.
     rd_return \<lparr>
       rtds_templateId = templateId, rtds_excessData = excessData,
       rtds_transactionList = transactionList\<rparr>)))"

definition decodeRequestTransactionDataSuccess :: "bytes \<Rightarrow> request_transaction_data_success res" where [message_defs]:
  "decodeRequestTransactionDataSuccess payload = decode_payload readRequestTransactionDataSuccess payload"

definition ok_request_transaction_data_success :: "request_transaction_data_success \<Rightarrow> bool" where [message_defs]:
  "ok_request_transaction_data_success m \<longleftrightarrow>
     ok_u64 (rtds_templateId m) \<and> ok_b0_64k (rtds_excessData m) \<and>
     length (rtds_transactionList m) \<le> 0xffff \<and> (\<forall>h \<in> set (rtds_transactionList m). ok_b0_16m h) \<and>
     sized (payloadRequestTransactionDataSuccess m) SV2_MAX_PAYLOAD_LEN"

record submit_solution_tp =
  sst_templateId :: int
  sst_version :: int
  sst_headerTimestamp :: int
  sst_headerNonce :: int
  sst_coinbaseTx :: bytes

definition payloadSubmitSolutionTP :: "submit_solution_tp \<Rightarrow> bytes res" where [message_defs]:
  "payloadSubmitSolutionTP m = wr [
     w_u64 (sst_templateId m), w_u32 (to_uint32 (sst_version m)),
     w_u32 (to_uint32 (sst_headerTimestamp m)), w_u32 (to_uint32 (sst_headerNonce m)),
     w_b0_64k (sst_coinbaseTx m)]"

definition encodeSubmitSolutionTP :: "submit_solution_tp \<Rightarrow> bytes res" where [message_defs]:
  "encodeSubmitSolutionTP m = andthen (payloadSubmitSolutionTP m) (\<lambda>p. encodeFrame TP_EXT MSG_SUBMIT_SOLUTION_TP p False)"

definition readSubmitSolutionTP :: "submit_solution_tp reader" where [message_defs]:
  "readSubmitSolutionTP =
     rd r_u64 (\<lambda>templateId. rd r_u32 (\<lambda>vers. rd r_u32 (\<lambda>headerTimestamp.
     rd r_u32 (\<lambda>headerNonce. rd r_b0_64k (\<lambda>coinbaseTx.
     rd_return \<lparr>
       sst_templateId = templateId, sst_version = vers, sst_headerTimestamp = headerTimestamp,
       sst_headerNonce = headerNonce, sst_coinbaseTx = coinbaseTx\<rparr>)))))"

definition decodeSubmitSolutionTP :: "bytes \<Rightarrow> submit_solution_tp res" where [message_defs]:
  "decodeSubmitSolutionTP payload = decode_payload readSubmitSolutionTP payload"

definition ok_submit_solution_tp :: "submit_solution_tp \<Rightarrow> bool" where [message_defs]:
  "ok_submit_solution_tp m \<longleftrightarrow>
     ok_u64 (sst_templateId m) \<and> ok_u32 (sst_version m) \<and> ok_u32 (sst_headerTimestamp m) \<and>
     ok_u32 (sst_headerNonce m) \<and> ok_b0_64k (sst_coinbaseTx m)"

section \<open>The messages are delivered\<close>

interpretation coinbase_output_data_size: message payloadCoinbaseOutputDataSize readCoinbaseOutputDataSize ok_coinbase_output_data_size
  encodeCoinbaseOutputDataSize decodeCoinbaseOutputDataSize MSG_COINBASE_OUTPUT_DATA_SIZE False
  by unfold_locales (auto simp: message_defs fun_eq_iff intro!: message_intros)

interpretation new_template: message payloadNewTemplate readNewTemplate ok_new_template
  encodeNewTemplate decodeNewTemplate MSG_NEW_TEMPLATE False
  by unfold_locales (auto simp: message_defs fun_eq_iff intro!: message_intros)

interpretation set_new_prev_hash_tp: message payloadSetNewPrevHashTP readSetNewPrevHashTP ok_set_new_prev_hash_tp
  encodeSetNewPrevHashTP decodeSetNewPrevHashTP MSG_SET_NEW_PREV_HASH_TP False
  by unfold_locales (auto simp: message_defs fun_eq_iff intro!: message_intros)

interpretation request_transaction_data: message payloadRequestTransactionData readRequestTransactionData ok_request_transaction_data
  encodeRequestTransactionData decodeRequestTransactionData MSG_REQUEST_TX_DATA False
  by unfold_locales (auto simp: message_defs fun_eq_iff intro!: message_intros)

interpretation request_transaction_data_success: message payloadRequestTransactionDataSuccess readRequestTransactionDataSuccess ok_request_transaction_data_success
  encodeRequestTransactionDataSuccess decodeRequestTransactionDataSuccess MSG_REQUEST_TX_DATA_SUCCESS False
  by unfold_locales (auto simp: message_defs fun_eq_iff intro!: message_intros)

interpretation submit_solution_tp: message payloadSubmitSolutionTP readSubmitSolutionTP ok_submit_solution_tp
  encodeSubmitSolutionTP decodeSubmitSolutionTP MSG_SUBMIT_SOLUTION_TP False
  by unfold_locales (auto simp: message_defs fun_eq_iff intro!: message_intros)


end
