(* ===== verification/Sv2_Mining_Messages.thy ===== *)
theory Sv2_Mining_Messages
  imports Sv2_Codec
begin

text \<open>
  The mining protocol messages of Stratum V2 (\<^verbatim>\<open>sv2/lib/messages/mining.ts\<close>), as in
  \<open>Sv2_Common\<close>.
\<close>

section \<open>Message types\<close>

definition MINING_EXT :: int where [message_defs]: "MINING_EXT = 0"
definition MSG_OPEN_STD_CHANNEL :: int where [message_defs]: "MSG_OPEN_STD_CHANNEL = 0x10"
definition MSG_OPEN_STD_CHANNEL_SUCCESS :: int where [message_defs]: "MSG_OPEN_STD_CHANNEL_SUCCESS = 0x11"
definition MSG_OPEN_STD_CHANNEL_ERROR :: int where [message_defs]: "MSG_OPEN_STD_CHANNEL_ERROR = 0x12"
definition MSG_OPEN_EXT_CHANNEL :: int where [message_defs]: "MSG_OPEN_EXT_CHANNEL = 0x13"
definition MSG_OPEN_EXT_CHANNEL_SUCCESS :: int where [message_defs]: "MSG_OPEN_EXT_CHANNEL_SUCCESS = 0x14"
definition MSG_OPEN_EXT_CHANNEL_ERROR :: int where [message_defs]: "MSG_OPEN_EXT_CHANNEL_ERROR = 0x15"
definition MSG_NEW_MINING_JOB :: int where [message_defs]: "MSG_NEW_MINING_JOB = 0x16"
definition MSG_NEW_EXT_MINING_JOB :: int where [message_defs]: "MSG_NEW_EXT_MINING_JOB = 0x17"
definition MSG_SET_NEW_PREV_HASH :: int where [message_defs]: "MSG_SET_NEW_PREV_HASH = 0x18"
definition MSG_SET_TARGET :: int where [message_defs]: "MSG_SET_TARGET = 0x19"
definition MSG_UPDATE_CHANNEL :: int where [message_defs]: "MSG_UPDATE_CHANNEL = 0x1a"
definition MSG_UPDATE_CHANNEL_ERROR :: int where [message_defs]: "MSG_UPDATE_CHANNEL_ERROR = 0x1b"
definition MSG_CLOSE_CHANNEL :: int where [message_defs]: "MSG_CLOSE_CHANNEL = 0x1c"
definition MSG_SET_EXTRANONCE_PREFIX :: int where [message_defs]: "MSG_SET_EXTRANONCE_PREFIX = 0x1d"
definition MSG_SUBMIT_SHARES_STANDARD :: int where [message_defs]: "MSG_SUBMIT_SHARES_STANDARD = 0x1e"
definition MSG_SUBMIT_SHARES_EXTENDED :: int where [message_defs]: "MSG_SUBMIT_SHARES_EXTENDED = 0x1f"
definition MSG_SUBMIT_SHARES_SUCCESS :: int where [message_defs]: "MSG_SUBMIT_SHARES_SUCCESS = 0x20"
definition MSG_SUBMIT_SHARES_ERROR :: int where [message_defs]: "MSG_SUBMIT_SHARES_ERROR = 0x21"
definition MSG_SET_CUSTOM_MINING_JOB :: int where [message_defs]: "MSG_SET_CUSTOM_MINING_JOB = 0x70"
definition MSG_SET_CUSTOM_MINING_JOB_SUCCESS :: int where [message_defs]: "MSG_SET_CUSTOM_MINING_JOB_SUCCESS = 0x71"
definition MSG_SET_CUSTOM_MINING_JOB_ERROR :: int where [message_defs]: "MSG_SET_CUSTOM_MINING_JOB_ERROR = 0x72"

section \<open>Optional fields\<close>

definition encodeOptionU32 :: "int option \<Rightarrow> bytes res" where
  "encodeOptionU32 v = (case v of None \<Rightarrow> w_u8 0 | Some n \<Rightarrow> wr [w_u8 1, w_u32 (to_uint32 n)])"

definition decodeOptionU32 :: "int option reader" where
  "decodeOptionU32 = rd r_u8 (\<lambda>tag. if tag = 0 then rd_return None else rd r_u32 (\<lambda>n. rd_return (Some n)))"

definition ok_optionU32 :: "int option \<Rightarrow> bool" where
  "ok_optionU32 v \<longleftrightarrow> (case v of None \<Rightarrow> True | Some n \<Rightarrow> ok_u32 n)"

interpretation optionU32: wire encodeOptionU32 decodeOptionU32 ok_optionU32
proof
  fix v assume v: "ok_optionU32 v"
  show "codes (encodeOptionU32 v) decodeOptionU32 v"
  proof (cases v)
    case None
    have "codes (w_u8 0) r_u8 0" by (rule u8.roundtrip) (simp add: ok_uint_def)
    then show ?thesis by (auto simp: None codes_def encodeOptionU32_def decodeOptionU32_def rd_def rd_return_def)
  next
    case (Some n)
    have "codes (wr [w_u8 1, w_u32 (to_uint32 n)])
      (rd r_u8 (\<lambda>tag. if tag = 0 then rd_return None else rd r_u32 (\<lambda>n. rd_return (Some n)))) (Some n)"
      using v Some by (intro u8.field) (auto simp: ok_optionU32_def intro!: u32.field codes_Nil)
    then show ?thesis by (simp add: Some encodeOptionU32_def decodeOptionU32_def)
  qed
next
  show "stable decodeOptionU32"
    unfolding decodeOptionU32_def by (auto intro!: stable_intros u8.stable u32.stable split: if_splits)
qed

lemma sized_optionU32 [simp]: "sized (encodeOptionU32 v) 65537"
  by (auto simp: sized_def encodeOptionU32_def w_u8_def w_u32_def wr.simps split: option.splits)

lemmas message_intros = Sv2_Codec.message_intros optionU32.field optionU32.stable

section \<open>Messages\<close>

record open_standard_mining_channel =
  osc_requestId :: int
  osc_userIdentity :: ustring
  osc_nominalHashRate :: jsnum
  osc_maxTarget :: bytes

definition payloadOpenStandardMiningChannel :: "open_standard_mining_channel \<Rightarrow> bytes res" where [message_defs]:
  "payloadOpenStandardMiningChannel m = wr [
     w_u32 (osc_requestId m), w_str0_255 (osc_userIdentity m), writeF32 (osc_nominalHashRate m),
     w_u256 (osc_maxTarget m)]"

definition encodeOpenStandardMiningChannel :: "open_standard_mining_channel \<Rightarrow> bytes res" where [message_defs]:
  "encodeOpenStandardMiningChannel m = andthen (payloadOpenStandardMiningChannel m) (\<lambda>p. encodeFrame MINING_EXT MSG_OPEN_STD_CHANNEL p False)"

definition readOpenStandardMiningChannel :: "open_standard_mining_channel reader" where [message_defs]:
  "readOpenStandardMiningChannel =
     rd r_u32 (\<lambda>requestId. rd r_str0_255 (\<lambda>userIdentity. rd readF32 (\<lambda>nominalHashRate.
     rd r_u256 (\<lambda>maxTarget.
     rd_return \<lparr>
       osc_requestId = requestId, osc_userIdentity = userIdentity,
       osc_nominalHashRate = nominalHashRate, osc_maxTarget = maxTarget\<rparr>))))"

definition decodeOpenStandardMiningChannel :: "bytes \<Rightarrow> open_standard_mining_channel res" where [message_defs]:
  "decodeOpenStandardMiningChannel payload = decode_payload readOpenStandardMiningChannel payload"

definition ok_open_standard_mining_channel :: "open_standard_mining_channel \<Rightarrow> bool" where [message_defs]:
  "ok_open_standard_mining_channel m \<longleftrightarrow>
     ok_u32 (osc_requestId m) \<and> ok_str (osc_userIdentity m) \<and>
     ok_f32 (osc_nominalHashRate m) \<and> ok_u256 (osc_maxTarget m)"

record open_standard_mining_channel_success =
  oscs_requestId :: int
  oscs_channelId :: int
  oscs_target :: bytes
  oscs_extranoncePrefix :: bytes
  oscs_groupChannelId :: int

definition payloadOpenStandardMiningChannelSuccess :: "open_standard_mining_channel_success \<Rightarrow> bytes res" where [message_defs]:
  "payloadOpenStandardMiningChannelSuccess m = wr [
     w_u32 (oscs_requestId m), w_u32 (oscs_channelId m), w_u256 (oscs_target m),
     w_b0_255 (oscs_extranoncePrefix m), w_u32 (oscs_groupChannelId m)]"

definition encodeOpenStandardMiningChannelSuccess :: "open_standard_mining_channel_success \<Rightarrow> bytes res" where [message_defs]:
  "encodeOpenStandardMiningChannelSuccess m = andthen (payloadOpenStandardMiningChannelSuccess m) (\<lambda>p. encodeFrame MINING_EXT MSG_OPEN_STD_CHANNEL_SUCCESS p False)"

definition readOpenStandardMiningChannelSuccess :: "open_standard_mining_channel_success reader" where [message_defs]:
  "readOpenStandardMiningChannelSuccess =
     rd r_u32 (\<lambda>requestId. rd r_u32 (\<lambda>channelId. rd r_u256 (\<lambda>tgt.
     rd r_b0_255 (\<lambda>extranoncePrefix. rd r_u32 (\<lambda>groupChannelId.
     rd_return \<lparr>
       oscs_requestId = requestId, oscs_channelId = channelId, oscs_target = tgt,
       oscs_extranoncePrefix = extranoncePrefix, oscs_groupChannelId = groupChannelId\<rparr>)))))"

definition decodeOpenStandardMiningChannelSuccess :: "bytes \<Rightarrow> open_standard_mining_channel_success res" where [message_defs]:
  "decodeOpenStandardMiningChannelSuccess payload = decode_payload readOpenStandardMiningChannelSuccess payload"

definition ok_open_standard_mining_channel_success :: "open_standard_mining_channel_success \<Rightarrow> bool" where [message_defs]:
  "ok_open_standard_mining_channel_success m \<longleftrightarrow>
     ok_u32 (oscs_requestId m) \<and> ok_u32 (oscs_channelId m) \<and> ok_u256 (oscs_target m) \<and>
     ok_b0_255 (oscs_extranoncePrefix m) \<and> ok_u32 (oscs_groupChannelId m)"

record open_extended_mining_channel =
  oec_requestId :: int
  oec_userIdentity :: ustring
  oec_nominalHashRate :: jsnum
  oec_maxTarget :: bytes
  oec_minExtranonceSize :: int

definition payloadOpenExtendedMiningChannel :: "open_extended_mining_channel \<Rightarrow> bytes res" where [message_defs]:
  "payloadOpenExtendedMiningChannel m = wr [
     w_u32 (oec_requestId m), w_str0_255 (oec_userIdentity m), writeF32 (oec_nominalHashRate m),
     w_u256 (oec_maxTarget m), w_u16 (oec_minExtranonceSize m)]"

definition encodeOpenExtendedMiningChannel :: "open_extended_mining_channel \<Rightarrow> bytes res" where [message_defs]:
  "encodeOpenExtendedMiningChannel m = andthen (payloadOpenExtendedMiningChannel m) (\<lambda>p. encodeFrame MINING_EXT MSG_OPEN_EXT_CHANNEL p False)"

definition readOpenExtendedMiningChannel :: "open_extended_mining_channel reader" where [message_defs]:
  "readOpenExtendedMiningChannel =
     rd r_u32 (\<lambda>requestId. rd r_str0_255 (\<lambda>userIdentity. rd readF32 (\<lambda>nominalHashRate.
     rd r_u256 (\<lambda>maxTarget. rd r_u16 (\<lambda>minExtranonceSize.
     rd_return \<lparr>
       oec_requestId = requestId, oec_userIdentity = userIdentity,
       oec_nominalHashRate = nominalHashRate, oec_maxTarget = maxTarget,
       oec_minExtranonceSize = minExtranonceSize\<rparr>)))))"

definition decodeOpenExtendedMiningChannel :: "bytes \<Rightarrow> open_extended_mining_channel res" where [message_defs]:
  "decodeOpenExtendedMiningChannel payload = decode_payload readOpenExtendedMiningChannel payload"

definition ok_open_extended_mining_channel :: "open_extended_mining_channel \<Rightarrow> bool" where [message_defs]:
  "ok_open_extended_mining_channel m \<longleftrightarrow>
     ok_u32 (oec_requestId m) \<and> ok_str (oec_userIdentity m) \<and>
     ok_f32 (oec_nominalHashRate m) \<and> ok_u256 (oec_maxTarget m) \<and>
     ok_u16 (oec_minExtranonceSize m)"

record open_extended_mining_channel_success =
  oecs_requestId :: int
  oecs_channelId :: int
  oecs_target :: bytes
  oecs_extranonceSize :: int
  oecs_extranoncePrefix :: bytes

definition payloadOpenExtendedMiningChannelSuccess :: "open_extended_mining_channel_success \<Rightarrow> bytes res" where [message_defs]:
  "payloadOpenExtendedMiningChannelSuccess m = wr [
     w_u32 (oecs_requestId m), w_u32 (oecs_channelId m), w_u256 (oecs_target m),
     w_u16 (oecs_extranonceSize m), w_b0_255 (oecs_extranoncePrefix m)]"

definition encodeOpenExtendedMiningChannelSuccess :: "open_extended_mining_channel_success \<Rightarrow> bytes res" where [message_defs]:
  "encodeOpenExtendedMiningChannelSuccess m = andthen (payloadOpenExtendedMiningChannelSuccess m) (\<lambda>p. encodeFrame MINING_EXT MSG_OPEN_EXT_CHANNEL_SUCCESS p False)"

definition readOpenExtendedMiningChannelSuccess :: "open_extended_mining_channel_success reader" where [message_defs]:
  "readOpenExtendedMiningChannelSuccess =
     rd r_u32 (\<lambda>requestId. rd r_u32 (\<lambda>channelId. rd r_u256 (\<lambda>tgt.
     rd r_u16 (\<lambda>extranonceSize. rd r_b0_255 (\<lambda>extranoncePrefix.
     rd_return \<lparr>
       oecs_requestId = requestId, oecs_channelId = channelId, oecs_target = tgt,
       oecs_extranonceSize = extranonceSize, oecs_extranoncePrefix = extranoncePrefix\<rparr>)))))"

definition decodeOpenExtendedMiningChannelSuccess :: "bytes \<Rightarrow> open_extended_mining_channel_success res" where [message_defs]:
  "decodeOpenExtendedMiningChannelSuccess payload = decode_payload readOpenExtendedMiningChannelSuccess payload"

definition ok_open_extended_mining_channel_success :: "open_extended_mining_channel_success \<Rightarrow> bool" where [message_defs]:
  "ok_open_extended_mining_channel_success m \<longleftrightarrow>
     ok_u32 (oecs_requestId m) \<and> ok_u32 (oecs_channelId m) \<and> ok_u256 (oecs_target m) \<and>
     ok_u16 (oecs_extranonceSize m) \<and> ok_b0_255 (oecs_extranoncePrefix m)"

record open_channel_error =
  oce_requestId :: int
  oce_errorCode :: ustring

definition payloadOpenChannelError :: "open_channel_error \<Rightarrow> bytes res" where [message_defs]:
  "payloadOpenChannelError m = wr [
     w_u32 (oce_requestId m), w_str0_255 (oce_errorCode m)]"

definition encodeOpenChannelError :: "int \<Rightarrow> open_channel_error \<Rightarrow> bytes res" where [message_defs]:
  "encodeOpenChannelError msgType m = andthen (payloadOpenChannelError m) (\<lambda>p. encodeFrame MINING_EXT msgType p False)"

record new_mining_job =
  nmj_channelId :: int
  nmj_jobId :: int
  nmj_minNtime :: "int option"
  nmj_version :: int
  nmj_merkleRoot :: bytes

definition payloadNewMiningJob :: "new_mining_job \<Rightarrow> bytes res" where [message_defs]:
  "payloadNewMiningJob m = wr [
     w_u32 (nmj_channelId m), w_u32 (nmj_jobId m), encodeOptionU32 (nmj_minNtime m),
     w_u32 (to_uint32 (nmj_version m)), w_u256 (nmj_merkleRoot m)]"

definition encodeNewMiningJob :: "new_mining_job \<Rightarrow> bytes res" where [message_defs]:
  "encodeNewMiningJob m = andthen (payloadNewMiningJob m) (\<lambda>p. encodeFrame MINING_EXT MSG_NEW_MINING_JOB p True)"

definition readNewMiningJob :: "new_mining_job reader" where [message_defs]:
  "readNewMiningJob =
     rd r_u32 (\<lambda>channelId. rd r_u32 (\<lambda>jobId. rd decodeOptionU32 (\<lambda>minNtime.
     rd r_u32 (\<lambda>vers. rd r_u256 (\<lambda>merkleRoot.
     rd_return \<lparr>
       nmj_channelId = channelId, nmj_jobId = jobId, nmj_minNtime = minNtime, nmj_version = vers,
       nmj_merkleRoot = merkleRoot\<rparr>)))))"

definition decodeNewMiningJob :: "bytes \<Rightarrow> new_mining_job res" where [message_defs]:
  "decodeNewMiningJob payload = decode_payload readNewMiningJob payload"

definition ok_new_mining_job :: "new_mining_job \<Rightarrow> bool" where [message_defs]:
  "ok_new_mining_job m \<longleftrightarrow>
     ok_u32 (nmj_channelId m) \<and> ok_u32 (nmj_jobId m) \<and> ok_optionU32 (nmj_minNtime m) \<and>
     ok_u32 (nmj_version m) \<and> ok_u256 (nmj_merkleRoot m)"

record new_extended_mining_job =
  nej_channelId :: int
  nej_jobId :: int
  nej_minNtime :: "int option"
  nej_version :: int
  nej_versionRollingAllowed :: bool
  nej_merklePath :: "bytes list"
  nej_coinbaseTxPrefix :: bytes
  nej_coinbaseTxSuffix :: bytes

definition payloadNewExtendedMiningJob :: "new_extended_mining_job \<Rightarrow> bytes res" where [message_defs]:
  "payloadNewExtendedMiningJob m = wr [
     w_u32 (nej_channelId m), w_u32 (nej_jobId m), encodeOptionU32 (nej_minNtime m),
     w_u32 (to_uint32 (nej_version m)), w_bool (nej_versionRollingAllowed m),
     w_seq0_255 w_u256 (nej_merklePath m), w_b0_64k (nej_coinbaseTxPrefix m),
     w_b0_64k (nej_coinbaseTxSuffix m)]"

definition encodeNewExtendedMiningJob :: "new_extended_mining_job \<Rightarrow> bytes res" where [message_defs]:
  "encodeNewExtendedMiningJob m = andthen (payloadNewExtendedMiningJob m) (\<lambda>p. encodeFrame MINING_EXT MSG_NEW_EXT_MINING_JOB p True)"

definition readNewExtendedMiningJob :: "new_extended_mining_job reader" where [message_defs]:
  "readNewExtendedMiningJob =
     rd r_u32 (\<lambda>channelId. rd r_u32 (\<lambda>jobId. rd decodeOptionU32 (\<lambda>minNtime.
     rd r_u32 (\<lambda>vers. rd r_bool (\<lambda>versionRollingAllowed.
     rd (r_seq0_255 r_u256) (\<lambda>merklePath. rd r_b0_64k (\<lambda>coinbaseTxPrefix.
     rd r_b0_64k (\<lambda>coinbaseTxSuffix.
     rd_return \<lparr>
       nej_channelId = channelId, nej_jobId = jobId, nej_minNtime = minNtime, nej_version = vers,
       nej_versionRollingAllowed = versionRollingAllowed, nej_merklePath = merklePath,
       nej_coinbaseTxPrefix = coinbaseTxPrefix, nej_coinbaseTxSuffix = coinbaseTxSuffix\<rparr>))))))))"

definition decodeNewExtendedMiningJob :: "bytes \<Rightarrow> new_extended_mining_job res" where [message_defs]:
  "decodeNewExtendedMiningJob payload = decode_payload readNewExtendedMiningJob payload"

definition ok_new_extended_mining_job :: "new_extended_mining_job \<Rightarrow> bool" where [message_defs]:
  "ok_new_extended_mining_job m \<longleftrightarrow>
     ok_u32 (nej_channelId m) \<and> ok_u32 (nej_jobId m) \<and> ok_optionU32 (nej_minNtime m) \<and>
     ok_u32 (nej_version m) \<and>
     length (nej_merklePath m) \<le> 255 \<and> (\<forall>h \<in> set (nej_merklePath m). ok_u256 h) \<and>
     ok_b0_64k (nej_coinbaseTxPrefix m) \<and> ok_b0_64k (nej_coinbaseTxSuffix m)"

record set_new_prev_hash =
  snp_channelId :: int
  snp_jobId :: int
  snp_prevHash :: bytes
  snp_minNtime :: int
  snp_nbits :: int

definition payloadSetNewPrevHash :: "set_new_prev_hash \<Rightarrow> bytes res" where [message_defs]:
  "payloadSetNewPrevHash m = wr [
     w_u32 (snp_channelId m), w_u32 (snp_jobId m), w_u256 (snp_prevHash m),
     w_u32 (to_uint32 (snp_minNtime m)), w_u32 (to_uint32 (snp_nbits m))]"

definition encodeSetNewPrevHash :: "set_new_prev_hash \<Rightarrow> bytes res" where [message_defs]:
  "encodeSetNewPrevHash m = andthen (payloadSetNewPrevHash m) (\<lambda>p. encodeFrame MINING_EXT MSG_SET_NEW_PREV_HASH p True)"

definition readSetNewPrevHash :: "set_new_prev_hash reader" where [message_defs]:
  "readSetNewPrevHash =
     rd r_u32 (\<lambda>channelId. rd r_u32 (\<lambda>jobId. rd r_u256 (\<lambda>prevHash.
     rd r_u32 (\<lambda>minNtime. rd r_u32 (\<lambda>nbits.
     rd_return \<lparr>
       snp_channelId = channelId, snp_jobId = jobId, snp_prevHash = prevHash,
       snp_minNtime = minNtime, snp_nbits = nbits\<rparr>)))))"

definition decodeSetNewPrevHash :: "bytes \<Rightarrow> set_new_prev_hash res" where [message_defs]:
  "decodeSetNewPrevHash payload = decode_payload readSetNewPrevHash payload"

definition ok_set_new_prev_hash :: "set_new_prev_hash \<Rightarrow> bool" where [message_defs]:
  "ok_set_new_prev_hash m \<longleftrightarrow>
     ok_u32 (snp_channelId m) \<and> ok_u32 (snp_jobId m) \<and> ok_u256 (snp_prevHash m) \<and>
     ok_u32 (snp_minNtime m) \<and> ok_u32 (snp_nbits m)"

record set_target =
  stt_channelId :: int
  stt_maxTarget :: bytes

definition payloadSetTarget :: "set_target \<Rightarrow> bytes res" where [message_defs]:
  "payloadSetTarget m = wr [
     w_u32 (stt_channelId m), w_u256 (stt_maxTarget m)]"

definition encodeSetTarget :: "set_target \<Rightarrow> bytes res" where [message_defs]:
  "encodeSetTarget m = andthen (payloadSetTarget m) (\<lambda>p. encodeFrame MINING_EXT MSG_SET_TARGET p True)"

definition readSetTarget :: "set_target reader" where [message_defs]:
  "readSetTarget =
     rd r_u32 (\<lambda>channelId. rd r_u256 (\<lambda>maxTarget.
     rd_return \<lparr>
       stt_channelId = channelId, stt_maxTarget = maxTarget\<rparr>))"

definition decodeSetTarget :: "bytes \<Rightarrow> set_target res" where [message_defs]:
  "decodeSetTarget payload = decode_payload readSetTarget payload"

definition ok_set_target :: "set_target \<Rightarrow> bool" where [message_defs]:
  "ok_set_target m \<longleftrightarrow>
     ok_u32 (stt_channelId m) \<and> ok_u256 (stt_maxTarget m)"

record close_channel =
  clc_channelId :: int
  clc_reasonCode :: ustring

definition payloadCloseChannel :: "close_channel \<Rightarrow> bytes res" where [message_defs]:
  "payloadCloseChannel m = wr [
     w_u32 (clc_channelId m), w_str0_255 (clc_reasonCode m)]"

definition encodeCloseChannel :: "close_channel \<Rightarrow> bytes res" where [message_defs]:
  "encodeCloseChannel m = andthen (payloadCloseChannel m) (\<lambda>p. encodeFrame MINING_EXT MSG_CLOSE_CHANNEL p True)"

record update_channel =
  upc_channelId :: int
  upc_nominalHashRate :: jsnum
  upc_maxTarget :: bytes

definition readUpdateChannel :: "update_channel reader" where [message_defs]:
  "readUpdateChannel =
     rd r_u32 (\<lambda>channelId. rd readF32 (\<lambda>nominalHashRate. rd r_u256 (\<lambda>maxTarget.
     rd_return \<lparr>
       upc_channelId = channelId, upc_nominalHashRate = nominalHashRate, upc_maxTarget = maxTarget\<rparr>)))"

definition decodeUpdateChannel :: "bytes \<Rightarrow> update_channel res" where [message_defs]:
  "decodeUpdateChannel payload = decode_payload readUpdateChannel payload"

record set_extranonce_prefix =
  sep_channelId :: int
  sep_extranoncePrefix :: bytes

definition payloadSetExtranoncePrefix :: "set_extranonce_prefix \<Rightarrow> bytes res" where [message_defs]:
  "payloadSetExtranoncePrefix m = wr [
     w_u32 (sep_channelId m), w_b0_255 (sep_extranoncePrefix m)]"

definition encodeSetExtranoncePrefix :: "set_extranonce_prefix \<Rightarrow> bytes res" where [message_defs]:
  "encodeSetExtranoncePrefix m = andthen (payloadSetExtranoncePrefix m) (\<lambda>p. encodeFrame MINING_EXT MSG_SET_EXTRANONCE_PREFIX p True)"

record submit_shares_standard =
  sss_channelId :: int
  sss_sequenceNumber :: int
  sss_jobId :: int
  sss_nonce :: int
  sss_ntime :: int
  sss_version :: int

definition payloadSubmitSharesStandard :: "submit_shares_standard \<Rightarrow> bytes res" where [message_defs]:
  "payloadSubmitSharesStandard m = wr [
     w_u32 (sss_channelId m), w_u32 (sss_sequenceNumber m), w_u32 (sss_jobId m),
     w_u32 (to_uint32 (sss_nonce m)), w_u32 (to_uint32 (sss_ntime m)),
     w_u32 (to_uint32 (sss_version m))]"

definition encodeSubmitSharesStandard :: "submit_shares_standard \<Rightarrow> bytes res" where [message_defs]:
  "encodeSubmitSharesStandard m = andthen (payloadSubmitSharesStandard m) (\<lambda>p. encodeFrame MINING_EXT MSG_SUBMIT_SHARES_STANDARD p True)"

definition readSubmitSharesStandard :: "submit_shares_standard reader" where [message_defs]:
  "readSubmitSharesStandard =
     rd r_u32 (\<lambda>channelId. rd r_u32 (\<lambda>sequenceNumber. rd r_u32 (\<lambda>jobId.
     rd r_u32 (\<lambda>nonce. rd r_u32 (\<lambda>ntime. rd r_u32 (\<lambda>vers.
     rd_return \<lparr>
       sss_channelId = channelId, sss_sequenceNumber = sequenceNumber, sss_jobId = jobId,
       sss_nonce = nonce, sss_ntime = ntime, sss_version = vers\<rparr>))))))"

definition decodeSubmitSharesStandard :: "bytes \<Rightarrow> submit_shares_standard res" where [message_defs]:
  "decodeSubmitSharesStandard payload = decode_payload readSubmitSharesStandard payload"

definition ok_submit_shares_standard :: "submit_shares_standard \<Rightarrow> bool" where [message_defs]:
  "ok_submit_shares_standard m \<longleftrightarrow>
     ok_u32 (sss_channelId m) \<and> ok_u32 (sss_sequenceNumber m) \<and> ok_u32 (sss_jobId m) \<and>
     ok_u32 (sss_nonce m) \<and> ok_u32 (sss_ntime m) \<and> ok_u32 (sss_version m)"

record submit_shares_extended =
  sse_channelId :: int
  sse_sequenceNumber :: int
  sse_jobId :: int
  sse_nonce :: int
  sse_ntime :: int
  sse_version :: int
  sse_extranonce :: bytes

definition payloadSubmitSharesExtended :: "submit_shares_extended \<Rightarrow> bytes res" where [message_defs]:
  "payloadSubmitSharesExtended m = wr [
     w_u32 (sse_channelId m), w_u32 (sse_sequenceNumber m), w_u32 (sse_jobId m),
     w_u32 (to_uint32 (sse_nonce m)), w_u32 (to_uint32 (sse_ntime m)),
     w_u32 (to_uint32 (sse_version m)), w_b0_255 (sse_extranonce m)]"

definition encodeSubmitSharesExtended :: "submit_shares_extended \<Rightarrow> bytes res" where [message_defs]:
  "encodeSubmitSharesExtended m = andthen (payloadSubmitSharesExtended m) (\<lambda>p. encodeFrame MINING_EXT MSG_SUBMIT_SHARES_EXTENDED p True)"

definition readSubmitSharesExtended :: "submit_shares_extended reader" where [message_defs]:
  "readSubmitSharesExtended =
     rd r_u32 (\<lambda>channelId. rd r_u32 (\<lambda>sequenceNumber. rd r_u32 (\<lambda>jobId.
     rd r_u32 (\<lambda>nonce. rd r_u32 (\<lambda>ntime. rd r_u32 (\<lambda>vers.
     rd r_b0_255 (\<lambda>extranonce.
     rd_return \<lparr>
       sse_channelId = channelId, sse_sequenceNumber = sequenceNumber, sse_jobId = jobId,
       sse_nonce = nonce, sse_ntime = ntime, sse_version = vers, sse_extranonce = extranonce\<rparr>)))))))"

definition decodeSubmitSharesExtended :: "bytes \<Rightarrow> submit_shares_extended res" where [message_defs]:
  "decodeSubmitSharesExtended payload = decode_payload readSubmitSharesExtended payload"

definition ok_submit_shares_extended :: "submit_shares_extended \<Rightarrow> bool" where [message_defs]:
  "ok_submit_shares_extended m \<longleftrightarrow>
     ok_u32 (sse_channelId m) \<and> ok_u32 (sse_sequenceNumber m) \<and> ok_u32 (sse_jobId m) \<and>
     ok_u32 (sse_nonce m) \<and> ok_u32 (sse_ntime m) \<and> ok_u32 (sse_version m) \<and>
     ok_b0_255 (sse_extranonce m)"

record submit_shares_success =
  ssc_channelId :: int
  ssc_lastSequenceNumber :: int
  ssc_newSubmitsAcceptedCount :: int
  ssc_newSharesSum :: int

definition payloadSubmitSharesSuccess :: "submit_shares_success \<Rightarrow> bytes res" where [message_defs]:
  "payloadSubmitSharesSuccess m = wr [
     w_u32 (ssc_channelId m), w_u32 (ssc_lastSequenceNumber m),
     w_u32 (ssc_newSubmitsAcceptedCount m), w_u64 (ssc_newSharesSum m)]"

definition encodeSubmitSharesSuccess :: "submit_shares_success \<Rightarrow> bytes res" where [message_defs]:
  "encodeSubmitSharesSuccess m = andthen (payloadSubmitSharesSuccess m) (\<lambda>p. encodeFrame MINING_EXT MSG_SUBMIT_SHARES_SUCCESS p True)"

definition readSubmitSharesSuccess :: "submit_shares_success reader" where [message_defs]:
  "readSubmitSharesSuccess =
     rd r_u32 (\<lambda>channelId. rd r_u32 (\<lambda>lastSequenceNumber.
     rd r_u32 (\<lambda>newSubmitsAcceptedCount. rd r_u64 (\<lambda>newSharesSum.
     rd_return \<lparr>
       ssc_channelId = channelId, ssc_lastSequenceNumber = lastSequenceNumber,
       ssc_newSubmitsAcceptedCount = newSubmitsAcceptedCount, ssc_newSharesSum = newSharesSum\<rparr>))))"

definition decodeSubmitSharesSuccess :: "bytes \<Rightarrow> submit_shares_success res" where [message_defs]:
  "decodeSubmitSharesSuccess payload = decode_payload readSubmitSharesSuccess payload"

definition ok_submit_shares_success :: "submit_shares_success \<Rightarrow> bool" where [message_defs]:
  "ok_submit_shares_success m \<longleftrightarrow>
     ok_u32 (ssc_channelId m) \<and> ok_u32 (ssc_lastSequenceNumber m) \<and>
     ok_u32 (ssc_newSubmitsAcceptedCount m) \<and> ok_u64 (ssc_newSharesSum m)"

record submit_shares_error =
  ser_channelId :: int
  ser_sequenceNumber :: int
  ser_errorCode :: ustring

definition payloadSubmitSharesError :: "submit_shares_error \<Rightarrow> bytes res" where [message_defs]:
  "payloadSubmitSharesError m = wr [
     w_u32 (ser_channelId m), w_u32 (ser_sequenceNumber m), w_str0_255 (ser_errorCode m)]"

definition encodeSubmitSharesError :: "submit_shares_error \<Rightarrow> bytes res" where [message_defs]:
  "encodeSubmitSharesError m = andthen (payloadSubmitSharesError m) (\<lambda>p. encodeFrame MINING_EXT MSG_SUBMIT_SHARES_ERROR p True)"

record set_custom_mining_job =
  scm_channelId :: int
  scm_requestId :: int
  scm_miningJobToken :: bytes
  scm_version :: int
  scm_prevHash :: bytes
  scm_minNtime :: int
  scm_nbits :: int
  scm_coinbaseTxVersion :: int
  scm_coinbasePrefix :: bytes
  scm_coinbaseTxInputNSequence :: int
  scm_coinbaseTxValueRemaining :: int
  scm_coinbaseTxOutputs :: bytes
  scm_coinbaseTxLocktime :: int
  scm_merklePath :: "bytes list"

definition payloadSetCustomMiningJob :: "set_custom_mining_job \<Rightarrow> bytes res" where [message_defs]:
  "payloadSetCustomMiningJob m = wr [
     w_u32 (scm_channelId m), w_u32 (scm_requestId m), w_b0_255 (scm_miningJobToken m),
     w_u32 (to_uint32 (scm_version m)), w_u256 (scm_prevHash m), w_u32 (to_uint32 (scm_minNtime m)),
     w_u32 (to_uint32 (scm_nbits m)), w_u32 (to_uint32 (scm_coinbaseTxVersion m)),
     w_b0_255 (scm_coinbasePrefix m), w_u32 (to_uint32 (scm_coinbaseTxInputNSequence m)),
     w_u64 (scm_coinbaseTxValueRemaining m), w_b0_64k (scm_coinbaseTxOutputs m),
     w_u32 (to_uint32 (scm_coinbaseTxLocktime m)), w_seq0_255 w_u256 (scm_merklePath m)]"

definition encodeSetCustomMiningJob :: "set_custom_mining_job \<Rightarrow> bytes res" where [message_defs]:
  "encodeSetCustomMiningJob m = andthen (payloadSetCustomMiningJob m) (\<lambda>p. encodeFrame MINING_EXT MSG_SET_CUSTOM_MINING_JOB p True)"

record set_custom_mining_job_success =
  scms_channelId :: int
  scms_requestId :: int
  scms_jobId :: int

definition payloadSetCustomMiningJobSuccess :: "set_custom_mining_job_success \<Rightarrow> bytes res" where [message_defs]:
  "payloadSetCustomMiningJobSuccess m = wr [
     w_u32 (scms_channelId m), w_u32 (scms_requestId m), w_u32 (scms_jobId m)]"

definition encodeSetCustomMiningJobSuccess :: "set_custom_mining_job_success \<Rightarrow> bytes res" where [message_defs]:
  "encodeSetCustomMiningJobSuccess m = andthen (payloadSetCustomMiningJobSuccess m) (\<lambda>p. encodeFrame MINING_EXT MSG_SET_CUSTOM_MINING_JOB_SUCCESS p True)"

record set_custom_mining_job_error =
  scme_channelId :: int
  scme_requestId :: int
  scme_errorCode :: ustring

definition payloadSetCustomMiningJobError :: "set_custom_mining_job_error \<Rightarrow> bytes res" where [message_defs]:
  "payloadSetCustomMiningJobError m = wr [
     w_u32 (scme_channelId m), w_u32 (scme_requestId m), w_str0_255 (scme_errorCode m)]"

definition encodeSetCustomMiningJobError :: "set_custom_mining_job_error \<Rightarrow> bytes res" where [message_defs]:
  "encodeSetCustomMiningJobError m = andthen (payloadSetCustomMiningJobError m) (\<lambda>p. encodeFrame MINING_EXT MSG_SET_CUSTOM_MINING_JOB_ERROR p True)"

section \<open>The messages are delivered\<close>

interpretation open_standard_mining_channel: message payloadOpenStandardMiningChannel readOpenStandardMiningChannel ok_open_standard_mining_channel
  encodeOpenStandardMiningChannel decodeOpenStandardMiningChannel MSG_OPEN_STD_CHANNEL False
  by unfold_locales (auto simp: message_defs fun_eq_iff intro!: message_intros)

interpretation open_standard_mining_channel_success: message payloadOpenStandardMiningChannelSuccess readOpenStandardMiningChannelSuccess ok_open_standard_mining_channel_success
  encodeOpenStandardMiningChannelSuccess decodeOpenStandardMiningChannelSuccess MSG_OPEN_STD_CHANNEL_SUCCESS False
  by unfold_locales (auto simp: message_defs fun_eq_iff intro!: message_intros)

interpretation open_extended_mining_channel: message payloadOpenExtendedMiningChannel readOpenExtendedMiningChannel ok_open_extended_mining_channel
  encodeOpenExtendedMiningChannel decodeOpenExtendedMiningChannel MSG_OPEN_EXT_CHANNEL False
  by unfold_locales (auto simp: message_defs fun_eq_iff intro!: message_intros)

interpretation open_extended_mining_channel_success: message payloadOpenExtendedMiningChannelSuccess readOpenExtendedMiningChannelSuccess ok_open_extended_mining_channel_success
  encodeOpenExtendedMiningChannelSuccess decodeOpenExtendedMiningChannelSuccess MSG_OPEN_EXT_CHANNEL_SUCCESS False
  by unfold_locales (auto simp: message_defs fun_eq_iff intro!: message_intros)

interpretation new_mining_job: message payloadNewMiningJob readNewMiningJob ok_new_mining_job
  encodeNewMiningJob decodeNewMiningJob MSG_NEW_MINING_JOB True
  by unfold_locales (auto simp: message_defs fun_eq_iff intro!: message_intros)

interpretation new_extended_mining_job: message payloadNewExtendedMiningJob readNewExtendedMiningJob ok_new_extended_mining_job
  encodeNewExtendedMiningJob decodeNewExtendedMiningJob MSG_NEW_EXT_MINING_JOB True
  by unfold_locales (auto simp: message_defs fun_eq_iff intro!: message_intros)

interpretation set_new_prev_hash: message payloadSetNewPrevHash readSetNewPrevHash ok_set_new_prev_hash
  encodeSetNewPrevHash decodeSetNewPrevHash MSG_SET_NEW_PREV_HASH True
  by unfold_locales (auto simp: message_defs fun_eq_iff intro!: message_intros)

interpretation set_target: message payloadSetTarget readSetTarget ok_set_target
  encodeSetTarget decodeSetTarget MSG_SET_TARGET True
  by unfold_locales (auto simp: message_defs fun_eq_iff intro!: message_intros)

interpretation submit_shares_standard: message payloadSubmitSharesStandard readSubmitSharesStandard ok_submit_shares_standard
  encodeSubmitSharesStandard decodeSubmitSharesStandard MSG_SUBMIT_SHARES_STANDARD True
  by unfold_locales (auto simp: message_defs fun_eq_iff intro!: message_intros)

interpretation submit_shares_extended: message payloadSubmitSharesExtended readSubmitSharesExtended ok_submit_shares_extended
  encodeSubmitSharesExtended decodeSubmitSharesExtended MSG_SUBMIT_SHARES_EXTENDED True
  by unfold_locales (auto simp: message_defs fun_eq_iff intro!: message_intros)

interpretation submit_shares_success: message payloadSubmitSharesSuccess readSubmitSharesSuccess ok_submit_shares_success
  encodeSubmitSharesSuccess decodeSubmitSharesSuccess MSG_SUBMIT_SHARES_SUCCESS True
  by unfold_locales (auto simp: message_defs fun_eq_iff intro!: message_intros)

text \<open>
  C16: Every mining protocol message whose fields fit their wire types is encoded without an
  exception, arrives as exactly one frame of its type, channel flag included, and is decoded to
  the same message.
\<close>
theorem mining_messages_delivered:
  "(ok_open_standard_mining_channel x1 \<longrightarrow>
      delivered encodeOpenStandardMiningChannel decodeOpenStandardMiningChannel MSG_OPEN_STD_CHANNEL False x1) \<and>
   (ok_open_standard_mining_channel_success x2 \<longrightarrow>
      delivered encodeOpenStandardMiningChannelSuccess decodeOpenStandardMiningChannelSuccess MSG_OPEN_STD_CHANNEL_SUCCESS False x2) \<and>
   (ok_open_extended_mining_channel x3 \<longrightarrow>
      delivered encodeOpenExtendedMiningChannel decodeOpenExtendedMiningChannel MSG_OPEN_EXT_CHANNEL False x3) \<and>
   (ok_open_extended_mining_channel_success x4 \<longrightarrow>
      delivered encodeOpenExtendedMiningChannelSuccess decodeOpenExtendedMiningChannelSuccess MSG_OPEN_EXT_CHANNEL_SUCCESS False x4) \<and>
   (ok_new_mining_job x5 \<longrightarrow>
      delivered encodeNewMiningJob decodeNewMiningJob MSG_NEW_MINING_JOB True x5) \<and>
   (ok_new_extended_mining_job x6 \<longrightarrow>
      delivered encodeNewExtendedMiningJob decodeNewExtendedMiningJob MSG_NEW_EXT_MINING_JOB True x6) \<and>
   (ok_set_new_prev_hash x7 \<longrightarrow>
      delivered encodeSetNewPrevHash decodeSetNewPrevHash MSG_SET_NEW_PREV_HASH True x7) \<and>
   (ok_set_target x8 \<longrightarrow>
      delivered encodeSetTarget decodeSetTarget MSG_SET_TARGET True x8) \<and>
   (ok_submit_shares_standard x9 \<longrightarrow>
      delivered encodeSubmitSharesStandard decodeSubmitSharesStandard MSG_SUBMIT_SHARES_STANDARD True x9) \<and>
   (ok_submit_shares_extended x10 \<longrightarrow>
      delivered encodeSubmitSharesExtended decodeSubmitSharesExtended MSG_SUBMIT_SHARES_EXTENDED True x10) \<and>
   (ok_submit_shares_success x11 \<longrightarrow>
      delivered encodeSubmitSharesSuccess decodeSubmitSharesSuccess MSG_SUBMIT_SHARES_SUCCESS True x11)"
  by (intro conjI impI
      open_standard_mining_channel.delivered open_standard_mining_channel_success.delivered
      open_extended_mining_channel.delivered open_extended_mining_channel_success.delivered
      new_mining_job.delivered new_extended_mining_job.delivered set_new_prev_hash.delivered
      set_target.delivered submit_shares_standard.delivered submit_shares_extended.delivered
      submit_shares_success.delivered)

theorem mining_messages_delivered_witness:
  "delivered encodeOpenStandardMiningChannel decodeOpenStandardMiningChannel MSG_OPEN_STD_CHANNEL False
     \<lparr>osc_requestId = 7, osc_userIdentity = [0x62, 0xe9, 0x20ac, 0x1f600], osc_nominalHashRate = Fin 0, osc_maxTarget = replicate 32 0xab\<rparr> \<and>
   delivered encodeOpenStandardMiningChannelSuccess decodeOpenStandardMiningChannelSuccess MSG_OPEN_STD_CHANNEL_SUCCESS False
     \<lparr>oscs_requestId = 7, oscs_channelId = 7, oscs_target = replicate 32 0xab, oscs_extranoncePrefix = [1, 2, 3], oscs_groupChannelId = 7\<rparr> \<and>
   delivered encodeOpenExtendedMiningChannel decodeOpenExtendedMiningChannel MSG_OPEN_EXT_CHANNEL False
     \<lparr>oec_requestId = 7, oec_userIdentity = [0x62, 0xe9, 0x20ac, 0x1f600], oec_nominalHashRate = Fin 0, oec_maxTarget = replicate 32 0xab, oec_minExtranonceSize = 2\<rparr> \<and>
   delivered encodeOpenExtendedMiningChannelSuccess decodeOpenExtendedMiningChannelSuccess MSG_OPEN_EXT_CHANNEL_SUCCESS False
     \<lparr>oecs_requestId = 7, oecs_channelId = 7, oecs_target = replicate 32 0xab, oecs_extranonceSize = 2, oecs_extranoncePrefix = [1, 2, 3]\<rparr> \<and>
   delivered encodeNewMiningJob decodeNewMiningJob MSG_NEW_MINING_JOB True
     \<lparr>nmj_channelId = 7, nmj_jobId = 7, nmj_minNtime = Some 5, nmj_version = 0xffffffff, nmj_merkleRoot = replicate 32 0xab\<rparr> \<and>
   delivered encodeNewExtendedMiningJob decodeNewExtendedMiningJob MSG_NEW_EXT_MINING_JOB True
     \<lparr>nej_channelId = 7, nej_jobId = 7, nej_minNtime = Some 5, nej_version = 0xffffffff, nej_versionRollingAllowed = True, nej_merklePath = [replicate 32 1, replicate 32 2], nej_coinbaseTxPrefix = [9], nej_coinbaseTxSuffix = [9]\<rparr> \<and>
   delivered encodeSetNewPrevHash decodeSetNewPrevHash MSG_SET_NEW_PREV_HASH True
     \<lparr>snp_channelId = 7, snp_jobId = 7, snp_prevHash = replicate 32 0xab, snp_minNtime = 0xffffffff, snp_nbits = 0xffffffff\<rparr> \<and>
   delivered encodeSetTarget decodeSetTarget MSG_SET_TARGET True
     \<lparr>stt_channelId = 7, stt_maxTarget = replicate 32 0xab\<rparr> \<and>
   delivered encodeSubmitSharesStandard decodeSubmitSharesStandard MSG_SUBMIT_SHARES_STANDARD True
     \<lparr>sss_channelId = 7, sss_sequenceNumber = 7, sss_jobId = 7, sss_nonce = 0xffffffff, sss_ntime = 0xffffffff, sss_version = 0xffffffff\<rparr> \<and>
   delivered encodeSubmitSharesExtended decodeSubmitSharesExtended MSG_SUBMIT_SHARES_EXTENDED True
     \<lparr>sse_channelId = 7, sse_sequenceNumber = 7, sse_jobId = 7, sse_nonce = 0xffffffff, sse_ntime = 0xffffffff, sse_version = 0xffffffff, sse_extranonce = [1, 2, 3]\<rparr> \<and>
   delivered encodeSubmitSharesSuccess decodeSubmitSharesSuccess MSG_SUBMIT_SHARES_SUCCESS True
     \<lparr>ssc_channelId = 7, ssc_lastSequenceNumber = 7, ssc_newSubmitsAcceptedCount = 7, ssc_newSharesSum = 2^63\<rparr>"
  using mining_messages_delivered [of
    "\<lparr>osc_requestId = 7, osc_userIdentity = [0x62, 0xe9, 0x20ac, 0x1f600], osc_nominalHashRate = Fin 0, osc_maxTarget = replicate 32 0xab\<rparr>"
    "\<lparr>oscs_requestId = 7, oscs_channelId = 7, oscs_target = replicate 32 0xab, oscs_extranoncePrefix = [1, 2, 3], oscs_groupChannelId = 7\<rparr>"
    "\<lparr>oec_requestId = 7, oec_userIdentity = [0x62, 0xe9, 0x20ac, 0x1f600], oec_nominalHashRate = Fin 0, oec_maxTarget = replicate 32 0xab, oec_minExtranonceSize = 2\<rparr>"
    "\<lparr>oecs_requestId = 7, oecs_channelId = 7, oecs_target = replicate 32 0xab, oecs_extranonceSize = 2, oecs_extranoncePrefix = [1, 2, 3]\<rparr>"
    "\<lparr>nmj_channelId = 7, nmj_jobId = 7, nmj_minNtime = Some 5, nmj_version = 0xffffffff, nmj_merkleRoot = replicate 32 0xab\<rparr>"
    "\<lparr>nej_channelId = 7, nej_jobId = 7, nej_minNtime = Some 5, nej_version = 0xffffffff, nej_versionRollingAllowed = True, nej_merklePath = [replicate 32 1, replicate 32 2], nej_coinbaseTxPrefix = [9], nej_coinbaseTxSuffix = [9]\<rparr>"
    "\<lparr>snp_channelId = 7, snp_jobId = 7, snp_prevHash = replicate 32 0xab, snp_minNtime = 0xffffffff, snp_nbits = 0xffffffff\<rparr>"
    "\<lparr>stt_channelId = 7, stt_maxTarget = replicate 32 0xab\<rparr>"
    "\<lparr>sss_channelId = 7, sss_sequenceNumber = 7, sss_jobId = 7, sss_nonce = 0xffffffff, sss_ntime = 0xffffffff, sss_version = 0xffffffff\<rparr>"
    "\<lparr>sse_channelId = 7, sse_sequenceNumber = 7, sse_jobId = 7, sse_nonce = 0xffffffff, sse_ntime = 0xffffffff, sse_version = 0xffffffff, sse_extranonce = [1, 2, 3]\<rparr>"
    "\<lparr>ssc_channelId = 7, ssc_lastSequenceNumber = 7, ssc_newSubmitsAcceptedCount = 7, ssc_newSharesSum = 2^63\<rparr>"]
  by (simp add: ok_open_standard_mining_channel_def ok_open_standard_mining_channel_success_def ok_open_extended_mining_channel_def ok_open_extended_mining_channel_success_def ok_new_mining_job_def ok_new_extended_mining_job_def ok_set_new_prev_hash_def ok_set_target_def ok_submit_shares_standard_def ok_submit_shares_extended_def ok_submit_shares_success_def ok_optionU32_def sample_simps)

text \<open>
  The decoders of the messages a miner sends throw on every strict prefix of a payload: a
  cut-off request is never taken for a shorter one.
\<close>
theorem mining_truncated_rejected:
  "(ok_open_standard_mining_channel x1 \<longrightarrow> rejects_truncated encodeOpenStandardMiningChannel decodeOpenStandardMiningChannel x1) \<and>
   (ok_open_extended_mining_channel x2 \<longrightarrow> rejects_truncated encodeOpenExtendedMiningChannel decodeOpenExtendedMiningChannel x2) \<and>
   (ok_submit_shares_standard x3 \<longrightarrow> rejects_truncated encodeSubmitSharesStandard decodeSubmitSharesStandard x3) \<and>
   (ok_submit_shares_extended x4 \<longrightarrow> rejects_truncated encodeSubmitSharesExtended decodeSubmitSharesExtended x4)"
  by (intro conjI impI
      open_standard_mining_channel.rejects_truncated open_extended_mining_channel.rejects_truncated
      submit_shares_standard.rejects_truncated submit_shares_extended.rejects_truncated)

theorem mining_truncated_rejected_witness:
  "rejects_truncated encodeOpenStandardMiningChannel decodeOpenStandardMiningChannel
     \<lparr>osc_requestId = 7, osc_userIdentity = [0x62, 0xe9, 0x20ac, 0x1f600], osc_nominalHashRate = Fin 0, osc_maxTarget = replicate 32 0xab\<rparr> \<and>
   rejects_truncated encodeOpenExtendedMiningChannel decodeOpenExtendedMiningChannel
     \<lparr>oec_requestId = 7, oec_userIdentity = [0x62, 0xe9, 0x20ac, 0x1f600], oec_nominalHashRate = Fin 0, oec_maxTarget = replicate 32 0xab, oec_minExtranonceSize = 2\<rparr> \<and>
   rejects_truncated encodeSubmitSharesStandard decodeSubmitSharesStandard
     \<lparr>sss_channelId = 7, sss_sequenceNumber = 7, sss_jobId = 7, sss_nonce = 0xffffffff, sss_ntime = 0xffffffff, sss_version = 0xffffffff\<rparr> \<and>
   rejects_truncated encodeSubmitSharesExtended decodeSubmitSharesExtended
     \<lparr>sse_channelId = 7, sse_sequenceNumber = 7, sse_jobId = 7, sse_nonce = 0xffffffff, sse_ntime = 0xffffffff, sse_version = 0xffffffff, sse_extranonce = [1, 2, 3]\<rparr>"
  using mining_truncated_rejected [of
    "\<lparr>osc_requestId = 7, osc_userIdentity = [0x62, 0xe9, 0x20ac, 0x1f600], osc_nominalHashRate = Fin 0, osc_maxTarget = replicate 32 0xab\<rparr>"
    "\<lparr>oec_requestId = 7, oec_userIdentity = [0x62, 0xe9, 0x20ac, 0x1f600], oec_nominalHashRate = Fin 0, oec_maxTarget = replicate 32 0xab, oec_minExtranonceSize = 2\<rparr>"
    "\<lparr>sss_channelId = 7, sss_sequenceNumber = 7, sss_jobId = 7, sss_nonce = 0xffffffff, sss_ntime = 0xffffffff, sss_version = 0xffffffff\<rparr>"
    "\<lparr>sse_channelId = 7, sse_sequenceNumber = 7, sse_jobId = 7, sse_nonce = 0xffffffff, sse_ntime = 0xffffffff, sse_version = 0xffffffff, sse_extranonce = [1, 2, 3]\<rparr>"]
  by (simp add: ok_open_standard_mining_channel_def ok_open_extended_mining_channel_def ok_submit_shares_standard_def ok_submit_shares_extended_def sample_simps)


end
