(* ===== verification/Sv2_Messages.thy ===== *)
theory Sv2_Messages
  imports Sv2_Common Sv2_Jd_Messages Sv2_Tp_Messages Sv2_Mining_Messages
begin

text \<open>
  The property that spans the message modules of \<^verbatim>\<open>sv2/lib/messages\<close>: connection set-up, job
  declaration and template distribution.
\<close>

text \<open>
  C23: Every connection set-up, job declaration and template distribution message with both
  directions in the code, whose fields fit their wire types, is encoded without an exception,
  arrives as exactly one frame of its type and is decoded to the same message.
\<close>
theorem setup_jd_tp_messages_delivered:
  "(ok_setup_connection x1 \<longrightarrow>
      delivered encodeSetupConnection decodeSetupConnection MSG_SETUP_CONNECTION False x1) \<and>
   (ok_setup_connection_success x2 \<longrightarrow>
      delivered encodeSetupConnectionSuccess decodeSetupConnectionSuccess MSG_SETUP_CONNECTION_SUCCESS False x2) \<and>
   (ok_setup_connection_error x3 \<longrightarrow>
      delivered encodeSetupConnectionError decodeSetupConnectionError MSG_SETUP_CONNECTION_ERROR False x3) \<and>
   (ok_allocate_mining_job_token x4 \<longrightarrow>
      delivered encodeAllocateMiningJobToken decodeAllocateMiningJobToken MSG_ALLOCATE_JOB_TOKEN False x4) \<and>
   (ok_allocate_mining_job_token_success x5 \<longrightarrow>
      delivered encodeAllocateMiningJobTokenSuccess decodeAllocateMiningJobTokenSuccess MSG_ALLOCATE_JOB_TOKEN_SUCCESS False x5) \<and>
   (ok_declare_mining_job x6 \<longrightarrow>
      delivered encodeDeclareMiningJob decodeDeclareMiningJob MSG_DECLARE_MINING_JOB False x6) \<and>
   (ok_coinbase_output_data_size x7 \<longrightarrow>
      delivered encodeCoinbaseOutputDataSize decodeCoinbaseOutputDataSize MSG_COINBASE_OUTPUT_DATA_SIZE False x7) \<and>
   (ok_new_template x8 \<longrightarrow>
      delivered encodeNewTemplate decodeNewTemplate MSG_NEW_TEMPLATE False x8) \<and>
   (ok_set_new_prev_hash_tp x9 \<longrightarrow>
      delivered encodeSetNewPrevHashTP decodeSetNewPrevHashTP MSG_SET_NEW_PREV_HASH_TP False x9) \<and>
   (ok_request_transaction_data x10 \<longrightarrow>
      delivered encodeRequestTransactionData decodeRequestTransactionData MSG_REQUEST_TX_DATA False x10) \<and>
   (ok_request_transaction_data_success x11 \<longrightarrow>
      delivered encodeRequestTransactionDataSuccess decodeRequestTransactionDataSuccess MSG_REQUEST_TX_DATA_SUCCESS False x11) \<and>
   (ok_submit_solution_tp x12 \<longrightarrow>
      delivered encodeSubmitSolutionTP decodeSubmitSolutionTP MSG_SUBMIT_SOLUTION_TP False x12)"
  by (intro conjI impI
      setup_connection.delivered setup_connection_success.delivered setup_connection_error.delivered
      allocate_mining_job_token.delivered allocate_mining_job_token_success.delivered
      declare_mining_job.delivered coinbase_output_data_size.delivered new_template.delivered
      set_new_prev_hash_tp.delivered request_transaction_data.delivered
      request_transaction_data_success.delivered submit_solution_tp.delivered)

theorem setup_jd_tp_messages_delivered_witness:
  "delivered encodeSetupConnection decodeSetupConnection MSG_SETUP_CONNECTION False
     \<lparr>sc_protocol = 1, sc_minVersion = 2, sc_maxVersion = 2, sc_flags = 0xffffffff, sc_endpointHost = [0x62, 0xe9, 0x20ac, 0x1f600], sc_endpointPort = 2, sc_vendor = [0x62, 0xe9, 0x20ac, 0x1f600], sc_hardwareVersion = [0x62, 0xe9, 0x20ac, 0x1f600], sc_firmware = [0x62, 0xe9, 0x20ac, 0x1f600], sc_deviceId = [0x62, 0xe9, 0x20ac, 0x1f600]\<rparr> \<and>
   delivered encodeSetupConnectionSuccess decodeSetupConnectionSuccess MSG_SETUP_CONNECTION_SUCCESS False
     \<lparr>scs_usedVersion = 2, scs_flags = 0xffffffff\<rparr> \<and>
   delivered encodeSetupConnectionError decodeSetupConnectionError MSG_SETUP_CONNECTION_ERROR False
     \<lparr>sce_flags = 0xffffffff, sce_errorCode = [0x62, 0xe9, 0x20ac, 0x1f600]\<rparr> \<and>
   delivered encodeAllocateMiningJobToken decodeAllocateMiningJobToken MSG_ALLOCATE_JOB_TOKEN False
     \<lparr>amt_userIdentifier = [0x62, 0xe9, 0x20ac, 0x1f600], amt_requestId = 7\<rparr> \<and>
   delivered encodeAllocateMiningJobTokenSuccess decodeAllocateMiningJobTokenSuccess MSG_ALLOCATE_JOB_TOKEN_SUCCESS False
     \<lparr>amts_requestId = 7, amts_miningJobToken = [1, 2, 3], amts_coinbaseOutputMaxAdditionalSize = 0xffffffff, amts_asyncMiningAllowed = True, amts_coinbaseOutput = [9]\<rparr> \<and>
   delivered encodeDeclareMiningJob decodeDeclareMiningJob MSG_DECLARE_MINING_JOB False
     \<lparr>dmj_requestId = 7, dmj_miningJobToken = [1, 2, 3], dmj_version = 0xffffffff, dmj_coinbasePrefix = [1, 2, 3], dmj_coinbaseSuffix = [9], dmj_txShortHashList = [replicate 32 3], dmj_txHashListHash = replicate 32 0xab, dmj_excessData = [9]\<rparr> \<and>
   delivered encodeCoinbaseOutputDataSize decodeCoinbaseOutputDataSize MSG_COINBASE_OUTPUT_DATA_SIZE False
     \<lparr>cods_coinbaseOutputMaxAdditionalSize = 0xffffffff\<rparr> \<and>
   delivered encodeNewTemplate decodeNewTemplate MSG_NEW_TEMPLATE False
     \<lparr>nt_templateId = 2^63, nt_futureTemplate = True, nt_version = 0xffffffff, nt_coinbaseTxVersion = 0xffffffff, nt_coinbasePrefix = [1, 2, 3], nt_coinbaseTxInputSequence = 0xffffffff, nt_coinbaseTxValueRemaining = 2^63, nt_coinbaseTxOutputsCount = 0xffffffff, nt_coinbaseTxOutputs = [9], nt_coinbaseTxLocktime = 0xffffffff, nt_merklePath = [replicate 32 1, replicate 32 2]\<rparr> \<and>
   delivered encodeSetNewPrevHashTP decodeSetNewPrevHashTP MSG_SET_NEW_PREV_HASH_TP False
     \<lparr>snpt_templateId = 2^63, snpt_prevHash = replicate 32 0xab, snpt_headerTimestamp = 0xffffffff, snpt_nbits = 0xffffffff, snpt_target = replicate 32 0xab\<rparr> \<and>
   delivered encodeRequestTransactionData decodeRequestTransactionData MSG_REQUEST_TX_DATA False
     \<lparr>rtd_templateId = 2^63\<rparr> \<and>
   delivered encodeRequestTransactionDataSuccess decodeRequestTransactionDataSuccess MSG_REQUEST_TX_DATA_SUCCESS False
     \<lparr>rtds_templateId = 2^63, rtds_excessData = [9], rtds_transactionList = [[1], []]\<rparr> \<and>
   delivered encodeSubmitSolutionTP decodeSubmitSolutionTP MSG_SUBMIT_SOLUTION_TP False
     \<lparr>sst_templateId = 2^63, sst_version = 0xffffffff, sst_headerTimestamp = 0xffffffff, sst_headerNonce = 0xffffffff, sst_coinbaseTx = [9]\<rparr>"
  using setup_jd_tp_messages_delivered [of
    "\<lparr>sc_protocol = 1, sc_minVersion = 2, sc_maxVersion = 2, sc_flags = 0xffffffff, sc_endpointHost = [0x62, 0xe9, 0x20ac, 0x1f600], sc_endpointPort = 2, sc_vendor = [0x62, 0xe9, 0x20ac, 0x1f600], sc_hardwareVersion = [0x62, 0xe9, 0x20ac, 0x1f600], sc_firmware = [0x62, 0xe9, 0x20ac, 0x1f600], sc_deviceId = [0x62, 0xe9, 0x20ac, 0x1f600]\<rparr>"
    "\<lparr>scs_usedVersion = 2, scs_flags = 0xffffffff\<rparr>"
    "\<lparr>sce_flags = 0xffffffff, sce_errorCode = [0x62, 0xe9, 0x20ac, 0x1f600]\<rparr>"
    "\<lparr>amt_userIdentifier = [0x62, 0xe9, 0x20ac, 0x1f600], amt_requestId = 7\<rparr>"
    "\<lparr>amts_requestId = 7, amts_miningJobToken = [1, 2, 3], amts_coinbaseOutputMaxAdditionalSize = 0xffffffff, amts_asyncMiningAllowed = True, amts_coinbaseOutput = [9]\<rparr>"
    "\<lparr>dmj_requestId = 7, dmj_miningJobToken = [1, 2, 3], dmj_version = 0xffffffff, dmj_coinbasePrefix = [1, 2, 3], dmj_coinbaseSuffix = [9], dmj_txShortHashList = [replicate 32 3], dmj_txHashListHash = replicate 32 0xab, dmj_excessData = [9]\<rparr>"
    "\<lparr>cods_coinbaseOutputMaxAdditionalSize = 0xffffffff\<rparr>"
    "\<lparr>nt_templateId = 2^63, nt_futureTemplate = True, nt_version = 0xffffffff, nt_coinbaseTxVersion = 0xffffffff, nt_coinbasePrefix = [1, 2, 3], nt_coinbaseTxInputSequence = 0xffffffff, nt_coinbaseTxValueRemaining = 2^63, nt_coinbaseTxOutputsCount = 0xffffffff, nt_coinbaseTxOutputs = [9], nt_coinbaseTxLocktime = 0xffffffff, nt_merklePath = [replicate 32 1, replicate 32 2]\<rparr>"
    "\<lparr>snpt_templateId = 2^63, snpt_prevHash = replicate 32 0xab, snpt_headerTimestamp = 0xffffffff, snpt_nbits = 0xffffffff, snpt_target = replicate 32 0xab\<rparr>"
    "\<lparr>rtd_templateId = 2^63\<rparr>"
    "\<lparr>rtds_templateId = 2^63, rtds_excessData = [9], rtds_transactionList = [[1], []]\<rparr>"
    "\<lparr>sst_templateId = 2^63, sst_version = 0xffffffff, sst_headerTimestamp = 0xffffffff, sst_headerNonce = 0xffffffff, sst_coinbaseTx = [9]\<rparr>"]
  by (simp add: ok_setup_connection_def ok_setup_connection_success_def ok_setup_connection_error_def ok_allocate_mining_job_token_def ok_allocate_mining_job_token_success_def ok_declare_mining_job_def ok_coinbase_output_data_size_def ok_new_template_def ok_set_new_prev_hash_tp_def ok_request_transaction_data_def ok_request_transaction_data_success_def ok_submit_solution_tp_def payloadRequestTransactionDataSuccess_def SV2_MAX_PAYLOAD_LEN_def
      sized_def w_u64_def w_b0_64k_def w_b0_16m_def w_seq0_64k_def w_bytesRaw_def w_u16_def w_u24_def wr.simps sample_simps)

end
