(* ===== verification/Share_Writer.thy ===== *)
theory Share_Writer
  imports Pplns "HOL-Library.Multiset"
begin

text \<open>
  The batched writer of the pool daemon (\<^verbatim>\<open>pool/share-writer.ts\<close>): events from the stratum service are
  resolved to users and workers, buffered, written to the tables in one transaction and queued again when
  it fails; every minute is rolled up into hashrate buckets.

  A flush awaits its transaction, so events and further flushes arrive while it runs: a flush is a
  begin, which takes the buffers, and an end, which commits the batch or puts it back. \<open>daemon_step\<close>
  interleaves them freely.
\<close>

section \<open>State\<close>

record buffered_share =
  bs_event :: share_event
  bs_userId :: "int option"
  bs_workerId :: "int option"

record buffered_reject =
  br_event :: reject_event
  br_userId :: int
  br_workerId :: int

record buffered_sig =
  bg_event :: share_sig_event
  bg_userId :: "int option"
  bg_workerId :: "int option"

text \<open>The difficulty and the number of the anonymous shares of a minute.\<close>

type_synonym anon_total = "jsnum \<times> int"

record share_writer =
  wr_buf :: "buffered_share list"
  wr_userIdCache :: "(string, int) jsmap"
  wr_workerIdCache :: "(string, int) jsmap"
  wr_lastBucketAt :: "int option"
  wr_anonByMinute :: "(int, anon_total) jsmap"
  wr_rejectBuf :: "buffered_reject list"
  wr_sigBuf :: "buffered_sig list"

definition newShareWriter :: share_writer where
  "newShareWriter = \<lparr>wr_buf = [], wr_userIdCache = [], wr_workerIdCache = [], wr_lastBucketAt = None,
     wr_anonByMinute = [], wr_rejectBuf = [], wr_sigBuf = []\<rparr>"

text \<open>Whether a query outside a transaction succeeds, whether a transaction commits, and the clock.\<close>

record writer_env =
  we_query :: bool
  we_commit :: bool
  we_now :: int

record batch =
  ba_shares :: "buffered_share list"
  ba_rejects :: "buffered_reject list"
  ba_sigs :: "buffered_sig list"

section \<open>Resolving users and workers\<close>

definition resolveUserId :: "writer_env \<Rightarrow> string \<Rightarrow> pool_db \<Rightarrow> share_writer \<Rightarrow> int option res \<times> share_writer" where
  "resolveUserId env email db w =
     (if email = [] \<or> CHR '':'' \<in> set email then (Inr None, w)
      else case jsmap_get (wr_userIdCache w) email of
        Some hit \<Rightarrow> (Inr (Some hit), w)
      | None \<Rightarrow>
          if \<not> we_query env then (Inl (Error ''query failed''), w)
          else case find (\<lambda>u. us_email u = email) (db_users db) of
            None \<Rightarrow> (Inr None, w)
          | Some u \<Rightarrow> (Inr (Some (us_id u)), w\<lparr>wr_userIdCache := jsmap_set email (us_id u) (wr_userIdCache w)\<rparr>))"

text \<open>\<^verbatim>\<open>INSERT INTO workers ... ON CONFLICT (user_id, name) DO UPDATE ... RETURNING id\<close>.\<close>

definition upsert_worker :: "int \<Rightarrow> string \<Rightarrow> int \<Rightarrow> pool_db \<Rightarrow> (int \<times> pool_db) res" where
  "upsert_worker userId name now db =
     (case find (\<lambda>k. wk_userId k = userId \<and> wk_name k = name) (db_workers db) of
        Some k \<Rightarrow> Inr (wk_id k, db\<lparr>db_workers := map (\<lambda>x. if wk_id x = wk_id k then x\<lparr>wk_lastSeenAt := now\<rparr> else x) (db_workers db)\<rparr>)
      | None \<Rightarrow>
          if \<not> has_user userId db then Inl (Error ''foreign key violation'')
          else Inr (db_nextId db, db\<lparr>db_workers := db_workers db @
                 [\<lparr>wk_id = db_nextId db, wk_userId = userId, wk_name = name, wk_lastDifficulty = None, wk_lastSeenAt = now,
                   wk_rejected = \<lambda>_. 0, wk_lastReject = None\<rparr>],
               db_nextId := db_nextId db + 1\<rparr>))"

definition worker_key :: "int \<Rightarrow> string \<Rightarrow> string" where
  "worker_key userId name = dec_of_int userId @ ''|'' @ name"

definition resolveWorkerId ::
  "writer_env \<Rightarrow> int \<Rightarrow> string \<Rightarrow> pool_db \<Rightarrow> share_writer \<Rightarrow> int res \<times> pool_db \<times> share_writer" where
  "resolveWorkerId env userId name db w =
     (let key = worker_key userId name in
      case jsmap_get (wr_workerIdCache w) key of
        Some hit \<Rightarrow> (Inr hit, db, w)
      | None \<Rightarrow>
          if \<not> we_query env then (Inl (Error ''query failed''), db, w)
          else case upsert_worker userId name (we_now env) db of
            Inl e \<Rightarrow> (Inl e, db, w)
          | Inr (i, db) \<Rightarrow> (Inr i, db, w\<lparr>wr_workerIdCache := jsmap_set key i (wr_workerIdCache w)\<rparr>))"

text \<open>Both lookups, as \<^verbatim>\<open>accept\<close> and \<^verbatim>\<open>acceptSig\<close> start with.\<close>

definition resolve ::
  "writer_env \<Rightarrow> string \<Rightarrow> string \<Rightarrow> pool_db \<Rightarrow> share_writer \<Rightarrow> (int option \<times> int option) res \<times> pool_db \<times> share_writer" where
  "resolve env user workerName db w =
     (case resolveUserId env user db w of
        (Inl e, w) \<Rightarrow> (Inl e, db, w)
      | (Inr None, w) \<Rightarrow> (Inr (None, None), db, w)
      | (Inr (Some userId), w) \<Rightarrow>
          (case resolveWorkerId env userId workerName db w of
             (Inl e, db, w) \<Rightarrow> (Inl e, db, w)
           | (Inr workerId, db, w) \<Rightarrow> (Inr (Some userId, Some workerId), db, w)))"

section \<open>Flushing\<close>

text \<open>Taking the buffers; \<^verbatim>\<open>None\<close> when all of them are empty.\<close>

definition flush_begin :: "share_writer \<Rightarrow> batch option \<times> share_writer" where
  "flush_begin w =
     (if wr_buf w = [] \<and> wr_rejectBuf w = [] \<and> wr_sigBuf w = [] then (None, w)
      else (Some \<lparr>ba_shares = wr_buf w, ba_rejects = wr_rejectBuf w, ba_sigs = wr_sigBuf w\<rparr>,
            w\<lparr>wr_buf := [], wr_rejectBuf := [], wr_sigBuf := []\<rparr>))"

definition update_worker :: "int \<Rightarrow> (worker_row \<Rightarrow> worker_row) \<Rightarrow> pool_db \<Rightarrow> pool_db" where
  "update_worker i f db = db\<lparr>db_workers := map (\<lambda>k. if wk_id k = i then f k else k) (db_workers db)\<rparr>"

definition insertSignature ::
  "int option \<Rightarrow> int option \<Rightarrow> int option \<Rightarrow> share_attest \<Rightarrow> int \<Rightarrow> pool_db \<Rightarrow> pool_db" where
  "insertSignature shareId userId workerId attest timestampMs db = db\<lparr>db_signatures := db_signatures db @
     [\<lparr>sw_shareId = shareId, sw_userId = userId, sw_workerId = workerId, sw_attest = attest, sw_submittedAt = timestampMs\<rparr>]\<rparr>"

definition write_share :: "buffered_share \<Rightarrow> pool_db \<Rightarrow> pool_db" where
  "write_share s db =
     (let e = bs_event s;
          (shareId, db) = (case (bs_userId s, bs_workerId s) of
              (Some userId, Some workerId) \<Rightarrow>
                (Some (db_nextId db),
                 update_worker workerId (\<lambda>k. k\<lparr>wk_lastDifficulty := Some (se_diff e), wk_lastSeenAt := se_timestampMs e\<rparr>)
                   (db\<lparr>db_shares := db_shares db @ [\<lparr>sr_id = db_nextId db, sr_userId = userId, sr_workerId = workerId,
                         sr_diff = se_diff e, sr_isBlock = se_isBlock e, sr_blockHash = se_blockHash e,
                         sr_submittedAt = se_timestampMs e\<rparr>],
                       db_nextId := db_nextId db + 1\<rparr>))
            | _ \<Rightarrow> (None, db))
      in case se_attest e of
           None \<Rightarrow> db
         | Some attest \<Rightarrow> insertSignature shareId (bs_userId s) (bs_workerId s) attest (se_timestampMs e) db)"

definition write_sig :: "buffered_sig \<Rightarrow> pool_db \<Rightarrow> pool_db" where
  "write_sig s = insertSignature None (bg_userId s) (bg_workerId s) (sg_attest (bg_event s)) (sg_timestampMs (bg_event s))"

definition reject_text :: "reject_reason \<Rightarrow> string" where
  "reject_text r = (case r of RDuplicate \<Rightarrow> ''duplicate'' | RLowDiff \<Rightarrow> ''low-diff'' | RInvalid \<Rightarrow> ''invalid'' | ROther \<Rightarrow> ''other'')"

definition write_reject :: "buffered_reject \<Rightarrow> pool_db \<Rightarrow> pool_db" where
  "write_reject r db =
     (let e = br_event r; column = rejectColumn (reject_text (re_reason e)) in
      update_worker (br_workerId r) (\<lambda>k. k\<lparr>wk_rejected := (wk_rejected k)(column := wk_rejected k column + 1),
        wk_lastReject := Some (re_reason e, re_timestampMs e), wk_lastSeenAt := re_timestampMs e\<rparr>) db)"

definition write_batch :: "batch \<Rightarrow> pool_db \<Rightarrow> pool_db res" where
  "write_batch b db = Inr (fold write_reject (ba_rejects b) (fold write_sig (ba_sigs b) (fold write_share (ba_shares b) db)))"

definition minuteStartMs :: "int \<Rightarrow> int" where
  "minuteStartMs timestampMs = timestampMs - timestampMs mod 60000"

definition addAnon :: "int \<Rightarrow> jsnum \<Rightarrow> share_writer \<Rightarrow> share_writer" where
  "addAnon timestampMs diff w =
     (let key = minuteStartMs timestampMs;
          (d, n) = (case jsmap_get (wr_anonByMinute w) key of None \<Rightarrow> (Fin 0, 0) | Some cur \<Rightarrow> cur)
      in w\<lparr>wr_anonByMinute := jsmap_set key (js_add d diff, n + 1) (wr_anonByMinute w)\<rparr>)"

definition flush_end :: "writer_env \<Rightarrow> batch \<Rightarrow> pool_db \<Rightarrow> share_writer \<Rightarrow> pool_db \<times> share_writer" where
  "flush_end env b db w =
     (case tx (we_commit env) (write_batch b) db of
        (Inr _, db) \<Rightarrow>
          (db, fold (\<lambda>s w. if bs_userId s \<noteq> None then w else addAnon (se_timestampMs (bs_event s)) (se_diff (bs_event s)) w)
                 (ba_shares b) w)
      | (Inl _, db) \<Rightarrow>
          (db, w\<lparr>wr_buf := ba_shares b @ wr_buf w, wr_rejectBuf := ba_rejects b @ wr_rejectBuf w,
                 wr_sigBuf := ba_sigs b @ wr_sigBuf w\<rparr>))"

section \<open>Events\<close>

text \<open>Each returns the batch of the flush that it starts, if the buffer is over its limit.\<close>

definition accept ::
  "writer_env \<Rightarrow> share_event \<Rightarrow> pool_db \<Rightarrow> share_writer \<Rightarrow> batch option res \<times> pool_db \<times> share_writer" where
  "accept env s db w =
     (case resolve env (se_user s) (se_workerName s) db w of
        (Inl e, db, w) \<Rightarrow> (Inl e, db, w)
      | (Inr (userId, workerId), db, w) \<Rightarrow>
          let w = w\<lparr>wr_buf := wr_buf w @ [\<lparr>bs_event = s, bs_userId = userId, bs_workerId = workerId\<rparr>]\<rparr> in
          if length (wr_buf w) > 500 then let (b, w) = flush_begin w in (Inr b, db, w) else (Inr None, db, w))"

definition acceptReject ::
  "writer_env \<Rightarrow> reject_event \<Rightarrow> pool_db \<Rightarrow> share_writer \<Rightarrow> batch option res \<times> pool_db \<times> share_writer" where
  "acceptReject env s db w =
     (case resolve env (re_user s) (re_workerName s) db w of
        (Inl e, db, w) \<Rightarrow> (Inl e, db, w)
      | (Inr (Some userId, Some workerId), db, w) \<Rightarrow>
          let w = w\<lparr>wr_rejectBuf := wr_rejectBuf w @ [\<lparr>br_event = s, br_userId = userId, br_workerId = workerId\<rparr>]\<rparr> in
          if length (wr_rejectBuf w) > 500 then let (b, w) = flush_begin w in (Inr b, db, w) else (Inr None, db, w)
      | (Inr _, db, w) \<Rightarrow> (Inr None, db, w))"

definition acceptSig ::
  "writer_env \<Rightarrow> share_sig_event \<Rightarrow> pool_db \<Rightarrow> share_writer \<Rightarrow> batch option res \<times> pool_db \<times> share_writer" where
  "acceptSig env s db w =
     (case resolve env (sg_user s) (sg_workerName s) db w of
        (Inl e, db, w) \<Rightarrow> (Inl e, db, w)
      | (Inr (userId, workerId), db, w) \<Rightarrow>
          let w = w\<lparr>wr_sigBuf := wr_sigBuf w @ [\<lparr>bg_event = s, bg_userId = userId, bg_workerId = workerId\<rparr>]\<rparr> in
          if length (wr_sigBuf w) > 500 then let (b, w) = flush_begin w in (Inr b, db, w) else (Inr None, db, w))"

section \<open>Hashrate buckets\<close>

text \<open>The tables \<^verbatim>\<open>hashrate_buckets\<close> and \<^verbatim>\<open>pool_hashrate_buckets\<close> by primary key.\<close>

record bucket_tables =
  bt_users :: "(int \<times> int, jsnum \<times> int) jsmap"
  bt_pool :: "(int, jsnum \<times> int \<times> int) jsmap"

definition minute_shares :: "int \<Rightarrow> pool_db \<Rightarrow> share_row list" where
  "minute_shares t db = filter (\<lambda>r. t \<le> sr_submittedAt r \<and> sr_submittedAt r < t + 60000) (db_shares db)"

text \<open>\<^verbatim>\<open>SUM(diff) * 4294967296.0 / 60.0\<close> in double arithmetic, adding in the order of the table.\<close>

definition minute_hashrate :: "share_row list \<Rightarrow> jsnum" where
  "minute_hashrate rows = js_div (js_mul (fold (\<lambda>r sum. js_add sum (sr_diff r)) rows (Fin 0)) (Fin 4294967296)) (Fin 60)"

definition roll_users :: "int \<Rightarrow> share_row list \<Rightarrow> bucket_tables \<Rightarrow> bucket_tables" where
  "roll_users t rows bt = bt\<lparr>bt_users := fold (\<lambda>u m. let mine = filter (\<lambda>r. sr_userId r = u) rows in
      jsmap_set (u, t) (minute_hashrate mine, int (length mine)) m) (remdups (map sr_userId rows)) (bt_users bt)\<rparr>"

definition roll_pool :: "int \<Rightarrow> share_row list \<Rightarrow> bucket_tables \<Rightarrow> bucket_tables" where
  "roll_pool t rows bt = bt\<lparr>bt_pool := jsmap_set t (minute_hashrate rows, int (length rows), int (card (set (map sr_userId rows)))) (bt_pool bt)\<rparr>"

definition roll_anon :: "int \<Rightarrow> anon_total option \<Rightarrow> bucket_tables \<Rightarrow> bucket_tables" where
  "roll_anon t anon bt = (case anon of
     None \<Rightarrow> bt
   | Some (d, n) \<Rightarrow>
       if n > 0 then bt\<lparr>bt_pool := map (\<lambda>(k, (h, c, m)). (k, if k = t then (js_add h (hashrateFromShares d (Fin 60)), c + n, m) else (h, c, m)))
         (bt_pool bt)\<rparr>
       else bt)"

definition rollBucket :: "writer_env \<Rightarrow> pool_db \<Rightarrow> bucket_tables \<Rightarrow> share_writer \<Rightarrow> bucket_tables \<times> share_writer" where
  "rollBucket env db bt w =
     (let t = minuteStartMs (we_now env) - 60000 in
      if wr_lastBucketAt w = Some t then (bt, w)
      else let w = w\<lparr>wr_lastBucketAt := Some t\<rparr>; rows = minute_shares t db in
        if we_commit env
        then (roll_anon t (jsmap_get (wr_anonByMinute w) t) (roll_pool t rows (roll_users t rows bt)),
              w\<lparr>wr_anonByMinute := jsmap_delete t (wr_anonByMinute w)\<rparr>)
        else (bt, w))"

section \<open>What a flush writes\<close>

text \<open>The contents of a row of \<^verbatim>\<open>shares\<close>, and those of the buffered shares that get one.\<close>

definition row_content :: "share_row \<Rightarrow> int \<times> int \<times> jsnum \<times> bool \<times> string option \<times> int" where
  "row_content r = (sr_userId r, sr_workerId r, sr_diff r, sr_isBlock r, sr_blockHash r, sr_submittedAt r)"

definition share_content :: "buffered_share \<Rightarrow> (int \<times> int \<times> jsnum \<times> bool \<times> string option \<times> int) option" where
  "share_content s = (case (bs_userId s, bs_workerId s) of
     (Some u, Some k) \<Rightarrow> Some (u, k, se_diff (bs_event s), se_isBlock (bs_event s), se_blockHash (bs_event s), se_timestampMs (bs_event s))
   | _ \<Rightarrow> None)"

text \<open>The contents of a row of \<^verbatim>\<open>share_signatures\<close>.\<close>

definition sig_row_content :: "signature_row \<Rightarrow> int option \<times> int option \<times> share_attest \<times> int" where
  "sig_row_content r = (sw_userId r, sw_workerId r, sw_attest r, sw_submittedAt r)"

definition share_sig_content :: "buffered_share \<Rightarrow> (int option \<times> int option \<times> share_attest \<times> int) option" where
  "share_sig_content s = map_option (\<lambda>a. (bs_userId s, bs_workerId s, a, se_timestampMs (bs_event s))) (se_attest (bs_event s))"

definition sig_content :: "buffered_sig \<Rightarrow> int option \<times> int option \<times> share_attest \<times> int" where
  "sig_content s = (bg_userId s, bg_workerId s, sg_attest (bg_event s), sg_timestampMs (bg_event s))"

named_theorems batch_rows

lemma update_worker_rows [batch_rows]:
  "db_shares (update_worker i f db) = db_shares db" "db_signatures (update_worker i f db) = db_signatures db"
  "db_blocks (update_worker i f db) = db_blocks db" "db_entries (update_worker i f db) = db_entries db"
  "db_nextId (update_worker i f db) = db_nextId db"
  by (simp_all add: update_worker_def)

lemma write_share_rows [batch_rows]:
  "map row_content (db_shares (write_share s db)) = map row_content (db_shares db) @ (case share_content s of None \<Rightarrow> [] | Some c \<Rightarrow> [c])"
  "map sig_row_content (db_signatures (write_share s db)) =
     map sig_row_content (db_signatures db) @ (case share_sig_content s of None \<Rightarrow> [] | Some c \<Rightarrow> [c])"
  by (auto simp: write_share_def share_content_def share_sig_content_def row_content_def sig_row_content_def insertSignature_def
      batch_rows Let_def split: option.split)

lemma fold_write_share_rows [batch_rows]:
  "map row_content (db_shares (fold write_share ss db)) = map row_content (db_shares db) @ List.map_filter share_content ss"
  "map sig_row_content (db_signatures (fold write_share ss db)) = map sig_row_content (db_signatures db) @ List.map_filter share_sig_content ss"
  by (induction ss arbitrary: db) (auto simp: batch_rows map_filter_simps split: option.split)

lemma fold_write_sig_rows [batch_rows]:
  "db_shares (fold write_sig gs db) = db_shares db"
  "map sig_row_content (db_signatures (fold write_sig gs db)) = map sig_row_content (db_signatures db) @ map sig_content gs"
  by (induction gs arbitrary: db) (auto simp: write_sig_def insertSignature_def sig_row_content_def sig_content_def)

lemma fold_write_reject_rows [batch_rows]:
  "db_shares (fold write_reject rs db) = db_shares db" "db_signatures (fold write_reject rs db) = db_signatures db"
  by (induction rs arbitrary: db) (auto simp: write_reject_def batch_rows Let_def)

lemma write_batch_rows:
  assumes "write_batch b db = Inr db'"
  shows "map row_content (db_shares db') = map row_content (db_shares db) @ List.map_filter share_content (ba_shares b)"
    "map sig_row_content (db_signatures db') = map sig_row_content (db_signatures db) @
       List.map_filter share_sig_content (ba_shares b) @ map sig_content (ba_sigs b)"
  using assms by (auto simp: write_batch_def batch_rows)

end
