(* ===== verification/Pool_Daemon.thy ===== *)
theory Pool_Daemon
  imports Payouts Share_Writer
begin

text \<open>
  The pool daemon (\<^verbatim>\<open>pool/main.ts\<close>): the dispatch of messages from the stratum service to the share
  writer and the block recorder, beside the flush timer, the bucket timer, the confirmer and the payout
  job. \<open>daemon_step\<close> is one event of the process. A flush that has begun stays in \<open>dm_inflight\<close> until
  its transaction ends, so messages, timers and other flushes interleave with it.

  The promises of the message handlers are not awaited and have no handler: an error in one of them is
  an unhandled rejection, on which the process ends (\<open>dm_down\<close>).
\<close>

section \<open>The process\<close>

datatype ipc_message = MsgShare share_event | MsgSig share_sig_event | MsgReject reject_event

record daemon =
  dm_db :: pool_db
  dm_buckets :: bucket_tables
  dm_writer :: share_writer
  dm_inflight :: "batch list"
  dm_down :: bool

definition newDaemon :: "pool_db \<Rightarrow> bucket_tables \<Rightarrow> daemon" where
  "newDaemon db bt = \<lparr>dm_db = db, dm_buckets = bt, dm_writer = newShareWriter, dm_inflight = [], dm_down = False\<rparr>"

text \<open>What a message handler leaves: the flush it started, or the end of the process.\<close>

definition handled :: "batch option res \<times> pool_db \<times> share_writer \<Rightarrow> daemon \<Rightarrow> daemon" where
  "handled r d = (case r of
     (Inl _, db, w) \<Rightarrow> d\<lparr>dm_db := db, dm_writer := w, dm_down := True\<rparr>
   | (Inr b, db, w) \<Rightarrow> d\<lparr>dm_db := db, dm_writer := w,
       dm_inflight := dm_inflight d @ (case b of None \<Rightarrow> [] | Some b \<Rightarrow> [b])\<rparr>)"

definition record_block :: "pool_env \<Rightarrow> share_event \<Rightarrow> daemon \<Rightarrow> daemon" where
  "record_block penv s d =
     (if \<not> se_isBlock s then d
      else case recordFoundBlock penv s (dm_db d) of
        (Inl _, db) \<Rightarrow> d\<lparr>dm_db := db, dm_down := True\<rparr>
      | (Inr _, db) \<Rightarrow> d\<lparr>dm_db := db\<rparr>)"

definition onMessage :: "writer_env \<Rightarrow> pool_env \<Rightarrow> ipc_message \<Rightarrow> daemon \<Rightarrow> daemon" where
  "onMessage wenv penv msg d = (case msg of
     MsgReject r \<Rightarrow> handled (acceptReject wenv r (dm_db d) (dm_writer d)) d
   | MsgSig s \<Rightarrow> handled (acceptSig wenv s (dm_db d) (dm_writer d)) d
   | MsgShare s \<Rightarrow> record_block penv s (handled (accept wenv s (dm_db d) (dm_writer d)) d))"

definition flushTimer :: "daemon \<Rightarrow> daemon" where
  "flushTimer d = (case flush_begin (dm_writer d) of
     (None, w) \<Rightarrow> d\<lparr>dm_writer := w\<rparr>
   | (Some b, w) \<Rightarrow> d\<lparr>dm_writer := w, dm_inflight := dm_inflight d @ [b]\<rparr>)"

text \<open>The transaction of one of the running flushes ends.\<close>

definition flushDone :: "writer_env \<Rightarrow> nat \<Rightarrow> daemon \<Rightarrow> daemon" where
  "flushDone wenv k d =
     (if k < length (dm_inflight d) then
        let (db, w) = flush_end wenv (dm_inflight d ! k) (dm_db d) (dm_writer d) in
        d\<lparr>dm_db := db, dm_writer := w, dm_inflight := take k (dm_inflight d) @ drop (Suc k) (dm_inflight d)\<rparr>
      else d)"

definition bucketTimer :: "writer_env \<Rightarrow> daemon \<Rightarrow> daemon" where
  "bucketTimer wenv d =
     (let (bt, w) = rollBucket wenv (dm_db d) (dm_buckets d) (dm_writer d) in d\<lparr>dm_buckets := bt, dm_writer := w\<rparr>)"

datatype daemon_event =
  Message writer_env pool_env ipc_message
| FlushTimer
| FlushDone writer_env nat
| BucketTimer writer_env
| ConfirmerTimer pool_env pool_config
| PayoutTimer pool_env pool_config

definition daemon_step :: "daemon_event \<Rightarrow> daemon \<Rightarrow> daemon" where
  "daemon_step ev d =
     (if dm_down d then d
      else case ev of
        Message wenv penv msg \<Rightarrow> onMessage wenv penv msg d
      | FlushTimer \<Rightarrow> flushTimer d
      | FlushDone wenv k \<Rightarrow> flushDone wenv k d
      | BucketTimer wenv \<Rightarrow> bucketTimer wenv d
      | ConfirmerTimer penv cfg \<Rightarrow> d\<lparr>dm_db := confirmer_tick penv cfg (dm_db d)\<rparr>
      | PayoutTimer penv cfg \<Rightarrow> d\<lparr>dm_db := snd (snd (doPayouts penv cfg (dm_db d)))\<rparr>)"

definition daemon_run :: "daemon_event list \<Rightarrow> daemon \<Rightarrow> daemon" where
  "daemon_run evs d = fold daemon_step evs d"

section \<open>Accepted events\<close>

text \<open>What an event adds to the buffers: a message whose lookups succeed.\<close>

definition accepted_shares :: "daemon_event \<Rightarrow> daemon \<Rightarrow> buffered_share list" where
  "accepted_shares ev d =
     (if dm_down d then [] else case ev of
        Message wenv _ (MsgShare s) \<Rightarrow>
          (case fst (resolve wenv (se_user s) (se_workerName s) (dm_db d) (dm_writer d)) of
             Inl _ \<Rightarrow> [] | Inr (u, k) \<Rightarrow> [\<lparr>bs_event = s, bs_userId = u, bs_workerId = k\<rparr>])
      | _ \<Rightarrow> [])"

definition accepted_sigs :: "daemon_event \<Rightarrow> daemon \<Rightarrow> buffered_sig list" where
  "accepted_sigs ev d =
     (if dm_down d then [] else case ev of
        Message wenv _ (MsgSig s) \<Rightarrow>
          (case fst (resolve wenv (sg_user s) (sg_workerName s) (dm_db d) (dm_writer d)) of
             Inl _ \<Rightarrow> [] | Inr (u, k) \<Rightarrow> [\<lparr>bg_event = s, bg_userId = u, bg_workerId = k\<rparr>])
      | _ \<Rightarrow> [])"

fun along :: "(daemon_event \<Rightarrow> daemon \<Rightarrow> 'a list) \<Rightarrow> daemon_event list \<Rightarrow> daemon \<Rightarrow> 'a list" where
  "along f [] d = []"
| "along f (ev # evs) d = f ev d @ along f evs (daemon_step ev d)"

text \<open>What is neither written nor lost: the buffers and the running flushes.\<close>

definition pending_shares :: "daemon \<Rightarrow> buffered_share list" where
  "pending_shares d = wr_buf (dm_writer d) @ concat (map ba_shares (dm_inflight d))"

definition pending_sigs :: "daemon \<Rightarrow> buffered_sig list" where
  "pending_sigs d = wr_sigBuf (dm_writer d) @ concat (map ba_sigs (dm_inflight d))"

definition share_count :: "daemon \<Rightarrow> (int \<times> int \<times> jsnum \<times> bool \<times> string option \<times> int) multiset" where
  "share_count d = mset (map row_content (db_shares (dm_db d))) + mset (List.map_filter share_content (pending_shares d))"

definition sig_count :: "daemon \<Rightarrow> (int option \<times> int option \<times> share_attest \<times> int) multiset" where
  "sig_count d = mset (map sig_row_content (db_signatures (dm_db d))) +
     mset (List.map_filter share_sig_content (pending_shares d)) + mset (map sig_content (pending_sigs d))"

section \<open>Conservation\<close>

text \<open>What a statement leaves of the ledger's tables.\<close>

definition ledger_frame :: "pool_db \<Rightarrow> pool_db \<Rightarrow> bool" where
  "ledger_frame db db' \<longleftrightarrow> db_blocks db' = db_blocks db \<and> db_entries db' = db_entries db \<and> db_payouts db' = db_payouts db \<and>
     db_recipients db' = db_recipients db \<and> db_nextId db \<le> db_nextId db'"

lemma ledger_frame_trans: "ledger_frame a b \<Longrightarrow> ledger_frame b c \<Longrightarrow> ledger_frame a c"
  by (auto simp: ledger_frame_def)

lemma ledger_frame_refl [simp]: "ledger_frame a a"
  by (simp add: ledger_frame_def)

lemma pool_reach_frame: "pool_reach db \<Longrightarrow> ledger_frame db db' \<Longrightarrow> pool_reach db'"
  using pool_reach.other [of db "db_nextId db'", where us = "db_users db'" and ws = "db_workers db'" and ss = "db_shares db'" and sg = "db_signatures db'"]
  by (cases db, cases db') (simp add: ledger_frame_def)

lemma resolveUserId_frame:
  "resolveUserId env email db w = (r, w') \<Longrightarrow> wr_buf w' = wr_buf w \<and> wr_sigBuf w' = wr_sigBuf w \<and> wr_rejectBuf w' = wr_rejectBuf w"
  by (auto simp: resolveUserId_def split: if_splits option.splits)

lemma resolveWorkerId_frame:
  "resolveWorkerId env u name db w = (r, db', w') \<Longrightarrow>
   wr_buf w' = wr_buf w \<and> wr_sigBuf w' = wr_sigBuf w \<and> wr_rejectBuf w' = wr_rejectBuf w \<and>
   db_shares db' = db_shares db \<and> db_signatures db' = db_signatures db \<and> ledger_frame db db'"
  by (auto simp: resolveWorkerId_def upsert_worker_def ledger_frame_def Let_def split: if_splits option.splits)

lemma resolve_frame:
  assumes "resolve env user k db w = (r, db', w')"
  shows "wr_buf w' = wr_buf w \<and> wr_sigBuf w' = wr_sigBuf w \<and> wr_rejectBuf w' = wr_rejectBuf w \<and>
    db_shares db' = db_shares db \<and> db_signatures db' = db_signatures db \<and> ledger_frame db db'"
proof -
  obtain r1 w1 where u: "resolveUserId env user db w = (r1, w1)" by fastforce
  note f = resolveUserId_frame [OF u]
  consider e where "r1 = Inl e" | "r1 = Inr None" | i where "r1 = Inr (Some i)" by (cases r1) auto
  then show ?thesis
  proof cases
    case (3 i)
    obtain r2 db2 w2 where k: "resolveWorkerId env i k db w1 = (r2, db2, w2)" by (cases "resolveWorkerId env i k db w1")
    then show ?thesis using assms f resolveWorkerId_frame [OF k] by (auto simp: resolve_def u 3 split: sum.splits)
  qed (use assms f in \<open>auto simp: resolve_def u\<close>)
qed

text \<open>A flush that begins moves the buffers, one that ends writes or puts back its batch.\<close>

definition batch_of :: "batch option \<Rightarrow> batch" where
  "batch_of b = (case b of None \<Rightarrow> \<lparr>ba_shares = [], ba_rejects = [], ba_sigs = []\<rparr> | Some b \<Rightarrow> b)"

lemma flush_begin_moves:
  "flush_begin w = (b, w') \<Longrightarrow> ba_shares (batch_of b) = wr_buf w \<and> ba_sigs (batch_of b) = wr_sigBuf w \<and>
     ba_rejects (batch_of b) = wr_rejectBuf w \<and> wr_buf w' = [] \<and> wr_sigBuf w' = [] \<and> wr_rejectBuf w' = []"
  by (auto simp: flush_begin_def batch_of_def split: if_splits)

lemma addAnon_frame: "wr_buf (addAnon t d w) = wr_buf w" "wr_sigBuf (addAnon t d w) = wr_sigBuf w"
  by (simp_all add: addAnon_def Let_def split: prod.split)

lemma fold_addAnon_frame:
  "wr_buf (fold (\<lambda>s w. if c s then w else addAnon (t s) (d s) w) ss w) = wr_buf w"
  "wr_sigBuf (fold (\<lambda>s w. if c s then w else addAnon (t s) (d s) w) ss w) = wr_sigBuf w"
  by (induction ss arbitrary: w) (simp_all add: addAnon_frame)

lemma flush_end_count:
  assumes "flush_end env b db w = (db', w')"
  shows "mset (map row_content (db_shares db')) + mset (List.map_filter share_content (wr_buf w')) =
      mset (map row_content (db_shares db)) + mset (List.map_filter share_content (ba_shares b @ wr_buf w)) \<and>
    mset (map sig_row_content (db_signatures db')) + mset (List.map_filter share_sig_content (wr_buf w')) + mset (map sig_content (wr_sigBuf w')) =
      mset (map sig_row_content (db_signatures db)) + mset (List.map_filter share_sig_content (ba_shares b @ wr_buf w)) +
      mset (map sig_content (ba_sigs b @ wr_sigBuf w))"
proof -
  obtain db1 where b: "write_batch b db = Inr db1" by (simp add: write_batch_def)
  show ?thesis
    using assms write_batch_rows [OF b]
    by (cases "we_commit env") (auto simp: flush_end_def tx_def b fold_addAnon_frame map_filter_append simp del: map_append)
qed

text \<open>The result of a message handler that adds shares \<open>xs\<close> and signatures \<open>gs\<close> to the buffers.\<close>

definition started :: "batch option res \<Rightarrow> batch option" where
  "started r = (case r of Inl _ \<Rightarrow> None | Inr b \<Rightarrow> b)"

definition grew ::
  "batch option res \<times> pool_db \<times> share_writer \<Rightarrow> pool_db \<Rightarrow> share_writer \<Rightarrow> buffered_share list \<Rightarrow> buffered_sig list \<Rightarrow> bool" where
  "grew r db w xs gs \<longleftrightarrow> (case r of (b, db', w') \<Rightarrow>
     db_shares db' = db_shares db \<and> db_signatures db' = db_signatures db \<and> ledger_frame db db' \<and>
     wr_buf w' @ ba_shares (batch_of (started b)) = wr_buf w @ xs \<and> wr_sigBuf w' @ ba_sigs (batch_of (started b)) = wr_sigBuf w @ gs)"

lemma batch_of_None [simp]: "ba_shares (batch_of None) = []" "ba_sigs (batch_of None) = []"
  by (simp_all add: batch_of_def)

lemma batch_of_Some [simp]: "batch_of (Some b) = b"
  by (simp add: batch_of_def)

lemma started_simps [simp]: "started (Inl e) = None" "started (Inr b) = b"
  by (simp_all add: started_def)

lemma push_grew:
  assumes "db_shares db' = db_shares db" "db_signatures db' = db_signatures db" "ledger_frame db db'"
    and "wr_buf w' = wr_buf w @ xs" "wr_sigBuf w' = wr_sigBuf w @ gs"
  shows "grew (if c then let (b, w) = flush_begin w' in (Inr b, db', w) else (Inr None, db', w')) db w xs gs"
proof -
  obtain b w2 where b: "flush_begin w' = (b, w2)" by fastforce
  show ?thesis using assms flush_begin_moves [OF b] by (auto simp: b grew_def)
qed

lemma accept_grew: "grew (accept env s db w) db w
    (case fst (resolve env (se_user s) (se_workerName s) db w) of
       Inl _ \<Rightarrow> [] | Inr (u, k) \<Rightarrow> [\<lparr>bs_event = s, bs_userId = u, bs_workerId = k\<rparr>]) []"
proof -
  obtain r db1 w1 where r: "resolve env (se_user s) (se_workerName s) db w = (r, db1, w1)" by (cases "resolve env (se_user s) (se_workerName s) db w")
  note f = resolve_frame [OF r]
  have "r = Inr (u, k) \<Longrightarrow> ?thesis" for u k
    unfolding accept_def r Let_def by (simp split del: if_split) (rule push_grew [unfolded Let_def], simp_all add: f)
  moreover have "r = Inl e \<Longrightarrow> ?thesis" for e using f by (simp add: accept_def r grew_def)
  ultimately show ?thesis by (cases r) auto
qed

lemma acceptSig_grew: "grew (acceptSig env s db w) db w []
    (case fst (resolve env (sg_user s) (sg_workerName s) db w) of
       Inl _ \<Rightarrow> [] | Inr (u, k) \<Rightarrow> [\<lparr>bg_event = s, bg_userId = u, bg_workerId = k\<rparr>])"
proof -
  obtain r db1 w1 where r: "resolve env (sg_user s) (sg_workerName s) db w = (r, db1, w1)" by (cases "resolve env (sg_user s) (sg_workerName s) db w")
  note f = resolve_frame [OF r]
  have "r = Inr (u, k) \<Longrightarrow> ?thesis" for u k
    unfolding acceptSig_def r Let_def by (simp split del: if_split) (rule push_grew [unfolded Let_def], simp_all add: f)
  moreover have "r = Inl e \<Longrightarrow> ?thesis" for e using f by (simp add: acceptSig_def r grew_def)
  ultimately show ?thesis by (cases r) auto
qed

lemma acceptReject_grew: "grew (acceptReject env s db w) db w [] []"
proof -
  obtain r db1 w1 where r: "resolve env (re_user s) (re_workerName s) db w = (r, db1, w1)" by (cases "resolve env (re_user s) (re_workerName s) db w")
  note f = resolve_frame [OF r]
  have push: "r = Inr (Some u, Some k) \<Longrightarrow> ?thesis" for u k
    unfolding acceptReject_def r Let_def by (simp split del: if_split) (rule push_grew [unfolded Let_def], simp_all add: f)
  have skip: "?thesis" if "r = Inl e \<or> r = Inr (None, k) \<or> r = Inr (u, None)" for e u k
    using that f by (auto simp: acceptReject_def r grew_def split: option.splits)
  show ?thesis
  proof (cases r)
    case (Inr p)
    then show ?thesis using push skip by (cases "fst p"; cases "snd p") (metis prod.collapse)+
  qed (use skip in blast)
qed

lemma handled_count:
  assumes "grew r (dm_db d) (dm_writer d) xs gs"
  shows "share_count (handled r d) = share_count d + mset (List.map_filter share_content xs)"
    "sig_count (handled r d) = sig_count d + mset (List.map_filter share_sig_content xs) + mset (map sig_content gs)"
    "ledger_frame (dm_db d) (dm_db (handled r d))"
proof -
  obtain b db' w' where r: "r = (b, db', w')" by (cases r)
  let ?i = "concat (map ba_shares (dm_inflight d))" and ?j = "concat (map ba_sigs (dm_inflight d))"
  have p: "pending_shares (handled r d) = wr_buf w' @ ?i @ ba_shares (batch_of (started b))"
    "pending_sigs (handled r d) = wr_sigBuf w' @ ?j @ ba_sigs (batch_of (started b))" "dm_db (handled r d) = db'"
    by (auto simp: handled_def r pending_shares_def pending_sigs_def split: sum.split option.split)
  have m: "mset (List.map_filter f (wr_buf w' @ ?i @ ba_shares (batch_of (started b)))) =
      mset (List.map_filter f (wr_buf (dm_writer d) @ ?i)) + mset (List.map_filter f xs)" for f :: "buffered_share \<Rightarrow> 'z option"
  proof -
    have "mset (List.map_filter f (wr_buf w' @ ?i @ ba_shares (batch_of (started b)))) =
        mset (List.map_filter f (wr_buf w' @ ba_shares (batch_of (started b)))) + mset (List.map_filter f ?i)"
      by (simp add: map_filter_append)
    also have "wr_buf w' @ ba_shares (batch_of (started b)) = wr_buf (dm_writer d) @ xs" using assms by (simp add: grew_def r)
    finally show ?thesis by (simp add: map_filter_append)
  qed
  have n: "mset (map sig_content (wr_sigBuf w' @ ?j @ ba_sigs (batch_of (started b)))) =
      mset (map sig_content (wr_sigBuf (dm_writer d) @ ?j)) + mset (map sig_content gs)"
  proof -
    have "mset (map sig_content (wr_sigBuf w' @ ?j @ ba_sigs (batch_of (started b)))) =
        mset (map sig_content (wr_sigBuf w' @ ba_sigs (batch_of (started b)))) + mset (map sig_content ?j)"
      by simp
    also have "wr_sigBuf w' @ ba_sigs (batch_of (started b)) = wr_sigBuf (dm_writer d) @ gs" using assms by (simp add: grew_def r)
    finally show ?thesis by simp
  qed
  have s: "db_shares db' = db_shares (dm_db d)" "db_signatures db' = db_signatures (dm_db d)" "ledger_frame (dm_db d) db'"
    using assms by (simp_all add: grew_def r)
  show "share_count (handled r d) = share_count d + mset (List.map_filter share_content xs)"
    unfolding share_count_def p m s by (simp only: pending_shares_def ac_simps)
  show "sig_count (handled r d) = sig_count d + mset (List.map_filter share_sig_content xs) + mset (map sig_content gs)"
    unfolding sig_count_def p m n s by (simp only: pending_shares_def pending_sigs_def ac_simps)
  show "ledger_frame (dm_db d) (dm_db (handled r d))" using s p by simp
qed

lemma record_block_count:
  "share_count (record_block penv s d) = share_count d" "sig_count (record_block penv s d) = sig_count d"
proof -
  obtain r db where r: "recordFoundBlock penv s (dm_db d) = (r, db)" by fastforce
  then have "db_shares db = db_shares (dm_db d)" "db_signatures db = db_signatures (dm_db d)"
    by (auto simp: recordFoundBlock_def Let_def split: option.splits if_splits sum.splits)
  then show "share_count (record_block penv s d) = share_count d" "sig_count (record_block penv s d) = sig_count d"
    by (simp_all add: record_block_def r share_count_def sig_count_def pending_shares_def pending_sigs_def split: sum.split)
qed

lemma flushTimer_count: "share_count (flushTimer d) = share_count d" "sig_count (flushTimer d) = sig_count d"
proof -
  obtain b w where b: "flush_begin (dm_writer d) = (b, w)" by fastforce
  show "share_count (flushTimer d) = share_count d" "sig_count (flushTimer d) = sig_count d"
    using flush_begin_moves [OF b]
    by (cases b; simp add: flushTimer_def b share_count_def sig_count_def pending_shares_def pending_sigs_def map_filter_append)+
qed

lemma concat_without: "k < length xs \<Longrightarrow>
    mset (concat (map f xs)) = mset (f (xs ! k)) + mset (concat (map f (take k xs @ drop (Suc k) xs)))"
proof -
  assume "k < length xs"
  then have "xs = take k xs @ xs ! k # drop (Suc k) xs" by (rule id_take_nth_drop)
  then have "mset (concat (map f xs)) = mset (concat (map f (take k xs @ xs ! k # drop (Suc k) xs)))" by simp
  then show ?thesis by simp
qed

lemma mset_map_filter_cong: "mset xs = mset ys \<Longrightarrow> mset (List.map_filter f xs) = mset (List.map_filter f ys)"
  unfolding List.map_filter_def by simp

lemma flushDone_count: "share_count (flushDone wenv k d) = share_count d" "sig_count (flushDone wenv k d) = sig_count d"
proof -
  have "share_count (flushDone wenv k d) = share_count d \<and> sig_count (flushDone wenv k d) = sig_count d"
  proof (cases "k < length (dm_inflight d)")
    case True
    let ?b = "dm_inflight d ! k" and ?rest = "take k (dm_inflight d) @ drop (Suc k) (dm_inflight d)"
    obtain db w where e: "flush_end wenv ?b (dm_db d) (dm_writer d) = (db, w)" by fastforce
    have f: "mset (List.map_filter f (concat (map ba_shares (dm_inflight d)))) =
        mset (List.map_filter f (ba_shares ?b)) + mset (List.map_filter f (concat (map ba_shares ?rest)))" for f :: "buffered_share \<Rightarrow> 'z option"
      using mset_map_filter_cong [of "concat (map ba_shares (dm_inflight d))" "ba_shares ?b @ concat (map ba_shares ?rest)" f]
        concat_without [OF True, of ba_shares] by (simp add: map_filter_append)
    have g: "mset (map sig_content (concat (map ba_sigs (dm_inflight d)))) =
        mset (map sig_content (ba_sigs ?b)) + mset (map sig_content (concat (map ba_sigs ?rest)))"
      using arg_cong [OF concat_without [OF True, of ba_sigs], of "image_mset sig_content"] by simp
    have d: "flushDone wenv k d = d\<lparr>dm_db := db, dm_writer := w, dm_inflight := ?rest\<rparr>" using True by (simp add: flushDone_def e)
    note c = flush_end_count [OF e, unfolded map_filter_append mset_append map_append]
    show ?thesis
      unfolding d share_count_def sig_count_def pending_shares_def pending_sigs_def map_filter_append mset_append map_append f g
      using c by (simp add: ac_simps del: mset_map)
  qed (simp add: flushDone_def)
  then show "share_count (flushDone wenv k d) = share_count d" "sig_count (flushDone wenv k d) = sig_count d" by simp_all
qed

lemma confirmer_rows:
  "db_shares (confirmer_tick env cfg db) = db_shares db" "db_signatures (confirmer_tick env cfg db) = db_signatures db"
proof -
  have upd: "db_shares (update_block i f db) = db_shares db" "db_signatures (update_block i f db) = db_signatures db" for i f db
    by (simp_all add: update_block_def)
  have "db_shares (snd (creditPplns env cfg i db)) = db_shares db \<and> db_signatures (snd (creditPplns env cfg i db)) = db_signatures db" for i db
  proof -
    obtain r db' where c: "creditPplns env cfg i db = (r, db')" by fastforce
    then show ?thesis by (cases rule: creditPplns_cases) (simp_all add: c upd)
  qed
  then have "db_shares (snd (checkOne env cfg i h db)) = db_shares db \<and> db_signatures (snd (checkOne env cfg i h db)) = db_signatures db" for i h db
    by (simp add: checkOne_def Let_def upd split: sum.split option.split)
  then have t: "db_shares (fold (\<lambda>b db. snd (checkOne env cfg (bk_id b) (bk_hash b) db)) bs db) = db_shares db \<and>
      db_signatures (fold (\<lambda>b db. snd (checkOne env cfg (bk_id b) (bk_hash b) db)) bs db) = db_signatures db" for bs
    by (induction bs arbitrary: db) simp_all
  show "db_shares (confirmer_tick env cfg db) = db_shares db" "db_signatures (confirmer_tick env cfg db) = db_signatures db"
    using t [of "open_blocks db"] by (simp_all add: confirmer_tick_def)
qed

lemma insert_debits_rows: "insert_debits i ds db = Inr db' \<Longrightarrow> db_shares db' = db_shares db \<and> db_signatures db' = db_signatures db"
  by (induction i ds db rule: insert_debits.induct) (auto simp: andthen_eq_Inr throw_if_eq_Inr)

lemma doPayouts_rows:
  "db_shares (snd (snd (doPayouts env cfg db))) = db_shares db" "db_signatures (snd (snd (doPayouts env cfg db))) = db_signatures db"
proof -
  have "db_shares (snd (tx c (insert_payout i plan) db)) = db_shares db \<and> db_signatures (snd (tx c (insert_payout i plan) db)) = db_signatures db"
    for c i plan
  proof (cases "insert_payout i plan db")
    case (Inr db')
    then have "db_shares db' = db_shares db \<and> db_signatures db' = db_signatures db"
      by (auto simp: insert_payout_def andthen_eq_Inr dest!: insert_debits_rows)
    with Inr show ?thesis by (simp add: tx_def)
  qed (simp add: tx_def)
  then show "db_shares (snd (snd (doPayouts env cfg db))) = db_shares db" "db_signatures (snd (snd (doPayouts env cfg db))) = db_signatures db"
    by (simp_all add: doPayouts_def Let_def split: sum.split)
qed

lemma rollBucket_buffers: "rollBucket env db bt w = (bt', w') \<Longrightarrow> wr_buf w' = wr_buf w \<and> wr_sigBuf w' = wr_sigBuf w"
  by (auto simp: rollBucket_def Let_def split: if_splits)

lemma bucketTimer_count: "share_count (bucketTimer wenv d) = share_count d" "sig_count (bucketTimer wenv d) = sig_count d"
proof -
  obtain bt w where r: "rollBucket wenv (dm_db d) (dm_buckets d) (dm_writer d) = (bt, w)" by fastforce
  show "share_count (bucketTimer wenv d) = share_count d" "sig_count (bucketTimer wenv d) = sig_count d"
    using rollBucket_buffers [OF r]
    by (simp_all add: bucketTimer_def r share_count_def sig_count_def pending_shares_def pending_sigs_def)
qed

lemma daemon_step_count:
  "share_count (daemon_step ev d) = share_count d + mset (List.map_filter share_content (accepted_shares ev d))"
  "sig_count (daemon_step ev d) = sig_count d + mset (List.map_filter share_sig_content (accepted_shares ev d)) +
     mset (map sig_content (accepted_sigs ev d))"
proof -
  note h = handled_count [OF accept_grew] handled_count [OF acceptSig_grew] handled_count [OF acceptReject_grew]
  note c = record_block_count flushTimer_count flushDone_count bucketTimer_count
  note a = accepted_shares_def accepted_sigs_def
  note e = share_count_def sig_count_def pending_shares_def pending_sigs_def
  have m: "share_count (onMessage wenv penv msg d) = share_count d + mset (List.map_filter share_content (accepted_shares (Message wenv penv msg) d))"
    "sig_count (onMessage wenv penv msg d) = sig_count d + mset (List.map_filter share_sig_content (accepted_shares (Message wenv penv msg) d)) +
       mset (map sig_content (accepted_sigs (Message wenv penv msg) d))" if "\<not> dm_down d" for wenv penv msg
    using that by (cases msg; simp add: onMessage_def h c a map_filter_simps)+
  show "share_count (daemon_step ev d) = share_count d + mset (List.map_filter share_content (accepted_shares ev d))"
    by (cases ev) (simp_all add: daemon_step_def m c, simp_all add: a e map_filter_simps confirmer_rows doPayouts_rows)
  show "sig_count (daemon_step ev d) = sig_count d + mset (List.map_filter share_sig_content (accepted_shares ev d)) +
     mset (map sig_content (accepted_sigs ev d))"
    by (cases ev) (simp_all add: daemon_step_def m c, simp_all add: a e map_filter_simps confirmer_rows doPayouts_rows)
qed

section \<open>The ledger under the daemon\<close>

lemma write_share_frame: "ledger_frame db (write_share s db)"
  by (auto simp: write_share_def insertSignature_def update_worker_def ledger_frame_def Let_def split: option.split)

lemma write_sig_frame: "ledger_frame db (write_sig s db)"
  by (simp add: write_sig_def insertSignature_def ledger_frame_def)

lemma write_reject_frame: "ledger_frame db (write_reject r db)"
  by (simp add: write_reject_def update_worker_def ledger_frame_def Let_def)

lemma fold_frame: "(\<And>x db. ledger_frame db (f x db)) \<Longrightarrow> ledger_frame db (fold f xs db)"
  by (induction xs arbitrary: db) (auto intro: ledger_frame_trans)

lemma write_batch_frame: "write_batch b db = Inr db' \<Longrightarrow> ledger_frame db db'"
  by (auto simp: write_batch_def intro!: ledger_frame_trans [OF fold_frame [OF write_share_frame]
      ledger_frame_trans [OF fold_frame [OF write_sig_frame] fold_frame [OF write_reject_frame]]])

lemma flushDone_frame: "ledger_frame (dm_db d) (dm_db (flushDone wenv k d))"
proof -
  obtain b where b: "write_batch (dm_inflight d ! k) (dm_db d) = Inr b" by (simp add: write_batch_def)
  show ?thesis using write_batch_frame [OF b] by (simp add: flushDone_def flush_end_def tx_def b)
qed

lemma daemon_step_reach:
  assumes "pool_reach (dm_db d)"
  shows "pool_reach (dm_db (daemon_step ev d))"
proof -
  have h: "pool_reach (dm_db (handled r d))" if "grew r (dm_db d) (dm_writer d) xs gs" for r xs gs
    using assms handled_count(3) [OF that] by (rule pool_reach_frame)
  have b: "pool_reach (dm_db (record_block penv s d'))" if "pool_reach (dm_db d')" for penv s d'
    using pool_reach.found [OF that, of penv s] that by (auto simp: record_block_def split: sum.split prod.split)
  have "pool_reach (dm_db (onMessage wenv penv msg d))" for wenv penv msg
    by (cases msg) (simp_all add: onMessage_def b h [OF accept_grew] h [OF acceptSig_grew] h [OF acceptReject_grew])
  moreover have "dm_db (flushTimer d) = dm_db d" "dm_db (bucketTimer wenv d) = dm_db d" for wenv
    by (simp_all add: flushTimer_def bucketTimer_def split: prod.split option.split)
  ultimately show ?thesis
    using assms pool_reach_frame [OF assms flushDone_frame]
    by (cases ev) (simp_all add: daemon_step_def pool_reach.confirm pool_reach.pay)
qed

lemma daemon_run_count:
  "share_count (daemon_run evs d) = share_count d + mset (List.map_filter share_content (along accepted_shares evs d))"
  "sig_count (daemon_run evs d) = sig_count d + mset (List.map_filter share_sig_content (along accepted_shares evs d)) +
     mset (map sig_content (along accepted_sigs evs d))"
  unfolding daemon_run_def
  by (induction evs arbitrary: d) (simp_all add: daemon_step_count map_filter_append ac_simps map_filter_simps)

lemma newDaemon_count:
  "share_count (newDaemon db bt) = mset (map row_content (db_shares db))"
  "sig_count (newDaemon db bt) = mset (map sig_row_content (db_signatures db))"
  by (simp_all add: share_count_def sig_count_def newDaemon_def newShareWriter_def pending_shares_def pending_sigs_def map_filter_simps)

section \<open>Properties\<close>



section \<open>Failed lookups\<close>

text \<open>
  One failed lookup ends the process, and with it every buffered share and every running flush.
\<close>

theorem failed_lookup_ends_daemon:
  assumes "\<not> we_query wenv" "se_user s \<noteq> []" "CHR '':'' \<notin> set (se_user s)" "jsmap_get (wr_userIdCache (dm_writer d)) (se_user s) = None"
    and "\<not> dm_down d"
  shows "dm_down (daemon_step (Message wenv penv (MsgShare s)) d) \<and>
    pending_shares (daemon_run evs (daemon_step (Message wenv penv (MsgShare s)) d)) = pending_shares d"
proof -
  let ?d = "daemon_step (Message wenv penv (MsgShare s)) d"
  have a: "accept wenv s (dm_db d) (dm_writer d) = (Inl (Error ''query failed''), dm_db d, dm_writer d)"
    using assms by (simp add: accept_def resolve_def resolveUserId_def)
  have down: "dm_down ?d" using assms(5) by (simp add: daemon_step_def onMessage_def a handled_def record_block_def split: prod.split sum.split)
  have pend: "pending_shares ?d = pending_shares d"
    using assms(5) by (simp add: daemon_step_def onMessage_def a handled_def record_block_def pending_shares_def split: prod.split sum.split)
  have "dm_down d' \<Longrightarrow> daemon_run evs d' = d'" for d'
    unfolding daemon_run_def by (induction evs) (simp_all add: daemon_step_def)
  then show ?thesis using down pend by simp
qed

section \<open>A sample run\<close>

definition sample_writer_env :: writer_env where
  "sample_writer_env = \<lparr>we_query = True, we_commit = True, we_now = 10\<rparr>"

definition sample_run :: "daemon_event list" where
  "sample_run = [Message sample_writer_env sample_node (MsgShare sample_found), FlushTimer, FlushDone sample_writer_env 0,
     ConfirmerTimer sample_node sample_config]"


end
