(* ===== verification/Ipc.thy ===== *)
theory Ipc
  imports Stratum_Client
begin

text \<open>
  The socket between the stratum service and the pool daemon (\<^verbatim>\<open>lib/ipc.ts\<close>): one message per line,
  a client that reconnects and buffers at most 5000 lines while it has no socket, and a server that
  cuts the text of each connection into lines. \<^verbatim>\<open>JSON.stringify\<close> and \<^verbatim>\<open>JSON.parse\<close> are parameters.
\<close>

section \<open>The server\<close>

datatype 'm ipc_emit = EmitMessage 'm | EmitParseError string

text \<open>A \<^verbatim>\<open>data\<close> event of a connection whose incomplete last line is \<open>buf\<close>.\<close>

definition ipc_data :: "(string \<Rightarrow> 'm option) \<Rightarrow> string \<Rightarrow> string \<Rightarrow> 'm ipc_emit list \<times> string" where
  "ipc_data parse chunk buf =
     (let (lines, rest) = take_lines [] (buf @ chunk)
      in (map (\<lambda>line. case parse line of Some msg \<Rightarrow> EmitMessage msg | None \<Rightarrow> EmitParseError line) lines, rest))"

fun ipc_feed :: "(string \<Rightarrow> 'm option) \<Rightarrow> string list \<Rightarrow> string \<Rightarrow> 'm ipc_emit list \<times> string" where
  "ipc_feed parse [] buf = ([], buf)"
| "ipc_feed parse (chunk # chunks) buf =
     (let (out, buf) = ipc_data parse chunk buf; (outs, buf) = ipc_feed parse chunks buf in (out @ outs, buf))"

section \<open>The client\<close>

text \<open>\<open>ic_sock\<close>: no socket, or one that can or cannot be written to.\<close>

record ipc_client =
  ic_sock :: "bool option"
  ic_connecting :: bool
  ic_retryMs :: int
  ic_buffered :: "string list"
  ic_closed :: bool

definition maxBuffer :: nat where
  "maxBuffer = 5000"

definition newIpcClient :: ipc_client where
  "newIpcClient = \<lparr>ic_sock = None, ic_connecting = False, ic_retryMs = 500, ic_buffered = [], ic_closed = False\<rparr>"

definition ipc_line :: "('m \<Rightarrow> string) \<Rightarrow> 'm \<Rightarrow> string" where
  "ipc_line stringify msg = stringify msg @ [CHR 0x0A]"

text \<open>Each operation returns the lines it writes to the socket.\<close>

definition ipc_send :: "('m \<Rightarrow> string) \<Rightarrow> 'm \<Rightarrow> ipc_client \<Rightarrow> string list \<times> ipc_client" where
  "ipc_send stringify msg c =
     (let line = ipc_line stringify msg in
      if ic_sock c = Some True then ([line], c)
      else if length (ic_buffered c) < maxBuffer then ([], c\<lparr>ic_buffered := ic_buffered c @ [line]\<rparr>)
      else ([], c))"

definition ipc_connect :: "ipc_client \<Rightarrow> ipc_client" where
  "ipc_connect c = (if ic_connecting c \<or> ic_closed c then c else c\<lparr>ic_connecting := True\<rparr>)"

definition ipc_onConnect :: "ipc_client \<Rightarrow> string list \<times> ipc_client" where
  "ipc_onConnect c =
     (ic_buffered c, c\<lparr>ic_connecting := False, ic_sock := Some True, ic_retryMs := 500, ic_buffered := []\<rparr>)"

text \<open>The time until the next attempt, if there is one.\<close>

definition ipc_onClose :: "ipc_client \<Rightarrow> int option \<times> ipc_client" where
  "ipc_onClose c =
     (let c = c\<lparr>ic_sock := None, ic_connecting := False\<rparr> in
      if ic_closed c then (None, c)
      else (Some (ic_retryMs c), c\<lparr>ic_retryMs := min (ic_retryMs c * 2) 10000\<rparr>))"

definition ipc_stop :: "ipc_client \<Rightarrow> ipc_client" where
  "ipc_stop c = c\<lparr>ic_closed := True, ic_sock := None\<rparr>"

text \<open>The events of the client: \<open>Broken\<close> is a socket that is destroyed before its \<^verbatim>\<open>close\<close> event.\<close>

datatype 'm ipc_event = Send 'm | Connect | Connected | Broken | Closed | Stop

definition ipc_step :: "('m \<Rightarrow> string) \<Rightarrow> 'm ipc_event \<Rightarrow> ipc_client \<Rightarrow> string list \<times> ipc_client" where
  "ipc_step stringify ev c = (case ev of
     Send msg \<Rightarrow> ipc_send stringify msg c
   | Connect \<Rightarrow> ([], ipc_connect c)
   | Connected \<Rightarrow> if ic_connecting c then ipc_onConnect c else ([], c)
   | Broken \<Rightarrow> ([], c\<lparr>ic_sock := map_option (\<lambda>_. False) (ic_sock c)\<rparr>)
   | Closed \<Rightarrow> ([], snd (ipc_onClose c))
   | Stop \<Rightarrow> ([], ipc_stop c))"

fun ipc_run :: "('m \<Rightarrow> string) \<Rightarrow> 'm ipc_event list \<Rightarrow> ipc_client \<Rightarrow> string list \<times> ipc_client" where
  "ipc_run stringify [] c = ([], c)"
| "ipc_run stringify (ev # evs) c =
     (let (out, c) = ipc_step stringify ev c; (outs, c) = ipc_run stringify evs c in (out @ outs, c))"

text \<open>The messages the client takes: all but those sent while it has no socket and its buffer is full.\<close>

fun ipc_taken :: "('m \<Rightarrow> string) \<Rightarrow> 'm ipc_event list \<Rightarrow> ipc_client \<Rightarrow> 'm list" where
  "ipc_taken stringify [] c = []"
| "ipc_taken stringify (ev # evs) c =
     (case ev of Send msg \<Rightarrow> if ic_sock c = Some True \<or> length (ic_buffered c) < maxBuffer then [msg] else [] | _ \<Rightarrow> []) @
     ipc_taken stringify evs (snd (ipc_step stringify ev c))"

section \<open>Lines\<close>

lemma take_lines_append: "take_lines acc (s @ t) =
    (let (lines, rest) = take_lines acc s; (lines', rest') = take_lines rest t in (lines @ lines', rest'))"
  by (induction acc s rule: take_lines.induct) (auto simp: Let_def split: prod.splits)

lemma take_lines_line:
  assumes "CHR 0x0A \<notin> set s"
  shows "take_lines acc (s @ [CHR 0x0A]) = ((if trim (acc @ s) = [] then [] else [trim (acc @ s)]), [])"
  using assms by (induction s arbitrary: acc) (auto simp: Let_def)

lemma take_lines_acc: "CHR 0x0A \<notin> set s \<Longrightarrow> take_lines acc (s @ t) = take_lines (acc @ s) t"
  by (induction s arbitrary: acc) auto

lemma take_lines_rest: "CHR 0x0A \<notin> set acc \<Longrightarrow> CHR 0x0A \<notin> set (snd (take_lines acc s))"
  by (induction acc s rule: take_lines.induct) (auto simp: Let_def split: prod.splits)

text \<open>Chunking does not matter.\<close>

lemma ipc_feed_concat: "chunks \<noteq> [] \<Longrightarrow> ipc_feed parse chunks buf = ipc_data parse (concat chunks) buf"
proof (induction chunks arbitrary: buf)
  case (Cons chunk chunks)
  obtain l rest where l: "take_lines [] (buf @ chunk) = (l, rest)" by fastforce
  have "CHR 0x0A \<notin> set rest" using take_lines_rest [of "[]" "buf @ chunk"] l by simp
  then have r: "take_lines [] (rest @ t) = take_lines rest t" for t using take_lines_acc [of rest "[]" t] by simp
  have c: "take_lines [] (buf @ chunk @ t) = (let (l', r') = take_lines rest t in (l @ l', r'))" for t
    using take_lines_append [of "[]" "buf @ chunk" t] by (simp add: l)
  show ?case
    using Cons.IH by (cases "chunks = []") (auto simp: ipc_data_def l r c Let_def split: prod.splits)
qed simp

text \<open>What the server makes of the lines of a client.\<close>

lemma take_lines_lines:
  assumes "\<And>m. CHR 0x0A \<notin> set (stringify m) \<and> trim (stringify m) = stringify m \<and> stringify m \<noteq> []"
  shows "take_lines [] (concat (map (ipc_line stringify) ms)) = (map stringify ms, [])"
proof (induction ms)
  case (Cons m ms)
  have m: "take_lines [] (ipc_line stringify m) = ([stringify m], [])"
    using take_lines_line [of "stringify m" "[]"] assms [of m] by (simp add: ipc_line_def)
  show ?case
    using take_lines_append [of "[]" "ipc_line stringify m" "concat (map (ipc_line stringify) ms)"] Cons by (simp add: m)
qed simp

section \<open>Runs of the client\<close>

definition ipc_ok :: "ipc_client \<Rightarrow> bool" where
  "ipc_ok c \<longleftrightarrow> (ic_sock c = Some True \<longrightarrow> ic_buffered c = []) \<and> length (ic_buffered c) \<le> maxBuffer \<and> 500 \<le> ic_retryMs c \<and> ic_retryMs c \<le> 10000"

lemmas ipc_ops = ipc_step_def ipc_send_def ipc_connect_def ipc_onConnect_def ipc_onClose_def ipc_stop_def

lemma ipc_step_ok:
  assumes "ipc_ok c" "ipc_step stringify ev c = (out, c')"
  shows "ipc_ok c' \<and> out @ ic_buffered c' = ic_buffered c @ map (ipc_line stringify) (case ev of
    Send msg \<Rightarrow> if ic_sock c = Some True \<or> length (ic_buffered c) < maxBuffer then [msg] else [] | _ \<Rightarrow> [])"
  using assms by (cases ev) (auto simp: ipc_ok_def ipc_ops Let_def split: if_splits)

lemma ipc_run_taken:
  assumes "ipc_ok c" "ipc_run stringify evs c = (out, c')"
  shows "ipc_ok c' \<and> out @ ic_buffered c' = ic_buffered c @ map (ipc_line stringify) (ipc_taken stringify evs c)"
  using assms
proof (induction evs arbitrary: c out c')
  case (Cons ev evs)
  obtain o1 c1 where s: "ipc_step stringify ev c = (o1, c1)" by fastforce
  obtain o2 c2 where r: "ipc_run stringify evs c1 = (o2, c2)" by fastforce
  have ok: "ipc_ok c1" and o1: "o1 @ ic_buffered c1 = ic_buffered c @ map (ipc_line stringify) (case ev of
      Send msg \<Rightarrow> if ic_sock c = Some True \<or> length (ic_buffered c) < maxBuffer then [msg] else [] | _ \<Rightarrow> [])"
    using ipc_step_ok [OF Cons.prems(1) s] by blast+
  have out: "out = o1 @ o2" "c' = c2" using Cons.prems(2) by (simp_all add: s r)
  have IH: "ipc_ok c2 \<and> o2 @ ic_buffered c2 = ic_buffered c1 @ map (ipc_line stringify) (ipc_taken stringify evs c1)"
    using Cons.IH [OF ok r] .
  have "out @ ic_buffered c' = o1 @ ic_buffered c1 @ map (ipc_line stringify) (ipc_taken stringify evs c1)"
    using IH by (simp add: out)
  also have "\<dots> = (o1 @ ic_buffered c1) @ map (ipc_line stringify) (ipc_taken stringify evs c1)" by simp
  finally show ?case using IH out(2) unfolding o1 by (simp add: s)
qed simp

text \<open>
  C19: The socket delivers: whatever connections break and reconnect, the client writes and still buffers
  exactly the lines of the messages it took, in the order they were sent and none twice, with at most
  5000 buffered; and the lines written to a connection reach the daemon as exactly their messages, in
  order, however the text is cut into chunks. A serialisation is one line that \<^verbatim>\<open>JSON.parse\<close> reads back.
\<close>
theorem ipc_delivers:
  assumes "\<And>m. parse (stringify m) = Some m"
    and "\<And>m. CHR 0x0A \<notin> set (stringify m) \<and> trim (stringify m) = stringify m \<and> stringify m \<noteq> []"
    and "ipc_run stringify evs newIpcClient = (out, c)"
    and "chunks \<noteq> []" "concat chunks = concat (map (ipc_line stringify) ms)"
  shows "out @ ic_buffered c = map (ipc_line stringify) (ipc_taken stringify evs newIpcClient) \<and>
    length (ic_buffered c) \<le> 5000 \<and> ipc_feed parse chunks [] = (map EmitMessage ms, [])"
proof -
  have "ipc_ok newIpcClient" by (simp add: ipc_ok_def newIpcClient_def)
  from ipc_run_taken [OF this assms(3)]
  have "out @ ic_buffered c = map (ipc_line stringify) (ipc_taken stringify evs newIpcClient)" "length (ic_buffered c) \<le> 5000"
    by (simp_all add: ipc_ok_def maxBuffer_def newIpcClient_def)
  moreover have "ipc_feed parse chunks [] = (map EmitMessage ms, [])"
    unfolding ipc_feed_concat [OF assms(4)] ipc_data_def assms(5) using take_lines_lines [of stringify ms, OF assms(2)] by (simp add: assms(1))
  ultimately show ?thesis by simp
qed

text \<open>A serialisation of flags, and a run that loses its socket and reconnects.\<close>

definition sample_json :: "bool \<Rightarrow> string" where
  "sample_json b = (if b then ''true'' else ''false'')"

definition sample_parse :: "string \<Rightarrow> bool option" where
  "sample_parse s = (if s = ''true'' then Some True else if s = ''false'' then Some False else None)"

theorem ipc_delivers_witness:
  "\<exists>c. ipc_run sample_json [Send True, Connect, Connected, Send False, Broken, Send True] newIpcClient =
       ([ipc_line sample_json True, ipc_line sample_json False], c) \<and> ic_buffered c = [ipc_line sample_json True] \<and>
     ipc_feed sample_parse [''tr'', ''ue'' @ [CHR 0x0A] @ ''fal'', ''se'' @ [CHR 0x0A]] [] = ([EmitMessage True, EmitMessage False], [])"
proof -
  let ?evs = "[Send True, Connect, Connected, Send False, Broken, Send True]"
  let ?chunks = "[''tr'', ''ue'' @ [CHR 0x0A] @ ''fal'', ''se'' @ [CHR 0x0A]]"
  obtain c where r: "ipc_run sample_json ?evs newIpcClient = ([ipc_line sample_json True, ipc_line sample_json False], c)"
    by (simp add: ipc_ops newIpcClient_def maxBuffer_def)
  have p: "\<And>m. sample_parse (sample_json m) = Some m" by (simp add: sample_parse_def sample_json_def)
  have j: "\<And>m. CHR 0x0A \<notin> set (sample_json m) \<and> trim (sample_json m) = sample_json m \<and> sample_json m \<noteq> []"
    by (simp add: sample_json_def) code_simp
  have t: "ipc_taken sample_json ?evs newIpcClient = [True, False, True]" by (simp add: ipc_ops newIpcClient_def maxBuffer_def)
  have k: "concat ?chunks = concat (map (ipc_line sample_json) [True, False])" by (simp add: ipc_line_def sample_json_def)
  have "?chunks \<noteq> []" by simp
  note d = ipc_delivers [OF p j r this k, unfolded t]
  then have "ic_buffered c = [ipc_line sample_json True]" by simp
  then show ?thesis using r d by (intro exI [of _ c] conjI) simp_all
qed

end
