(* ===== verification/Actions.thy ===== *)
theory Actions
  imports Prelude
begin

text \<open>
  Methods of the connection servers: a method runs on a state, returns its effects in order and may throw
  after some of them. The effects before an exception have happened, and the changes of the state stay.
\<close>

type_synonym ('st, 'e, 'a) action = "'st \<Rightarrow> 'e list \<times> 'a res \<times> 'st"

definition act_of :: "'a res \<Rightarrow> ('st, 'e, 'a) action" where
  "act_of r st = ([], r, st)"

definition act_then :: "('st, 'e, 'a) action \<Rightarrow> ('a \<Rightarrow> ('st, 'e, 'b) action) \<Rightarrow> ('st, 'e, 'b) action" where
  "act_then m f st = (case m st of
     (es, Inl e, st) \<Rightarrow> (es, Inl e, st)
   | (es, Inr x, st) \<Rightarrow> (case f x st of (es', r, st) \<Rightarrow> (es @ es', r, st)))"

definition act_done :: "('st, 'e, unit) action" where
  "act_done = act_of (Inr ())"

definition on_conn :: "('c \<Rightarrow> 'c) \<Rightarrow> ('c \<times> 's, 'e, unit) action" where
  "on_conn f = (\<lambda>(c, s). ([], Inr (), f c, s))"

definition on_server :: "('s \<Rightarrow> 's) \<Rightarrow> ('c \<times> 's, 'e, unit) action" where
  "on_server f = (\<lambda>(c, s). ([], Inr (), c, f s))"

definition emit :: "'e list \<Rightarrow> ('st, 'e, unit) action" where
  "emit es st = (es, Inr (), st)"

fun act_each :: "('a \<Rightarrow> ('st, 'e, unit) action) \<Rightarrow> 'a list \<Rightarrow> ('st, 'e, unit) action" where
  "act_each f [] = act_done"
| "act_each f (x # xs) = act_then (f x) (\<lambda>_. act_each f xs)"

text \<open>The call of an asynchronous method whose promise is dropped: an exception is the effect \<open>u\<close>.\<close>

definition detached :: "(js_error \<Rightarrow> 'e) \<Rightarrow> ('st, 'e, unit) action \<Rightarrow> ('st, 'e, unit) action" where
  "detached u m st = (case m st of (es, Inl e, st) \<Rightarrow> (es @ [u e], Inr (), st) | r \<Rightarrow> r)"

lemma act_then_Inr: "m st = (es, Inr x, st') \<Longrightarrow> act_then m f st = (case f x st' of (es', r, st) \<Rightarrow> (es @ es', r, st))"
  by (simp add: act_then_def)

lemma act_then_Inl: "m st = (es, Inl e, st') \<Longrightarrow> act_then m f st = (es, Inl e, st')"
  by (simp add: act_then_def)

section \<open>Effects an action never has\<close>

definition avoids :: "'e set \<Rightarrow> ('st, 'e, 'a) action \<Rightarrow> bool" where
  "avoids E m \<longleftrightarrow> (\<forall>st. set (fst (m st)) \<inter> E = {})"

named_theorems avoids_intros

lemma avoids_of [avoids_intros]: "avoids E (act_of r)"
  by (simp add: avoids_def act_of_def)

lemma avoids_done [avoids_intros]: "avoids E act_done"
  by (simp add: avoids_def act_done_def act_of_def)

lemma avoids_conn [avoids_intros]: "avoids E (on_conn f)"
  by (auto simp: avoids_def on_conn_def)

lemma avoids_server [avoids_intros]: "avoids E (on_server f)"
  by (auto simp: avoids_def on_server_def)

lemma avoids_then [avoids_intros]:
  assumes "avoids E m" "\<And>x. avoids E (f x)"
  shows "avoids E (act_then m f)"
proof -
  have "set (fst (act_then m f st)) \<inter> E = {}" for st
  proof -
    obtain es r st' where r: "m st = (es, r, st')" by (cases "m st")
    have "set es \<inter> E = {}" using assms(1) r unfolding avoids_def by (metis fst_conv)
    moreover have "set (fst (f x st')) \<inter> E = {}" for x using assms(2) unfolding avoids_def by blast
    ultimately show ?thesis by (cases r) (auto simp: act_then_def r split: prod.splits, metis disjoint_iff fst_conv)
  qed
  then show ?thesis unfolding avoids_def by blast
qed

lemma avoids_each [avoids_intros]: "(\<And>x. avoids E (f x)) \<Longrightarrow> avoids E (act_each f xs)"
  by (induction xs) (auto intro: avoids_intros)

lemma avoids_detached [avoids_intros]: "avoids E m \<Longrightarrow> (\<And>e. u e \<notin> E) \<Longrightarrow> avoids E (detached u m)"
  unfolding avoids_def detached_def by (auto split: prod.splits sum.splits) (metis disjoint_iff fst_conv)+

lemma avoidsD: "avoids E m \<Longrightarrow> m st = (es, r, st') \<Longrightarrow> x \<in> set es \<Longrightarrow> x \<notin> E"
  unfolding avoids_def by (metis disjoint_iff fst_conv)

end
