(* ===== verification/Sv2_Channel.thy ===== *)
theory Sv2_Channel
  imports Stratum_Server Sv2_Mining_Messages
begin

text \<open>
  Channels, jobs and submissions of the Stratum V2 mining server: \<^verbatim>\<open>sv2/mining/channel.ts\<close>,
  \<^verbatim>\<open>sv2/mining/jobs.ts\<close> and \<^verbatim>\<open>sv2/mining/submit.ts\<close>. Random bytes are an argument; the properties
  relate the messages a miner gets to the header that the validator rebuilds from its share.
\<close>

section \<open>Channels\<close>

definition SV2_EXTRANONCE_TOTAL :: nat where
  "SV2_EXTRANONCE_TOTAL = 8"

datatype channel_kind = Standard | Extended

record channel_state =
  ch_id :: int
  ch_kind :: channel_kind
  ch_requestId :: int
  ch_userIdentity :: ustring
  ch_extranoncePrefix :: bytes
  ch_extranonceSize :: nat
  ch_groupChannelId :: int
  ch_targetBE :: bytes
  ch_shareDifficulty :: jsnum
  ch_lastAcceptedSequence :: int
  ch_lastJobId :: int
  ch_cleanJobs :: bool

record channel_table =
  ct_byId :: "(int, channel_state) jsmap"
  ct_nextId :: int

definition newChannelTable :: channel_table where
  "newChannelTable = \<lparr>ct_byId = [], ct_nextId = 1\<rparr>"

definition bigIntToBe32 :: "int \<Rightarrow> bytes" where
  "bigIntToBe32 n = rev (le_bytes 32 n)"

definition targetU256BE :: "jsnum \<Rightarrow> bytes res" where
  "targetU256BE shareDifficulty = andthen (targetFromShareDifficulty shareDifficulty) (\<lambda>t. Inr (bigIntToBe32 t))"

definition maxTargetU256BE :: bytes where
  "maxTargetU256BE = bigIntToBe32 POOL_DIFF1_TARGET"

text \<open>\<^verbatim>\<open>randomBytes\<close> is \<open>rand\<close>; the id is taken before the target can throw.\<close>

definition open_channel ::
  "(nat \<Rightarrow> bytes) \<Rightarrow> channel_kind \<Rightarrow> int \<Rightarrow> ustring \<Rightarrow> jsnum \<Rightarrow> nat option \<Rightarrow> channel_table \<Rightarrow> channel_state res \<times> channel_table" where
  "open_channel rand kind requestId userIdentity defaultDifficulty prefixLenOpt t =
     (let i = ct_nextId t; t = t\<lparr>ct_nextId := i + 1\<rparr>;
          prefixLen = (if kind = Standard then SV2_EXTRANONCE_TOTAL
            else min (case prefixLenOpt of None \<Rightarrow> 4 | Some n \<Rightarrow> n) (SV2_EXTRANONCE_TOTAL - 1))
      in case targetU256BE defaultDifficulty of
           Inl e \<Rightarrow> (Inl e, t)
         | Inr target \<Rightarrow>
             let ch = \<lparr>ch_id = i, ch_kind = kind, ch_requestId = requestId, ch_userIdentity = userIdentity,
                   ch_extranoncePrefix = rand prefixLen, ch_extranonceSize = SV2_EXTRANONCE_TOTAL - prefixLen,
                   ch_groupChannelId = 0, ch_targetBE = target, ch_shareDifficulty = defaultDifficulty,
                   ch_lastAcceptedSequence = 0, ch_lastJobId = 0, ch_cleanJobs = True\<rparr>
             in (Inr ch, t\<lparr>ct_byId := jsmap_set i ch (ct_byId t)\<rparr>))"

definition get_channel :: "int \<Rightarrow> channel_table \<Rightarrow> channel_state option" where
  "get_channel i t = jsmap_get (ct_byId t) i"

definition delete_channel :: "int \<Rightarrow> channel_table \<Rightarrow> channel_table" where
  "delete_channel i t = t\<lparr>ct_byId := jsmap_delete i (ct_byId t)\<rparr>"

definition all_channels :: "channel_table \<Rightarrow> channel_state list" where
  "all_channels t = map snd (ct_byId t)"

text \<open>Assignment to a field of the channel object in the table.\<close>

definition update_channel_state :: "int \<Rightarrow> (channel_state \<Rightarrow> channel_state) \<Rightarrow> channel_table \<Rightarrow> channel_table" where
  "update_channel_state i f t = (case get_channel i t of None \<Rightarrow> t | Some ch \<Rightarrow> t\<lparr>ct_byId := jsmap_set i (f ch) (ct_byId t)\<rparr>)"

definition setShareDifficulty :: "int \<Rightarrow> jsnum \<Rightarrow> channel_table \<Rightarrow> unit res \<times> channel_table" where
  "setShareDifficulty i diff t = (case get_channel i t of
     None \<Rightarrow> (Inr (), t)
   | Some ch \<Rightarrow>
       (case targetU256BE diff of
          Inl e \<Rightarrow> (Inl e, update_channel_state i (\<lambda>c. c\<lparr>ch_shareDifficulty := diff\<rparr>) t)
        | Inr target \<Rightarrow> (Inr (), update_channel_state i (\<lambda>c. c\<lparr>ch_shareDifficulty := diff, ch_targetBE := target\<rparr>) t)))"

definition fullExtranonce :: "channel_state \<Rightarrow> bytes \<Rightarrow> bytes res" where
  "fullExtranonce ch sub =
     throw_if (length sub \<noteq> ch_extranonceSize ch) (Error ''extranonce length mismatch'') (
     andthen (arr_set (replicate SV2_EXTRANONCE_TOTAL 0) (ch_extranoncePrefix ch) 0) (\<lambda>out.
     arr_set out sub (length (ch_extranoncePrefix ch))))"

section \<open>Jobs\<close>

definition nextSv2JobId :: "int \<Rightarrow> int" where
  "nextSv2JobId counter = to_uint32 (counter + 1)"

definition merklePathLE :: "stratum_job \<Rightarrow> bytes list res" where
  "merklePathLE job = mapR (\<lambda>h. andthen (hexToBytes h) (\<lambda>b. Inr (reverseBytes b))) (jc_merkleBranchesHexBE job)"

definition buildNewExtendedJob :: "channel_state \<Rightarrow> stratum_job \<Rightarrow> int \<Rightarrow> (new_extended_mining_job \<times> bytes) res" where
  "buildNewExtendedJob ch job jobId =
     andthen (merklePathLE job) (\<lambda>path.
     andthen (hexToBytes (jc_coinb1Hex job)) (\<lambda>coinb1.
     andthen (hexToBytes (jc_coinb2Hex job)) (\<lambda>coinb2.
     let msg = \<lparr>nej_channelId = ch_id ch, nej_jobId = jobId, nej_minNtime = None, nej_version = jc_version job,
           nej_versionRollingAllowed = True, nej_merklePath = path, nej_coinbaseTxPrefix = coinb1, nej_coinbaseTxSuffix = coinb2\<rparr>
     in andthen (encodeNewExtendedMiningJob msg) (\<lambda>b. Inr (msg, b)))))"

fun computeMerkleRootLE :: "(bytes \<Rightarrow> bytes) \<Rightarrow> bytes \<Rightarrow> string list \<Rightarrow> bytes res" where
  "computeMerkleRootLE sha cur [] = Inr cur"
| "computeMerkleRootLE sha cur (bBE # branches) =
     andthen (hexToBytes bBE) (\<lambda>b.
     andthen (arr_set (replicate 64 0) cur 0) (\<lambda>buf.
     andthen (arr_set buf (reverseBytes b) 32) (\<lambda>buf.
     computeMerkleRootLE sha (sha (sha buf)) branches)))"

definition buildNewStandardJob ::
  "(bytes \<Rightarrow> bytes) \<Rightarrow> channel_state \<Rightarrow> stratum_job \<Rightarrow> int \<Rightarrow> (new_mining_job \<times> bytes \<times> bytes) res" where
  "buildNewStandardJob sha ch job jobId =
     andthen (fullExtranonce ch []) (\<lambda>en.
     andthen (hexToBytes (jc_coinb1Hex job)) (\<lambda>coinb1.
     andthen (hexToBytes (jc_coinb2Hex job)) (\<lambda>coinb2.
     let coinbase = concatBytes [coinb1, en, coinb2]; cbTxid = sha (sha coinbase) in
     andthen (computeMerkleRootLE sha cbTxid (jc_merkleBranchesHexBE job)) (\<lambda>merkleRootLE.
     let msg = \<lparr>nmj_channelId = ch_id ch, nmj_jobId = jobId, nmj_minNtime = None, nmj_version = jc_version job, nmj_merkleRoot = merkleRootLE\<rparr>
     in andthen (encodeNewMiningJob msg) (\<lambda>b. Inr (msg, b, merkleRootLE))))))"

definition buildSetNewPrevHash :: "channel_state \<Rightarrow> stratum_job \<Rightarrow> int \<Rightarrow> (set_new_prev_hash \<times> bytes) res" where
  "buildSetNewPrevHash ch job jobId =
     andthen (hexToBytes (jc_prevHashHexBE job)) (\<lambda>prev.
     let msg = \<lparr>snp_channelId = ch_id ch, snp_jobId = jobId, snp_prevHash = reverseBytes prev, snp_minNtime = sj_ntimeMin job, snp_nbits = jc_bits job\<rparr>
     in andthen (encodeSetNewPrevHash msg) (\<lambda>b. Inr (msg, b)))"

definition buildSetTarget :: "channel_state \<Rightarrow> (set_target \<times> bytes) res" where
  "buildSetTarget ch =
     (let msg = \<lparr>stt_channelId = ch_id ch, stt_maxTarget = ch_targetBE ch\<rparr>
      in andthen (encodeSetTarget msg) (\<lambda>b. Inr (msg, b)))"

section \<open>Submissions\<close>

text \<open>A user identity as the text of a share event, for identities of one-byte characters.\<close>

definition identity_text :: "ustring \<Rightarrow> string" where
  "identity_text u = map char_of u"

definition workerNameFromIdentity :: "string \<Rightarrow> string" where
  "workerNameFromIdentity i = (if CHR ''.'' \<in> set i then tl (dropWhile (\<lambda>c. c \<noteq> CHR ''.'') i) else ''default'')"

definition submit_input :: "channel_state \<Rightarrow> job_context \<Rightarrow> int \<Rightarrow> int \<Rightarrow> bytes \<Rightarrow> share_input" where
  "submit_input ch job ntime nonce en =
     (let n = length (ch_extranoncePrefix ch) in
      \<lparr>si_job = job, si_extranonce1Hex = bytesToHex (take n en), si_extranonce2Hex = bytesToHex (drop n en),
       si_ntime = ntime, si_nonce = nonce, si_shareDifficulty = ch_shareDifficulty ch\<rparr>)"

definition submit_event :: "int \<Rightarrow> channel_state \<Rightarrow> int \<Rightarrow> jsnum \<Rightarrow> share_ok \<Rightarrow> share_event" where
  "submit_event now ch blockHeight networkDifficulty ok =
     (let user = identity_text (ch_userIdentity ch) in
      \<lparr>se_user = user, se_workerName = workerNameFromIdentity user, se_diff = ch_shareDifficulty ch, se_isBlock = so_isBlock ok,
       se_blockHash = (if so_isBlock ok then Some (so_blockHashHexBE ok) else None), se_blockHeight = Some blockHeight,
       se_networkDifficulty = networkDifficulty, se_timestampMs = now, se_attest = None\<rparr>)"

datatype submit_outcome = SubmitOk share_ok share_event | SubmitFail share_reason

text \<open>The outcome, the block handed to the node, and the pad cache. The submitted version is not read.\<close>

definition processSubmit ::
  "(bytes \<Rightarrow> nat \<Rightarrow> bytes) \<Rightarrow> (bytes \<Rightarrow> bytes) \<Rightarrow> int \<Rightarrow> channel_state \<Rightarrow> job_context \<Rightarrow> int \<Rightarrow> int \<Rightarrow> bytes \<Rightarrow> int \<Rightarrow> jsnum \<Rightarrow> pad_cache \<Rightarrow>
   (submit_outcome \<times> string option) res \<times> pad_cache" where
  "processSubmit b3 sha now ch job nonce ntime extranonce blockHeight networkDifficulty pads =
     (case fullExtranonce ch extranonce of
        Inl e \<Rightarrow> (Inl e, pads)
      | Inr en \<Rightarrow>
          let (check, pads) = validateShare b3 sha now (submit_input ch job ntime nonce en) pads in
          (andthen check (\<lambda>c. case c of
             CheckFail reason _ \<Rightarrow> Inr (SubmitFail reason, None)
           | CheckOk ok \<Rightarrow>
               Inr (SubmitOk ok (submit_event now ch blockHeight networkDifficulty ok),
                 if so_isBlock ok \<and> so_serializedBlockHex ok \<noteq> Some [] then so_serializedBlockHex ok else None)), pads))"

section \<open>What the miner hashes\<close>

text \<open>The header and the merkle root that a miner computes from the fields of the messages.\<close>

definition miner_header :: "int \<Rightarrow> bytes \<Rightarrow> bytes \<Rightarrow> int \<Rightarrow> int \<Rightarrow> int \<Rightarrow> bytes" where
  "miner_header vers prevHash mroot ntime nbits nonce =
     uint32LE vers @ prevHash @ mroot @ uint32LE ntime @ uint32LE nbits @ uint32LE nonce"

definition miner_root :: "(bytes \<Rightarrow> bytes) \<Rightarrow> bytes \<Rightarrow> bytes list \<Rightarrow> bytes" where
  "miner_root sha coinbase path = foldl (\<lambda>cur b. sha (sha (cur @ b))) (sha (sha coinbase)) path"

lemma computeMerkleRootLE_eq: "computeMerkleRootLE sha cur bs = computeMerkleRoot sha cur bs"
  by (induction bs arbitrary: cur) (simp_all add: doubleSha256_def Let_def)

lemma wr_u256: "wr (map w_u256 bs) = Inr x \<Longrightarrow> b \<in> set bs \<Longrightarrow> length b = 32"
  by (induction bs arbitrary: x) (auto simp: wr.simps w_u256_def throw_if_def andthen_eq_Inr split: if_splits)

lemma computeMerkleRoot_path:
  assumes "\<And>b. length (sha b) = 32"
  shows "length cur = 32 \<Longrightarrow> mapR (\<lambda>h. andthen (hexToBytes h) (\<lambda>b. Inr (reverseBytes b))) hs = Inr path \<Longrightarrow>
    (\<And>b. b \<in> set path \<Longrightarrow> length b = 32) \<Longrightarrow>
    computeMerkleRoot sha cur hs = Inr (foldl (\<lambda>cur b. sha (sha (cur @ b))) cur path)"
proof (induction hs arbitrary: cur path)
  case (Cons h hs)
  obtain b path' where b: "hexToBytes h = Inr b" "path = rev b # path'"
      "mapR (\<lambda>h. andthen (hexToBytes h) (\<lambda>b. Inr (reverseBytes b))) hs = Inr path'"
    using Cons.prems(2) by (auto simp: andthen_eq_Inr)
  have len: "length b = 32" using Cons.prems(3) [of "rev b"] by (simp add: b(2))
  have "computeMerkleRoot sha (sha (sha (cur @ rev b))) hs = Inr (foldl (\<lambda>cur b. sha (sha (cur @ b))) (sha (sha (cur @ rev b))) path')"
    using Cons.prems(3) by (intro Cons.IH [OF assms b(3)]) (simp add: b(2))
  then show ?case by (simp add: b(1,2) len Cons.prems(1) doubleSha256_def Let_def)
qed simp

lemma open_channel_shape:
  assumes "\<And>n. length (rand n) = n" "open_channel rand kind rid user d pl t = (Inr ch, t')"
  shows "length (ch_extranoncePrefix ch) + ch_extranonceSize ch = 8" "ch_kind ch = kind" "kind = Standard \<Longrightarrow> ch_extranonceSize ch = 0"
  using assms(2) by (auto simp: open_channel_def Let_def assms(1) SV2_EXTRANONCE_TOTAL_def split: sum.splits)

lemma fullExtranonce_eq:
  assumes "length (ch_extranoncePrefix ch) + ch_extranonceSize ch = 8" "length sub = ch_extranonceSize ch"
  shows "fullExtranonce ch sub = Inr (ch_extranoncePrefix ch @ sub)"
proof -
  let ?p = "ch_extranoncePrefix ch"
  have "arr_set (replicate 8 0) ?p 0 = Inr (?p @ replicate (length sub) 0)" using assms by (auto simp: arr_set_def)
  moreover have "arr_set (?p @ replicate (length sub) 0) sub (length ?p) = Inr (?p @ sub)" by (simp add: arr_set_def)
  ultimately show ?thesis using assms(2) by (simp add: fullExtranonce_def throw_if_def SV2_EXTRANONCE_TOTAL_def)
qed

text \<open>The header that the validator rebuilds, from the decoded parts of the job.\<close>

lemma buildHeader_submit:
  assumes "hexToBytes (jc_coinb1Hex job) = Inr coinb1" "hexToBytes (jc_coinb2Hex job) = Inr coinb2" "hexToBytes (jc_prevHashHexBE job) = Inr prev"
    and "computeMerkleRoot sha (sha (sha (coinb1 @ en @ coinb2))) (jc_merkleBranchesHexBE job) = Inr mroot"
    and "length prev = 32" "length mroot = 32"
  shows "\<exists>built. buildHeader sha (submit_input ch (job_context.truncate job) ntime nonce en) = Inr built \<and>
    bh_header built = miner_header (jc_version job) (rev prev) mroot ntime (jc_bits job) nonce"
proof -
  have td: "take n en @ drop n en @ coinb2 = en @ coinb2" for n by (metis append.assoc append_take_drop_id)
  show ?thesis
    using assms by (simp add: td buildHeader_def submit_input_def job_context.defs concatBytes_def coinbaseTxId_def doubleSha256_def
        serializeHeader_eq miner_header_def Let_def)
qed

lemma prevHash_built:
  assumes "buildSetNewPrevHash ch job jobId = Inr (pm, pb)"
  obtains prev where "hexToBytes (jc_prevHashHexBE job) = Inr prev" "snp_prevHash pm = rev prev" "length prev = 32" "snp_nbits pm = jc_bits job"
  using assms by (auto simp: buildSetNewPrevHash_def encodeSetNewPrevHash_def payloadSetNewPrevHash_def wr.simps w_u256_def throw_if_def
      andthen_eq_Inr Let_def split: if_splits)

lemma standard_job_built:
  assumes "buildNewStandardJob sha ch job jobId = Inr (m, b, mroot)"
  obtains coinb1 coinb2 en where "hexToBytes (jc_coinb1Hex job) = Inr coinb1" "hexToBytes (jc_coinb2Hex job) = Inr coinb2"
    "fullExtranonce ch [] = Inr en" "computeMerkleRoot sha (sha (sha (coinb1 @ en @ coinb2))) (jc_merkleBranchesHexBE job) = Inr mroot"
    "length mroot = 32" "nmj_merkleRoot m = mroot" "nmj_version m = jc_version job"
  using assms by (auto simp: buildNewStandardJob_def computeMerkleRootLE_eq concatBytes_def encodeNewMiningJob_def payloadNewMiningJob_def wr.simps
      w_u256_def throw_if_def andthen_eq_Inr Let_def split: if_splits)

lemma extended_job_built:
  assumes "buildNewExtendedJob ch job jobId = Inr (m, b)"
  shows "hexToBytes (jc_coinb1Hex job) = Inr (nej_coinbaseTxPrefix m)" "hexToBytes (jc_coinb2Hex job) = Inr (nej_coinbaseTxSuffix m)"
    "merklePathLE job = Inr (nej_merklePath m)" "nej_version m = jc_version job" "x \<in> set (nej_merklePath m) \<Longrightarrow> length x = 32"
proof -
  obtain p where p: "payloadNewExtendedMiningJob m = Inr p"
    using assms by (auto simp: buildNewExtendedJob_def encodeNewExtendedMiningJob_def andthen_eq_Inr Let_def)
  show "hexToBytes (jc_coinb1Hex job) = Inr (nej_coinbaseTxPrefix m)" "hexToBytes (jc_coinb2Hex job) = Inr (nej_coinbaseTxSuffix m)"
    "merklePathLE job = Inr (nej_merklePath m)" "nej_version m = jc_version job"
    using assms by (auto simp: buildNewExtendedJob_def andthen_eq_Inr Let_def)
  show "x \<in> set (nej_merklePath m) \<Longrightarrow> length x = 32"
    using p by (auto simp: payloadNewExtendedMiningJob_def wr.simps w_seq0_255_def throw_if_def andthen_eq_Inr split: if_splits intro: wr_u256)
qed

text \<open>
  C2: Miner and validator hash the same header. On a channel the server opened, whenever the job and
  previous-hash messages could be built, the header that the miner assembles from their fields (with the
  merkle root it was sent on a standard channel, and the one it computes from its own extranonce on an
  extended channel) is the header that the validator rebuilds from the submitted nonce, time and extranonce.
\<close>
theorem sv2_jobs_match_validator:
  assumes "\<And>d. length (sha d) = 32" "\<And>n. length (rand n) = n" "open_channel rand kind rid user d pl t = (Inr ch, t')"
    and "buildSetNewPrevHash ch job jobId = Inr (pm, pb)"
  shows "(kind = Standard \<longrightarrow> buildNewStandardJob sha ch job jobId = Inr (m, b, mroot) \<longrightarrow>
      (\<exists>en built. fullExtranonce ch [] = Inr en \<and>
        buildHeader sha (submit_input ch (job_context.truncate job) ntime nonce en) = Inr built \<and>
        bh_header built = miner_header (nmj_version m) (snp_prevHash pm) (nmj_merkleRoot m) ntime (snp_nbits pm) nonce)) \<and>
    (buildNewExtendedJob ch job jobId = Inr (em, eb) \<longrightarrow> length sub = ch_extranonceSize ch \<longrightarrow>
      (\<exists>en built. fullExtranonce ch sub = Inr en \<and>
        buildHeader sha (submit_input ch (job_context.truncate job) ntime nonce en) = Inr built \<and>
        bh_header built = miner_header (nej_version em) (snp_prevHash pm)
          (miner_root sha (nej_coinbaseTxPrefix em @ ch_extranoncePrefix ch @ sub @ nej_coinbaseTxSuffix em) (nej_merklePath em))
          ntime (snp_nbits pm) nonce))"
proof (intro conjI impI)
  obtain prev where prev: "hexToBytes (jc_prevHashHexBE job) = Inr prev" "snp_prevHash pm = rev prev" "length prev = 32" "snp_nbits pm = jc_bits job"
    by (rule prevHash_built [OF assms(4)])
  show "\<exists>en built. fullExtranonce ch [] = Inr en \<and>
        buildHeader sha (submit_input ch (job_context.truncate job) ntime nonce en) = Inr built \<and>
        bh_header built = miner_header (nmj_version m) (snp_prevHash pm) (nmj_merkleRoot m) ntime (snp_nbits pm) nonce"
    if j: "buildNewStandardJob sha ch job jobId = Inr (m, b, mroot)"
  proof -
    obtain coinb1 coinb2 en where s: "hexToBytes (jc_coinb1Hex job) = Inr coinb1" "hexToBytes (jc_coinb2Hex job) = Inr coinb2"
      "fullExtranonce ch [] = Inr en" "computeMerkleRoot sha (sha (sha (coinb1 @ en @ coinb2))) (jc_merkleBranchesHexBE job) = Inr mroot"
      "length mroot = 32" "nmj_merkleRoot m = mroot" "nmj_version m = jc_version job" by (rule standard_job_built [OF j])
    from buildHeader_submit [OF s(1,2) prev(1) s(4) prev(3) s(5)] s prev show ?thesis by auto
  qed
  assume j: "buildNewExtendedJob ch job jobId = Inr (em, eb)" and sub: "length sub = ch_extranonceSize ch"
  note e = extended_job_built [OF j]
  have en: "fullExtranonce ch sub = Inr (ch_extranoncePrefix ch @ sub)"
    using open_channel_shape(1) [OF assms(2,3)] sub by (rule fullExtranonce_eq)
  let ?cb = "nej_coinbaseTxPrefix em @ (ch_extranoncePrefix ch @ sub) @ nej_coinbaseTxSuffix em"
  have r: "computeMerkleRoot sha (sha (sha ?cb)) (jc_merkleBranchesHexBE job) = Inr (miner_root sha ?cb (nej_merklePath em))"
    unfolding miner_root_def using e(3,5) by (intro computeMerkleRoot_path assms(1)) (auto simp: merklePathLE_def)
  have "length (miner_root sha ?cb (nej_merklePath em)) = 32"
    using computeMerkleRoot_length [OF assms(1) assms(1) r] .
  from buildHeader_submit [OF e(1,2) prev(1) r prev(3) this] en prev e(4) show "\<exists>en built. fullExtranonce ch sub = Inr en \<and>
        buildHeader sha (submit_input ch (job_context.truncate job) ntime nonce en) = Inr built \<and>
        bh_header built = miner_header (nej_version em) (snp_prevHash pm)
          (miner_root sha (nej_coinbaseTxPrefix em @ ch_extranoncePrefix ch @ sub @ nej_coinbaseTxSuffix em) (nej_merklePath em))
          ntime (snp_nbits pm) nonce" by auto
qed

section \<open>A sample channel\<close>

definition sample_rand :: "nat \<Rightarrow> bytes" where
  "sample_rand n = replicate n 7"

definition sample_sv2_job :: stratum_job where
  "sample_sv2_job = \<lparr>jc_jobId = ''0000001'', jc_coinb1Hex = ''01'', jc_coinb2Hex = ''02'', jc_merkleBranchesHexBE = [bytesToHex (replicate 32 1)],
     jc_version = 1, jc_bits = 0x207fffff, jc_prevHashHexBE = bytesToHex (replicate 32 2), jc_networkTargetHexBE = '''', jc_txnsHex = [],
     jc_height = 1, sj_cleanJobs = True, sj_ntimeMin = 3, sj_ntimeRoll = 0\<rparr>"

lemma sample_hex: "hexToBytes ''01'' = Inr [1]" "hexToBytes ''02'' = Inr [2]"
  by code_simp+

lemma sample_target: "\<exists>x. targetU256BE (Fin 1) = Inr x"
  using targetFromShareDifficulty_int [of 1] by (auto simp: targetU256BE_def)

lemmas writer_defs = wr.simps encodeOptionU32_def w_u8_def w_u16_def w_u24_def w_u32_def w_bool_def w_u256_def w_bytesRaw_def w_b0_64k_def w_seq0_255_def throw_if_def

theorem sv2_jobs_match_validator_witness:
  "\<exists>ch t' pm pb em eb en built. open_channel sample_rand Extended 1 [] (Fin 1) None newChannelTable = (Inr ch, t') \<and>
     buildSetNewPrevHash ch sample_sv2_job 5 = Inr (pm, pb) \<and> buildNewExtendedJob ch sample_sv2_job 5 = Inr (em, eb) \<and>
     fullExtranonce ch [1, 2, 3, 4] = Inr en \<and>
     buildHeader (\<lambda>d. replicate 32 0) (submit_input ch (job_context.truncate sample_sv2_job) 9 11 en) = Inr built \<and>
     bh_header built = miner_header (nej_version em) (snp_prevHash pm) (miner_root (\<lambda>d. replicate 32 0)
       (nej_coinbaseTxPrefix em @ ch_extranoncePrefix ch @ [1, 2, 3, 4] @ nej_coinbaseTxSuffix em) (nej_merklePath em)) 9 (snp_nbits pm) 11"
proof -
  let ?sha = "\<lambda>d :: bytes. replicate 32 (0 :: byte)"
  obtain x where x: "targetU256BE (Fin 1) = Inr x" using sample_target by blast
  obtain ch t' where ch: "open_channel sample_rand Extended 1 [] (Fin 1) None newChannelTable = (Inr ch, t')" "ch_extranonceSize ch = 4" "ch_id ch = 1"
    by (simp add: open_channel_def x newChannelTable_def SV2_EXTRANONCE_TOTAL_def Let_def)
  obtain pm pb where p: "buildSetNewPrevHash ch sample_sv2_job 5 = Inr (pm, pb)"
    by (simp add: buildSetNewPrevHash_def sample_sv2_job_def message_defs writer_defs encodeFrame_def ch(3) Let_def)
  obtain em eb where e: "buildNewExtendedJob ch sample_sv2_job 5 = Inr (em, eb)"
    by (simp add: buildNewExtendedJob_def merklePathLE_def sample_sv2_job_def sample_hex message_defs writer_defs encodeFrame_def ch(3) Let_def)
  have sha: "\<And>d. length (?sha d) = 32" and rand: "\<And>n. length (sample_rand n) = n" by (simp_all add: sample_rand_def)
  have "length [1, 2, 3, 4 :: byte] = ch_extranonceSize ch" by (simp add: ch(2))
  with sv2_jobs_match_validator [OF sha rand ch(1) p, where em = em and eb = eb and sub = "[1, 2, 3, 4]" and ntime = 9 and nonce = 11] e
  have "\<exists>en built. fullExtranonce ch [1, 2, 3, 4] = Inr en \<and>
     buildHeader ?sha (submit_input ch (job_context.truncate sample_sv2_job) 9 11 en) = Inr built \<and>
     bh_header built = miner_header (nej_version em) (snp_prevHash pm) (miner_root ?sha
       (nej_coinbaseTxPrefix em @ ch_extranoncePrefix ch @ [1, 2, 3, 4] @ nej_coinbaseTxSuffix em) (nej_merklePath em)) 9 (snp_nbits pm) 11"
    by blast
  with ch(1) p e show ?thesis by blast
qed

end
