(* ===== verification/Sv2_Noise.thy ===== *)
theory Sv2_Noise
  imports Sv2_Types
begin

text \<open>
  The encrypted channel of the Stratum V2 services (\<^verbatim>\<open>sv2/lib/noise.ts\<close>): the NX handshake and the
  segmented transport. X25519, BLAKE2s, HMAC and ChaCha20-Poly1305 are fields of \<open>noise_crypto\<close>;
  random ephemeral keys are arguments. A cipher state is \<^verbatim>\<open>null\<close> or a key with its nonce counter.
\<close>

section \<open>Primitives\<close>

record noise_crypto =
  nc_dh :: "bytes \<Rightarrow> bytes \<Rightarrow> bytes res"
  nc_pub :: "bytes \<Rightarrow> bytes"
  nc_blake2s :: "bytes \<Rightarrow> bytes"
  nc_hmac :: "bytes \<Rightarrow> bytes \<Rightarrow> bytes"
  nc_encrypt :: "bytes \<Rightarrow> bytes \<Rightarrow> bytes \<Rightarrow> bytes \<Rightarrow> bytes"
  nc_decrypt :: "bytes \<Rightarrow> bytes \<Rightarrow> bytes \<Rightarrow> bytes \<Rightarrow> bytes res"

definition PROTOCOL_NAME :: string where
  "PROTOCOL_NAME = ''Noise_NX_25519_ChaChaPoly_BLAKE2s''"

definition MAX_NONCE :: int where
  "MAX_NONCE = 2 ^ 64 - 1"

definition TAG_LEN :: nat where
  "TAG_LEN = 16"

definition hashConcat :: "noise_crypto \<Rightarrow> bytes \<Rightarrow> bytes \<Rightarrow> bytes" where
  "hashConcat cr a b = nc_blake2s cr (a @ b)"

definition hkdf :: "noise_crypto \<Rightarrow> bytes \<Rightarrow> bytes \<Rightarrow> nat \<Rightarrow> bytes list" where
  "hkdf cr chainingKey ikm n =
     (let tempKey = nc_hmac cr chainingKey ikm;
          out1 = nc_hmac cr tempKey [1];
          out2 = nc_hmac cr tempKey (out1 @ [2])
      in if n = 2 then [out1, out2] else [out1, out2, nc_hmac cr tempKey (out2 @ [3])])"

definition nonceBytes :: "int \<Rightarrow> bytes res" where
  "nonceBytes n = throw_if (n > MAX_NONCE) (Error ''noise nonce overflow'') (Inr (replicate 4 0 @ le_bytes 8 n))"

section \<open>Cipher states\<close>

record cipher_state =
  cs_k :: "bytes option"
  cs_n :: int

definition newCipherState :: "bytes option \<Rightarrow> cipher_state" where
  "newCipherState key = \<lparr>cs_k = key, cs_n = 0\<rparr>"

definition encryptWithAd :: "noise_crypto \<Rightarrow> bytes \<Rightarrow> bytes \<Rightarrow> cipher_state \<Rightarrow> (bytes \<times> cipher_state) res" where
  "encryptWithAd cr ad plaintext cs = (case cs_k cs of
     None \<Rightarrow> Inr (plaintext, cs)
   | Some k \<Rightarrow> andthen (nonceBytes (cs_n cs)) (\<lambda>nonce.
       Inr (nc_encrypt cr k nonce ad plaintext, cs\<lparr>cs_n := cs_n cs + 1\<rparr>)))"

definition decryptWithAd :: "noise_crypto \<Rightarrow> bytes \<Rightarrow> bytes \<Rightarrow> cipher_state \<Rightarrow> (bytes \<times> cipher_state) res" where
  "decryptWithAd cr ad ciphertext cs = (case cs_k cs of
     None \<Rightarrow> Inr (ciphertext, cs)
   | Some k \<Rightarrow> andthen (nonceBytes (cs_n cs)) (\<lambda>nonce.
       andthen (nc_decrypt cr k nonce ad ciphertext) (\<lambda>out. Inr (out, cs\<lparr>cs_n := cs_n cs + 1\<rparr>))))"

section \<open>Symmetric state\<close>

record symmetric_state =
  ss_h :: bytes
  ss_ck :: bytes
  ss_cipher :: cipher_state

definition newSymmetricState :: "noise_crypto \<Rightarrow> symmetric_state" where
  "newSymmetricState cr =
     (let nameBytes = map (word_of_nat \<circ> of_char) PROTOCOL_NAME;
          h = (if length nameBytes \<le> 32 then nameBytes @ replicate (32 - length nameBytes) 0 else nc_blake2s cr nameBytes)
      in \<lparr>ss_h = h, ss_ck = h, ss_cipher = newCipherState None\<rparr>)"

definition mixKey :: "noise_crypto \<Rightarrow> bytes \<Rightarrow> symmetric_state \<Rightarrow> symmetric_state" where
  "mixKey cr ikm s = (let ks = hkdf cr (ss_ck s) ikm 2 in s\<lparr>ss_ck := ks ! 0, ss_cipher := newCipherState (Some (ks ! 1))\<rparr>)"

definition mixHash :: "noise_crypto \<Rightarrow> bytes \<Rightarrow> symmetric_state \<Rightarrow> symmetric_state" where
  "mixHash cr data s = s\<lparr>ss_h := hashConcat cr (ss_h s) data\<rparr>"

definition encryptAndHash :: "noise_crypto \<Rightarrow> bytes \<Rightarrow> symmetric_state \<Rightarrow> (bytes \<times> symmetric_state) res" where
  "encryptAndHash cr plaintext s =
     andthen (encryptWithAd cr (ss_h s) plaintext (ss_cipher s)) (\<lambda>(ct, c). Inr (ct, mixHash cr ct (s\<lparr>ss_cipher := c\<rparr>)))"

definition decryptAndHash :: "noise_crypto \<Rightarrow> bytes \<Rightarrow> symmetric_state \<Rightarrow> (bytes \<times> symmetric_state) res" where
  "decryptAndHash cr ciphertext s =
     andthen (decryptWithAd cr (ss_h s) ciphertext (ss_cipher s)) (\<lambda>(pt, c). Inr (pt, mixHash cr ciphertext (s\<lparr>ss_cipher := c\<rparr>)))"

definition split_state :: "noise_crypto \<Rightarrow> symmetric_state \<Rightarrow> cipher_state \<times> cipher_state" where
  "split_state cr s =
     (let ks = hkdf cr (ss_ck s) [] 2 in (newCipherState (Some (ks ! 0)), newCipherState (Some (ks ! 1))))"

section \<open>Handshake\<close>

datatype noise_role = Initiator | Responder

record handshake_result =
  hr_sendCipher :: cipher_state
  hr_recvCipher :: cipher_state
  hr_handshakeHash :: bytes
  hr_remoteStaticPub :: "bytes option"
  hr_responderPayload :: "bytes option"

text \<open>Key pairs are a private and a public key.\<close>

record noise_nx =
  nx_role :: noise_role
  nx_sym :: symmetric_state
  nx_e :: "(bytes \<times> bytes) option"
  nx_re :: "bytes option"
  nx_rs :: "bytes option"
  nx_staticKey :: "(bytes \<times> bytes) option"

definition newNoiseNX :: "noise_crypto \<Rightarrow> noise_role \<Rightarrow> (bytes \<times> bytes) option \<Rightarrow> noise_nx res" where
  "newNoiseNX cr role staticKey =
     throw_if (role = Responder \<and> staticKey = None) (Error ''responder requires a static key'')
       (Inr \<lparr>nx_role = role, nx_sym = newSymmetricState cr, nx_e = None, nx_re = None, nx_rs = None, nx_staticKey = staticKey\<rparr>)"

definition writeMessage1 :: "noise_crypto \<Rightarrow> bytes \<Rightarrow> noise_nx \<Rightarrow> (bytes \<times> noise_nx) res" where
  "writeMessage1 cr ePriv nx =
     throw_if (nx_role nx \<noteq> Initiator) (Error ''writeMessage1: wrong role'')
       (let ePub = nc_pub cr ePriv in
        Inr (ePub, nx\<lparr>nx_e := Some (ePriv, ePub), nx_sym := mixHash cr ePub (nx_sym nx)\<rparr>))"

definition readMessage1 :: "noise_crypto \<Rightarrow> bytes \<Rightarrow> noise_nx \<Rightarrow> noise_nx res" where
  "readMessage1 cr msg nx =
     throw_if (nx_role nx \<noteq> Responder) (Error ''readMessage1: wrong role'') (
     throw_if (length msg < 32) (Error ''noise msg1 too short'')
       (let re = slice msg 0 32 in Inr (nx\<lparr>nx_re := Some re, nx_sym := mixHash cr re (nx_sym nx)\<rparr>)))"

definition writeMessage2 :: "noise_crypto \<Rightarrow> bytes \<Rightarrow> bytes \<Rightarrow> noise_nx \<Rightarrow> (bytes \<times> noise_nx) res" where
  "writeMessage2 cr ePriv payload nx =
     throw_if (nx_role nx \<noteq> Responder) (Error ''writeMessage2: wrong role'') (
     case (nx_staticKey nx, nx_re nx) of
       (Some (sPriv, sPub), Some re) \<Rightarrow>
         let ePub = nc_pub cr ePriv; sym = mixHash cr ePub (nx_sym nx) in
         andthen (nc_dh cr ePriv re) (\<lambda>ee.
         andthen (encryptAndHash cr sPub (mixKey cr ee sym)) (\<lambda>(encS, sym).
         andthen (nc_dh cr sPriv re) (\<lambda>es.
         andthen (encryptAndHash cr payload (mixKey cr es sym)) (\<lambda>(encPayload, sym).
         Inr (ePub @ encS @ encPayload, nx\<lparr>nx_e := Some (ePriv, ePub), nx_sym := sym\<rparr>)))))
     | _ \<Rightarrow> Inl (Error ''noise: state''))"

definition readMessage2 :: "noise_crypto \<Rightarrow> bytes \<Rightarrow> noise_nx \<Rightarrow> (handshake_result \<times> noise_nx) res" where
  "readMessage2 cr msg nx =
     throw_if (nx_role nx \<noteq> Initiator) (Error ''readMessage2: wrong role'') (
     case nx_e nx of
       None \<Rightarrow> Inl (Error ''noise: missing e'')
     | Some (ePriv, ePub) \<Rightarrow>
         throw_if (length msg < 32 + (32 + TAG_LEN)) (Error ''noise msg2 too short'') (
         let re = slice msg 0 32; sym = mixHash cr re (nx_sym nx) in
         andthen (nc_dh cr ePriv re) (\<lambda>ee.
         andthen (decryptAndHash cr (slice msg 32 (32 + 32 + TAG_LEN)) (mixKey cr ee sym)) (\<lambda>(rs, sym).
         andthen (nc_dh cr ePriv rs) (\<lambda>es.
         andthen (decryptAndHash cr (drop (32 + 32 + TAG_LEN) msg) (mixKey cr es sym)) (\<lambda>(payload, sym).
         let (c1, c2) = split_state cr sym in
         Inr (\<lparr>hr_sendCipher = c1, hr_recvCipher = c2, hr_handshakeHash = ss_h sym, hr_remoteStaticPub = Some rs,
                hr_responderPayload = Some payload\<rparr>,
              nx\<lparr>nx_re := Some re, nx_rs := Some rs, nx_sym := sym\<rparr>)))))))"

definition finishResponder :: "noise_crypto \<Rightarrow> noise_nx \<Rightarrow> handshake_result res" where
  "finishResponder cr nx =
     throw_if (nx_role nx \<noteq> Responder) (Error ''finishResponder: wrong role'')
       (let (c1, c2) = split_state cr (nx_sym nx) in
        Inr \<lparr>hr_sendCipher = c2, hr_recvCipher = c1, hr_handshakeHash = ss_h (nx_sym nx), hr_remoteStaticPub = None,
             hr_responderPayload = None\<rparr>)"

section \<open>Transport\<close>

definition NOISE_MAX_SEGMENT :: nat where
  "NOISE_MAX_SEGMENT = 65535"

definition NOISE_MAX_PLAINTEXT :: nat where
  "NOISE_MAX_PLAINTEXT = NOISE_MAX_SEGMENT - TAG_LEN"

text \<open>The loop of \<^verbatim>\<open>encryptFrame\<close> over what is left of the plaintext.\<close>

function enc_segments :: "noise_crypto \<Rightarrow> bytes \<Rightarrow> cipher_state \<Rightarrow> (bytes \<times> cipher_state) res" where
  "enc_segments cr plaintext cs =
     (if plaintext = [] then Inr ([], cs)
      else andthen (encryptWithAd cr [] (take NOISE_MAX_PLAINTEXT plaintext) cs) (\<lambda>(ct, cs).
           andthen (enc_segments cr (drop NOISE_MAX_PLAINTEXT plaintext) cs) (\<lambda>(rest, cs).
           Inr (le_bytes 2 (int (length ct)) @ ct @ rest, cs))))"
  by pat_completeness auto
termination
  by (relation "measure (\<lambda>(_, plaintext, _). length plaintext)")
    (auto simp: NOISE_MAX_PLAINTEXT_def NOISE_MAX_SEGMENT_def TAG_LEN_def)

definition encryptFrame :: "noise_crypto \<Rightarrow> bytes \<Rightarrow> cipher_state \<Rightarrow> (bytes \<times> cipher_state) res" where
  "encryptFrame cr plaintext cs = andthen (enc_segments cr plaintext cs) (\<lambda>(segments, cs). Inr (segments @ [0, 0], cs))"

definition seg_len :: "bytes \<Rightarrow> nat" where
  "seg_len rest = nat (le_value (take 2 rest))"

text \<open>The loop of \<^verbatim>\<open>decryptFrames\<close>: \<open>rest\<close> is the buffer from the read position, \<open>cur\<close> the segments of the frame being read.\<close>

function decrypt_loop :: "noise_crypto \<Rightarrow> bytes list \<Rightarrow> bytes \<Rightarrow> cipher_state \<Rightarrow> (bytes list \<times> cipher_state) res" where
  "decrypt_loop cr cur rest cs =
     (if 2 \<le> length rest then
        if 2 + seg_len rest > length rest then Inr ([], cs)
        else if seg_len rest = 0 then
          andthen (decrypt_loop cr [] (drop 2 rest) cs) (\<lambda>(out, cs). Inr (concat cur # out, cs))
        else
          andthen (decryptWithAd cr [] (take (seg_len rest) (drop 2 rest)) cs) (\<lambda>(pt, cs).
            decrypt_loop cr (cur @ [pt]) (drop (2 + seg_len rest) rest) cs)
      else Inr ([], cs))"
  by pat_completeness auto
termination
  by (relation "measure (\<lambda>(_, _, rest, _). length rest)") auto

text \<open>\<^verbatim>\<open>pendingFrameStart\<close>: \<open>off\<close>, \<open>frameStart\<close> and \<open>completed\<close> are the variables of its loop.\<close>

function pending_loop :: "nat \<Rightarrow> nat \<Rightarrow> nat \<Rightarrow> nat \<Rightarrow> bytes \<Rightarrow> nat" where
  "pending_loop completedFrames off frameStart completed rest =
     (if 2 \<le> length rest then
        if 2 + seg_len rest > length rest then frameStart
        else let off = off + 2 + seg_len rest; rest' = drop (2 + seg_len rest) rest in
          if seg_len rest = 0 then
            (if completed + 1 = completedFrames then off else pending_loop completedFrames off off (completed + 1) rest')
          else pending_loop completedFrames off frameStart completed rest'
      else frameStart)"
  by pat_completeness auto
termination
  by (relation "measure (\<lambda>(_, _, _, _, rest). length rest)") auto

definition pendingFrameStart :: "bytes \<Rightarrow> nat \<Rightarrow> nat" where
  "pendingFrameStart buf completedFrames = pending_loop completedFrames 0 0 0 buf"

text \<open>The frames, the number of bytes consumed and the receiving cipher.\<close>

definition decryptFrames :: "noise_crypto \<Rightarrow> bytes \<Rightarrow> cipher_state \<Rightarrow> (bytes list \<times> nat \<times> cipher_state) res" where
  "decryptFrames cr buf cs =
     andthen (decrypt_loop cr [] buf cs) (\<lambda>(out, cs). Inr (out, pendingFrameStart buf (length out), cs))"

declare enc_segments.simps [simp del] decrypt_loop.simps [simp del] pending_loop.simps [simp del]

section \<open>Laws of the primitives\<close>

text \<open>
  Decryption inverts encryption, which adds a tag of 16 bytes; the shared secret is symmetric; public keys
  have 32 bytes.
\<close>

definition noise_laws :: "noise_crypto \<Rightarrow> bool" where
  "noise_laws cr \<longleftrightarrow>
     (\<forall>k n ad p. nc_decrypt cr k n ad (nc_encrypt cr k n ad p) = Inr p \<and> length (nc_encrypt cr k n ad p) = length p + TAG_LEN) \<and>
     (\<forall>a b. nc_dh cr a (nc_pub cr b) = nc_dh cr b (nc_pub cr a)) \<and> (\<forall>a. length (nc_pub cr a) = 32)"

text \<open>A ciphertext is rejected under another nonce.\<close>

definition nonce_binding :: "noise_crypto \<Rightarrow> bool" where
  "nonce_binding cr \<longleftrightarrow> (\<forall>k i j n n' ad p. nonceBytes i = Inr n \<longrightarrow> nonceBytes j = Inr n' \<longrightarrow> n \<noteq> n' \<longrightarrow>
     (\<exists>e. nc_decrypt cr k n' ad (nc_encrypt cr k n ad p) = Inl e))"

lemma decrypt_encrypted:
  assumes "noise_laws cr" "encryptWithAd cr ad p cs = Inr (ct, cs')"
  shows "decryptWithAd cr ad ct cs = Inr (p, cs')"
  using assms by (auto simp: encryptWithAd_def decryptWithAd_def noise_laws_def andthen_eq_Inr split: option.splits)

lemma encrypted_length:
  assumes "noise_laws cr" "encryptWithAd cr ad p cs = Inr (ct, cs')" "cs_k cs = Some k"
  shows "length ct = length p + TAG_LEN" "cs_k cs' = Some k"
  using assms by (auto simp: encryptWithAd_def noise_laws_def andthen_eq_Inr)

section \<open>Agreement of the handshake\<close>

lemma decryptAndHash_encrypted:
  assumes "noise_laws cr" "encryptAndHash cr p s = Inr (ct, s')"
  shows "decryptAndHash cr ct s = Inr (p, s')"
  using assms(2) decrypt_encrypted [OF assms(1)] by (auto simp: encryptAndHash_def decryptAndHash_def andthen_eq_Inr split: prod.splits)

lemma encryptAndHash_length:
  assumes "noise_laws cr" "encryptAndHash cr p (mixKey cr ikm s) = Inr (ct, s')"
  shows "length ct = length p + TAG_LEN"
  using assms(2) encrypted_length(1) [OF assms(1)] by (auto simp: encryptAndHash_def mixKey_def newCipherState_def andthen_eq_Inr Let_def)

text \<open>
  C10: An honest handshake agrees: when the responder answers the first message of an initiator, the
  initiator accepts the answer, both ends hold the same pair of transport keys in opposite directions and
  the same transcript hash, and the initiator has the responder's static key and payload.
\<close>
theorem noise_handshake_agrees:
  assumes "noise_laws cr" "sPub = nc_pub cr sPriv"
    and "newNoiseNX cr Initiator None = Inr i0" "newNoiseNX cr Responder (Some (sPriv, sPub)) = Inr r0"
    and "writeMessage1 cr eI i0 = Inr (m1, i1)" "readMessage1 cr m1 r0 = Inr r1"
    and "writeMessage2 cr eR payload r1 = Inr (m2, r2)" "finishResponder cr r2 = Inr fin"
  shows "\<exists>res i2. readMessage2 cr m2 i1 = Inr (res, i2) \<and> hr_sendCipher res = hr_recvCipher fin \<and>
    hr_recvCipher res = hr_sendCipher fin \<and> hr_handshakeHash res = hr_handshakeHash fin \<and>
    hr_remoteStaticPub res = Some sPub \<and> hr_responderPayload res = Some payload"
proof -
  define sym where "sym = mixHash cr (nc_pub cr eI) (newSymmetricState cr)"
  have len: "length (nc_pub cr a) = 32" and comm: "nc_dh cr a (nc_pub cr b) = nc_dh cr b (nc_pub cr a)" for a b
    using assms(1) by (simp_all add: noise_laws_def)
  have i1: "m1 = nc_pub cr eI" "nx_role i1 = Initiator" "nx_e i1 = Some (eI, nc_pub cr eI)" "nx_sym i1 = sym"
    using assms(3,5) by (auto simp: newNoiseNX_def throw_if_def writeMessage1_def Let_def sym_def)
  have r1: "nx_role r1 = Responder" "nx_re r1 = Some (nc_pub cr eI)" "nx_staticKey r1 = Some (sPriv, sPub)" "nx_sym r1 = sym"
    using assms(4,6) by (auto simp: newNoiseNX_def readMessage1_def throw_if_def Let_def i1(1) slice_def len sym_def split: if_splits)
  let ?sym = "mixHash cr (nc_pub cr eR) sym"
  obtain ee encS sym2 es encP sym3 where w: "nc_dh cr eR (nc_pub cr eI) = Inr ee" "encryptAndHash cr sPub (mixKey cr ee ?sym) = Inr (encS, sym2)"
    "nc_dh cr sPriv (nc_pub cr eI) = Inr es" "encryptAndHash cr payload (mixKey cr es sym2) = Inr (encP, sym3)"
    "m2 = nc_pub cr eR @ encS @ encP" "nx_sym r2 = sym3" "nx_role r2 = Responder"
    using assms(7) by (auto simp: writeMessage2_def throw_if_def r1 Let_def andthen_eq_Inr split: prod.splits)
  have encS: "length encS = 32 + TAG_LEN" using encryptAndHash_length [OF assms(1) w(2)] by (simp add: assms(2) len)
  have m2: "slice m2 0 32 = nc_pub cr eR" "slice m2 32 (32 + 32 + TAG_LEN) = encS" "drop (32 + 32 + TAG_LEN) m2 = encP"
    "\<not> length m2 < 32 + (32 + TAG_LEN)"
    by (simp_all add: w(5) slice_def len encS)
  have dh: "nc_dh cr eI (nc_pub cr eR) = Inr ee" "nc_dh cr eI sPub = Inr es" using w(1,3) comm by (simp_all add: assms(2))
  note d = decryptAndHash_encrypted [OF assms(1) w(2)] decryptAndHash_encrypted [OF assms(1) w(4)]
  obtain c1 c2 where c: "split_state cr sym3 = (c1, c2)" by fastforce
  have fin: "fin = \<lparr>hr_sendCipher = c2, hr_recvCipher = c1, hr_handshakeHash = ss_h sym3, hr_remoteStaticPub = None, hr_responderPayload = None\<rparr>"
    using assms(8) by (simp add: finishResponder_def throw_if_def w(6,7) c)
  show ?thesis
    unfolding fin readMessage2_def throw_if_def i1 Let_def by (simp add: m2 [simplified] dh d c)
qed

section \<open>Round trip of the transport\<close>

lemma noise_sizes: "NOISE_MAX_PLAINTEXT = 65519" "NOISE_MAX_SEGMENT = 65535" "TAG_LEN = 16"
  by (simp_all add: NOISE_MAX_PLAINTEXT_def NOISE_MAX_SEGMENT_def TAG_LEN_def)

text \<open>Reading one segment, and the end mark.\<close>

lemma seg_len_prefix: "length ct \<le> NOISE_MAX_SEGMENT \<Longrightarrow> seg_len (le_bytes 2 (int (length ct)) @ rest) = length ct"
  by (simp add: seg_len_def le_value_le_bytes noise_sizes)

lemma seg_len_end: "seg_len (0 # 0 # rest) = 0"
  by (simp add: seg_len_def numeral_2_eq_2)

lemma decrypt_loop_segment:
  assumes "0 < length ct" "length ct \<le> NOISE_MAX_SEGMENT"
  shows "decrypt_loop cr cur (le_bytes 2 (int (length ct)) @ ct @ rest) cs =
    andthen (decryptWithAd cr [] ct cs) (\<lambda>(pt, cs). decrypt_loop cr (cur @ [pt]) rest cs)"
  using assms by (subst decrypt_loop.simps) (simp add: seg_len_prefix)

lemma decrypt_loop_end:
  "decrypt_loop cr cur (0 # 0 # rest) cs = andthen (decrypt_loop cr [] rest cs) (\<lambda>(out, cs). Inr (concat cur # out, cs))"
  by (subst decrypt_loop.simps) (simp add: seg_len_end numeral_2_eq_2)

lemma pending_loop_segment:
  assumes "0 < length ct" "length ct \<le> NOISE_MAX_SEGMENT"
  shows "pending_loop n off start k (le_bytes 2 (int (length ct)) @ ct @ rest) = pending_loop n (off + 2 + length ct) start k rest"
  using assms by (subst pending_loop.simps) (simp add: seg_len_prefix Let_def)

lemma pending_loop_end:
  "pending_loop n off start k (0 # 0 # rest) = (if k + 1 = n then off + 2 else pending_loop n (off + 2) (off + 2) (k + 1) rest)"
  by (subst pending_loop.simps) (simp add: seg_len_end Let_def numeral_2_eq_2)

text \<open>One frame.\<close>

lemma enc_segments_read:
  assumes "noise_laws cr" "cs_k cs = Some k" "enc_segments cr p cs = Inr (w, cs')"
  shows "cs_k cs' = Some k \<and>
    (\<exists>ps. concat ps = p \<and> (\<forall>cur rest. decrypt_loop cr cur (w @ rest) cs = decrypt_loop cr (cur @ ps) rest cs')) \<and>
    (\<forall>n off start j rest. pending_loop n off start j (w @ rest) = pending_loop n (off + length w) start j rest)"
  using assms
proof (induction cr p cs arbitrary: w cs' rule: enc_segments.induct)
  case (1 cr p cs)
  show ?case
  proof (cases "p = []")
    case True
    then have "w = []" "cs' = cs" using "1.prems"(3) by (simp_all add: enc_segments.simps)
    then show ?thesis using True "1.prems"(2) by (auto intro: exI [of _ "[]"])
  next
    case False
    let ?p = "take NOISE_MAX_PLAINTEXT p"
    obtain ct cs1 w1 where e: "encryptWithAd cr [] ?p cs = Inr (ct, cs1)"
      "enc_segments cr (drop NOISE_MAX_PLAINTEXT p) cs1 = Inr (w1, cs')" "w = le_bytes 2 (int (length ct)) @ ct @ w1"
      using "1.prems"(3) False by (subst (asm) enc_segments.simps) (auto simp: andthen_eq_Inr split: prod.splits)
    note l = encrypted_length [OF "1.prems"(1) e(1) "1.prems"(2)]
    have ct: "0 < length ct" "length ct \<le> NOISE_MAX_SEGMENT" using l(1) by (simp_all add: noise_sizes)
    have IH: "cs_k cs' = Some k \<and>
      (\<exists>ps. concat ps = drop NOISE_MAX_PLAINTEXT p \<and> (\<forall>cur rest. decrypt_loop cr cur (w1 @ rest) cs1 = decrypt_loop cr (cur @ ps) rest cs')) \<and>
      (\<forall>n off start j rest. pending_loop n off start j (w1 @ rest) = pending_loop n (off + length w1) start j rest)"
      by (rule "1.IH" [OF False e(1) refl "1.prems"(1) l(2) e(2)])
    then obtain ps where ps: "concat ps = drop NOISE_MAX_PLAINTEXT p"
      "\<And>cur rest. decrypt_loop cr cur (w1 @ rest) cs1 = decrypt_loop cr (cur @ ps) rest cs'" by blast
    have "decrypt_loop cr cur (w @ rest) cs = decrypt_loop cr (cur @ ?p # ps) rest cs'" for cur rest
      using decrypt_loop_segment [OF ct, of cr cur "w1 @ rest" cs] by (simp add: e(3) decrypt_encrypted [OF "1.prems"(1) e(1)] ps(2))
    moreover have "concat (?p # ps) = p" by (simp add: ps(1))
    moreover have "pending_loop n off start j (w @ rest) = pending_loop n (off + length w) start j rest" for n off start j rest
      using pending_loop_segment [OF ct, of n off start j "w1 @ rest"] IH by (simp add: e(3) ac_simps)
    ultimately show ?thesis using IH by blast
  qed
qed

fun encryptFrames :: "noise_crypto \<Rightarrow> bytes list \<Rightarrow> cipher_state \<Rightarrow> (bytes \<times> cipher_state) res" where
  "encryptFrames cr [] cs = Inr ([], cs)"
| "encryptFrames cr (p # ps) cs = andthen (encryptFrame cr p cs) (\<lambda>(w, cs).
     andthen (encryptFrames cr ps cs) (\<lambda>(ws, cs). Inr (w @ ws, cs)))"

lemma encryptFrames_read:
  assumes "noise_laws cr" "cs_k cs = Some k" "encryptFrames cr ps cs = Inr (w, cs')"
  shows "decrypt_loop cr [] w cs = Inr (ps, cs') \<and>
    (\<forall>off k. ps \<noteq> [] \<longrightarrow> pending_loop (k + length ps) off off k w = off + length w)"
  using assms(2,3)
proof (induction ps arbitrary: cs w)
  case Nil
  then show ?case by (simp add: decrypt_loop.simps)
next
  case (Cons p ps)
  obtain w1 cs1 ws where e: "enc_segments cr p cs = Inr (w1, cs1)" "encryptFrames cr ps cs1 = Inr (ws, cs')" "w = w1 @ [0, 0] @ ws"
    using Cons.prems(2) by (auto simp: encryptFrame_def andthen_eq_Inr split: prod.splits)
  note s = enc_segments_read [OF assms(1) Cons.prems(1) e(1)]
  then obtain qs where qs: "concat qs = p" "\<And>cur rest. decrypt_loop cr cur (w1 @ rest) cs = decrypt_loop cr (cur @ qs) rest cs1" by blast
  have IH: "decrypt_loop cr [] ws cs1 = Inr (ps, cs')" "\<And>off k. ps \<noteq> [] \<Longrightarrow> pending_loop (k + length ps) off off k ws = off + length ws"
    using Cons.IH [OF _ e(2)] s by blast+
  have "decrypt_loop cr [] w cs = Inr (p # ps, cs')" using qs(2) [of "[]" "[0, 0] @ ws"] by (simp add: e(3) decrypt_loop_end IH(1) qs(1))
  moreover have "pending_loop (j + length (p # ps)) off off j w = off + length w" for off j
  proof -
    have "pending_loop (j + length (p # ps)) off off j w = pending_loop (j + length (p # ps)) (off + length w1) off j (0 # 0 # ws)"
      using s by (simp add: e(3))
    also have "\<dots> = off + length w"
      using IH(2) [of "j + 1" "off + length w1 + 2"] by (cases "ps = []") (use e(2) in \<open>simp_all add: pending_loop_end e(3) ac_simps\<close>)
    finally show ?thesis .
  qed
  ultimately show ?case by blast
qed

text \<open>
  C14: What one end sends the other receives: the frames encrypted with a keyed cipher, of any length and
  segmented as needed, are recovered in order by the cipher with the same key and counter; all bytes are
  consumed and both counters agree again.
\<close>
theorem noise_transport_roundtrip:
  assumes "noise_laws cr" "cs_k cs = Some k" "encryptFrames cr ps cs = Inr (w, cs')"
  shows "decryptFrames cr w cs = Inr (ps, length w, cs')"
proof -
  note r = encryptFrames_read [OF assms]
  have "pendingFrameStart w (length ps) = length w"
  proof (cases "ps = []")
    case True
    then have "w = []" using assms(3) by simp
    then show ?thesis by (simp add: pendingFrameStart_def pending_loop.simps)
  next
    case False
    then have "pending_loop (0 + length ps) 0 0 0 w = 0 + length w" using r by blast
    then show ?thesis by (simp add: pendingFrameStart_def)
  qed
  then show ?thesis using r by (simp add: decryptFrames_def)
qed

text \<open>
  C38: A frame whose end mark arrives later than its segment breaks the connection: the first read decrypts
  the segment and advances the counter but consumes nothing, so that the next read decrypts the same
  segment again, under the next nonce, and fails.
\<close>
theorem noise_split_frame_rejected:
  assumes "noise_laws cr" "nonce_binding cr" "cs_k cs = Some k" "0 \<le> cs_n cs" "p \<noteq> []" "length p \<le> NOISE_MAX_PLAINTEXT"
    and "encryptFrame cr p cs = Inr (w, cs')"
  shows "decryptFrames cr (take (length w - 2) w) cs = Inr ([], 0, cs') \<and> (\<exists>e. decryptFrames cr w cs' = Inl e)"
proof -
  obtain ct where e: "encryptWithAd cr [] p cs = Inr (ct, cs')" "w = le_bytes 2 (int (length ct)) @ ct @ [0, 0]"
    using assms(5-7) unfolding encryptFrame_def
    by (subst (asm) enc_segments.simps, subst (asm) enc_segments.simps) (auto simp: andthen_eq_Inr split: prod.splits)
  note l = encrypted_length [OF assms(1) e(1) assms(3)]
  have ct: "0 < length ct" "length ct \<le> NOISE_MAX_SEGMENT" using l(1) assms(6) by (simp_all add: noise_sizes)
  have t: "take (length w - 2) w = le_bytes 2 (int (length ct)) @ ct @ []" by (simp add: e(2))
  have "decrypt_loop cr [] (take (length w - 2) w) cs = Inr ([], cs')"
    unfolding t decrypt_loop_segment [OF ct] by (simp add: decrypt_encrypted [OF assms(1) e(1)] decrypt_loop.simps)
  moreover have "pendingFrameStart (take (length w - 2) w) 0 = 0"
    unfolding t pendingFrameStart_def pending_loop_segment [OF ct] by (simp add: pending_loop.simps)
  ultimately have first: "decryptFrames cr (take (length w - 2) w) cs = Inr ([], 0, cs')" by (simp add: decryptFrames_def)
  obtain nonce where n: "nonceBytes (cs_n cs) = Inr nonce" "ct = nc_encrypt cr k nonce [] p" "cs' = cs\<lparr>cs_n := cs_n cs + 1\<rparr>"
    using e(1) assms(3) by (auto simp: encryptWithAd_def andthen_eq_Inr)
  have "\<exists>e. decryptWithAd cr [] ct cs' = Inl e"
  proof (cases "cs_n cs + 1 > MAX_NONCE")
    case False
    have "le_bytes 8 (cs_n cs + 1) \<noteq> le_bytes 8 (cs_n cs)"
    proof
      assume "le_bytes 8 (cs_n cs + 1) = le_bytes 8 (cs_n cs)"
      then have "le_value (le_bytes 8 (cs_n cs + 1)) = le_value (le_bytes 8 (cs_n cs))" by simp
      then show False using False assms(4) by (simp add: le_value_le_bytes MAX_NONCE_def)
    qed
    moreover have "nonce = replicate 4 0 @ le_bytes 8 (cs_n cs)" using n(1) by (simp add: nonceBytes_def throw_if_def split: if_splits)
    ultimately have ne: "nonce \<noteq> replicate 4 0 @ le_bytes 8 (cs_n cs + 1)" by auto
    have j: "nonceBytes (cs_n cs + 1) = Inr (replicate 4 0 @ le_bytes 8 (cs_n cs + 1))" using False by (simp add: nonceBytes_def throw_if_def)
    obtain e where "nc_decrypt cr k (replicate 4 0 @ le_bytes 8 (cs_n cs + 1)) [] ct = Inl e"
      using assms(2) n(1,2) j ne unfolding nonce_binding_def by blast
    then show ?thesis using assms(3) by (simp add: decryptWithAd_def n(3) j)
  qed (simp add: decryptWithAd_def n(3) assms(3) nonceBytes_def throw_if_def)
  then have "\<exists>e. decryptFrames cr w cs' = Inl e" by (auto simp: decryptFrames_def e(2) decrypt_loop_segment [OF ct])
  with first show ?thesis by blast
qed

section \<open>A sample suite\<close>

text \<open>A commutative secret and an authenticator that carries the nonce.\<close>

definition sample_pad :: "bytes \<Rightarrow> bytes" where
  "sample_pad a = take 32 (a @ replicate 32 0)"

definition sample_tag :: "bytes \<Rightarrow> bytes" where
  "sample_tag n = take 16 (drop 4 n @ replicate 16 0)"

definition sample_suite :: noise_crypto where
  "sample_suite = \<lparr>nc_dh = \<lambda>a b. Inr (map2 (+) (sample_pad a) (sample_pad b)), nc_pub = sample_pad, nc_blake2s = sample_pad,
     nc_hmac = \<lambda>k d. sample_pad (d @ k), nc_encrypt = \<lambda>k n ad p. p @ sample_tag n,
     nc_decrypt = \<lambda>k n ad c. if drop (length c - 16) c = sample_tag n then Inr (take (length c - 16) c) else Inl (Error ''invalid tag'')\<rparr>"

lemma sample_pad_props [simp]: "length (sample_pad a) = 32" "sample_pad (sample_pad a) = sample_pad a"
  by (simp_all add: sample_pad_def)

lemma sample_tag_length [simp]: "length (sample_tag n) = 16"
  by (simp add: sample_tag_def)

lemma sample_suite_laws: "noise_laws sample_suite"
proof -
  have "map2 (+) xs ys = map2 (+) ys (xs :: byte list)" for xs ys
    by (induction xs ys rule: list_induct2') (simp_all add: add.commute)
  then show ?thesis by (simp add: noise_laws_def sample_suite_def TAG_LEN_def)
qed

lemma sample_suite_binding: "nonce_binding sample_suite"
proof -
  have "sample_tag n \<noteq> sample_tag n'" if "nonceBytes i = Inr n" "nonceBytes j = Inr n'" "n \<noteq> n'" for i j n n'
    using that by (auto simp: nonceBytes_def throw_if_def sample_tag_def split: if_splits)
  then show ?thesis unfolding nonce_binding_def sample_suite_def by force
qed

theorem noise_handshake_agrees_witness:
  "\<exists>i0 i1 r0 r1 r2 m1 m2 fin res i2. newNoiseNX sample_suite Initiator None = Inr i0 \<and> writeMessage1 sample_suite [1] i0 = Inr (m1, i1) \<and>
     newNoiseNX sample_suite Responder (Some ([2], nc_pub sample_suite [2])) = Inr r0 \<and> readMessage1 sample_suite m1 r0 = Inr r1 \<and>
     writeMessage2 sample_suite [3] [7, 7] r1 = Inr (m2, r2) \<and> finishResponder sample_suite r2 = Inr fin \<and>
     readMessage2 sample_suite m2 i1 = Inr (res, i2) \<and> hr_responderPayload res = Some [7, 7]"
proof -
  obtain i0 where i0: "newNoiseNX sample_suite Initiator None = Inr i0" by (simp add: newNoiseNX_def throw_if_def)
  obtain r0 where r0: "newNoiseNX sample_suite Responder (Some ([2], nc_pub sample_suite [2])) = Inr r0" by (simp add: newNoiseNX_def throw_if_def)
  obtain m1 i1 where m1: "writeMessage1 sample_suite [1] i0 = Inr (m1, i1)" "m1 = nc_pub sample_suite [1]"
    using i0 by (auto simp: writeMessage1_def newNoiseNX_def throw_if_def Let_def)
  have "length m1 = 32" using m1(2) sample_suite_laws by (simp add: noise_laws_def)
  then obtain r1 where r1: "readMessage1 sample_suite m1 r0 = Inr r1" "nx_role r1 = Responder" "nx_re r1 \<noteq> None"
      "nx_staticKey r1 = Some ([2], nc_pub sample_suite [2])"
    using r0 by (auto simp: readMessage1_def newNoiseNX_def throw_if_def Let_def)
  have enc: "\<exists>ct s'. encryptAndHash sample_suite p (mixKey sample_suite ikm s) = Inr (ct, s')" for p ikm s
    by (simp add: encryptAndHash_def encryptWithAd_def mixKey_def newCipherState_def nonceBytes_def throw_if_def MAX_NONCE_def Let_def)
  have dh: "\<exists>x. nc_dh sample_suite a b = Inr x" for a b by (simp add: sample_suite_def)
  obtain re where re: "nx_re r1 = Some re" using r1(3) by blast
  obtain ee es where d: "nc_dh sample_suite [3] re = Inr ee" "nc_dh sample_suite [2] re = Inr es" using dh by meson
  obtain encS s2 where s2: "encryptAndHash sample_suite (nc_pub sample_suite [2])
      (mixKey sample_suite ee (mixHash sample_suite (nc_pub sample_suite [3]) (nx_sym r1))) = Inr (encS, s2)" using enc by meson
  obtain encP s3 where s3: "encryptAndHash sample_suite [7, 7] (mixKey sample_suite es s2) = Inr (encP, s3)" using enc by meson
  obtain m2 r2 where m2: "writeMessage2 sample_suite [3] [7, 7] r1 = Inr (m2, r2)" "nx_role r2 = Responder"
    by (auto simp: writeMessage2_def throw_if_def r1 re Let_def d s2 s3)
  obtain fin where fin: "finishResponder sample_suite r2 = Inr fin"
    using m2(2) by (cases "split_state sample_suite (nx_sym r2)") (simp add: finishResponder_def throw_if_def)
  from noise_handshake_agrees [OF sample_suite_laws refl i0 r0 m1(1) r1(1) m2(1) fin] show ?thesis
    using i0 r0 m1(1) r1(1) m2(1) fin by blast
qed

definition sample_cipher :: cipher_state where
  "sample_cipher = \<lparr>cs_k = Some [9], cs_n = 0\<rparr>"

lemma sample_frame: "encryptFrame sample_suite [5] sample_cipher = Inr ([17, 0, 5] @ replicate 16 0 @ [0, 0], sample_cipher\<lparr>cs_n := 1\<rparr>)"
  by (simp add: encryptFrame_def enc_segments.simps encryptWithAd_def sample_cipher_def sample_suite_def nonceBytes_def throw_if_def
      MAX_NONCE_def noise_sizes sample_tag_def) (simp add: eval_nat_numeral)

theorem noise_transport_roundtrip_witness:
  "decryptFrames sample_suite ([17, 0, 5] @ replicate 16 0 @ [0, 0]) sample_cipher = Inr ([[5]], 21, sample_cipher\<lparr>cs_n := 1\<rparr>)"
proof -
  have "encryptFrames sample_suite [[5]] sample_cipher = Inr ([17, 0, 5] @ replicate 16 0 @ [0, 0], sample_cipher\<lparr>cs_n := 1\<rparr>)"
    by (simp add: sample_frame)
  from noise_transport_roundtrip [OF sample_suite_laws _ this, of "[9]"] show ?thesis by (simp add: sample_cipher_def)
qed

theorem noise_split_frame_rejected_witness:
  "decryptFrames sample_suite ([17, 0, 5] @ replicate 16 0) sample_cipher = Inr ([], 0, sample_cipher\<lparr>cs_n := 1\<rparr>) \<and>
   (\<exists>e. decryptFrames sample_suite ([17, 0, 5] @ replicate 16 0 @ [0, 0]) (sample_cipher\<lparr>cs_n := 1\<rparr>) = Inl e)"
proof -
  have "cs_k sample_cipher = Some [9]" "0 \<le> cs_n sample_cipher" "[5] \<noteq> ([] :: bytes)" "length [5 :: byte] \<le> NOISE_MAX_PLAINTEXT"
    by (simp_all add: sample_cipher_def noise_sizes)
  from noise_split_frame_rejected [OF sample_suite_laws sample_suite_binding this sample_frame] show ?thesis by simp
qed

end
