(* ===== verification/Sv2_Cert.thy ===== *)
theory Sv2_Cert
  imports Sv2_Types
begin

text \<open>
  Key files and the certificate of the static key (\<^verbatim>\<open>sv2/lib/keys.ts\<close>, \<^verbatim>\<open>sv2/lib/cert.ts\<close>). Ed25519 and
  X25519 are parameters; a file is its contents, if it exists, and an operation returns what it writes.
\<close>

section \<open>Keys\<close>

text \<open>A private and a public key, on disk as 64 bytes.\<close>

record key_pair =
  kp_priv :: bytes
  kp_pub :: bytes

definition writeKeyFile :: "key_pair \<Rightarrow> bytes res" where
  "writeKeyFile k =
     throw_if (length (kp_priv k) \<noteq> 32 \<or> length (kp_pub k) \<noteq> 32) (Error ''key must be 32+32 bytes'') (
     andthen (arr_set (replicate 64 0) (kp_priv k) 0) (\<lambda>buf. arr_set buf (kp_pub k) 32))"

definition readKeyFile :: "bytes \<Rightarrow> key_pair res" where
  "readKeyFile buf =
     throw_if (length buf \<noteq> 64) (Error ''expected 64 bytes'')
       (Inr \<lparr>kp_priv = slice buf 0 32, kp_pub = slice buf 32 64\<rparr>)"

text \<open>
  \<^verbatim>\<open>loadOrCreateAuthorityKey\<close> and \<^verbatim>\<open>loadOrCreateStaticKey\<close> for the curve's \<open>getPublicKey\<close> and a fresh private
  key: the key, and the file written.
\<close>

definition loadOrCreateKey :: "(bytes \<Rightarrow> bytes) \<Rightarrow> bytes \<Rightarrow> bytes option \<Rightarrow> (key_pair \<times> bytes option) res" where
  "loadOrCreateKey getPublicKey fresh disk = (case disk of
     Some buf \<Rightarrow>
       andthen (readKeyFile buf) (\<lambda>k.
       throw_if (getPublicKey (kp_priv k) \<noteq> kp_pub k) (Error ''priv/pub mismatch'')
         (Inr (\<lparr>kp_priv = kp_priv k, kp_pub = getPublicKey (kp_priv k)\<rparr>, None)))
   | None \<Rightarrow>
       let k = \<lparr>kp_priv = fresh, kp_pub = getPublicKey fresh\<rparr> in
       andthen (writeKeyFile k) (\<lambda>buf. Inr (k, Some buf)))"

section \<open>Certificates\<close>

definition SV2_CERT_LEN :: nat where
  "SV2_CERT_LEN = 2 + 4 + 4 + 32 + 64"

definition SV2_CERT_VERSION :: int where
  "SV2_CERT_VERSION = 0"

record sv2_certificate =
  ce_version :: int
  ce_validFrom :: int
  ce_notValidAfter :: int
  ce_publicKey :: bytes
  ce_signature :: bytes

definition signatureMessage :: "int \<Rightarrow> int \<Rightarrow> int \<Rightarrow> bytes \<Rightarrow> bytes res" where
  "signatureMessage vers validFrom notValidAfter pub = wr [w_u16 vers, w_u32 validFrom, w_u32 notValidAfter, w_pubkey pub]"

definition signCertificate :: "(bytes \<Rightarrow> bytes \<Rightarrow> bytes) \<Rightarrow> bytes \<Rightarrow> bytes \<Rightarrow> int \<Rightarrow> int \<Rightarrow> sv2_certificate res" where
  "signCertificate sign priv staticPub validFrom notValidAfter =
     andthen (signatureMessage SV2_CERT_VERSION validFrom notValidAfter staticPub) (\<lambda>msg.
     Inr \<lparr>ce_version = SV2_CERT_VERSION, ce_validFrom = validFrom, ce_notValidAfter = notValidAfter, ce_publicKey = staticPub,
          ce_signature = sign priv msg\<rparr>)"

definition encodeCertificate :: "sv2_certificate \<Rightarrow> bytes res" where
  "encodeCertificate c = wr [w_u16 (ce_version c), w_u32 (ce_validFrom c), w_u32 (ce_notValidAfter c), w_pubkey (ce_publicKey c),
     w_signature (ce_signature c)]"

definition readCertificate :: "sv2_certificate reader" where
  "readCertificate =
     rd r_u16 (\<lambda>vers. rd r_u32 (\<lambda>validFrom. rd r_u32 (\<lambda>notValidAfter. rd r_pubkey (\<lambda>publicKey. rd r_signature (\<lambda>signature.
     rd_return \<lparr>ce_version = vers, ce_validFrom = validFrom, ce_notValidAfter = notValidAfter, ce_publicKey = publicKey,
       ce_signature = signature\<rparr>)))))"

definition decodeCertificate :: "bytes \<Rightarrow> sv2_certificate res" where
  "decodeCertificate buf =
     throw_if (length buf < SV2_CERT_LEN) (Error ''SV2 cert too short'') (decode_payload readCertificate buf)"

text \<open>The reason of a refusal, or \<^verbatim>\<open>ok\<close>; \<^verbatim>\<open>ed25519Verify\<close> turns an exception of the library into \<^verbatim>\<open>false\<close>.\<close>

datatype cert_verdict = CertOk | UnknownVersion | NotYetValid | Expired | BadSignature

definition verifyCertificate :: "(bytes \<Rightarrow> bytes \<Rightarrow> bytes \<Rightarrow> bool) \<Rightarrow> bytes \<Rightarrow> int \<Rightarrow> sv2_certificate \<Rightarrow> cert_verdict res" where
  "verifyCertificate verify authorityPub now cert =
     (if ce_version cert \<noteq> SV2_CERT_VERSION then Inr UnknownVersion
      else if now < ce_validFrom cert then Inr NotYetValid
      else if now \<ge> ce_notValidAfter cert then Inr Expired
      else andthen (signatureMessage (ce_version cert) (ce_validFrom cert) (ce_notValidAfter cert) (ce_publicKey cert)) (\<lambda>msg.
        Inr (if verify authorityPub msg (ce_signature cert) then CertOk else BadSignature)))"

definition issueCertificate :: "(bytes \<Rightarrow> bytes \<Rightarrow> bytes) \<Rightarrow> key_pair \<Rightarrow> bytes \<Rightarrow> int \<Rightarrow> int \<Rightarrow> (sv2_certificate \<times> bytes option) res" where
  "issueCertificate sign authority staticPub validitySeconds now =
     andthen (signCertificate sign (kp_priv authority) staticPub now (now + validitySeconds)) (\<lambda>cert.
     andthen (encodeCertificate cert) (\<lambda>buf. Inr (cert, Some buf)))"

definition loadOrIssueCertificate ::
  "(bytes \<Rightarrow> bytes \<Rightarrow> bytes) \<Rightarrow> (bytes \<Rightarrow> bytes \<Rightarrow> bytes \<Rightarrow> bool) \<Rightarrow> bytes option \<Rightarrow> key_pair \<Rightarrow> bytes \<Rightarrow> int \<Rightarrow> int \<Rightarrow>
   (sv2_certificate \<times> bytes option) res" where
  "loadOrIssueCertificate sign verify disk authority staticPub validitySeconds now = (case disk of
     None \<Rightarrow> issueCertificate sign authority staticPub validitySeconds now
   | Some buf \<Rightarrow>
       andthen (decodeCertificate buf) (\<lambda>cert.
       andthen (verifyCertificate verify (kp_pub authority) now cert) (\<lambda>verdict.
       if ce_notValidAfter cert > now + 7 * 24 * 60 * 60 \<and> ce_publicKey cert = staticPub \<and> verdict = CertOk then Inr (cert, None)
       else issueCertificate sign authority staticPub validitySeconds now)))"

section \<open>The certificate is a wire type\<close>

definition ok_certificate :: "sv2_certificate \<Rightarrow> bool" where
  "ok_certificate c \<longleftrightarrow> ok_u16 (ce_version c) \<and> ok_u32 (ce_validFrom c) \<and> ok_u32 (ce_notValidAfter c) \<and>
     length (ce_publicKey c) = 32 \<and> length (ce_signature c) = 64"

interpretation certificate: wire encodeCertificate readCertificate ok_certificate
proof
  fix c
  show "codes (encodeCertificate c) readCertificate c" if "ok_certificate c"
    using that unfolding ok_certificate_def encodeCertificate_def readCertificate_def
    by (intro u16.field u32.field pubkey.field signature.field codes_Nil) auto
  show "stable readCertificate"
    unfolding readCertificate_def by (intro stable_intros u16.stable u32.stable pubkey.stable signature.stable)
qed

lemma encodeCertificate_length: "encodeCertificate c = Inr buf \<Longrightarrow> length buf = SV2_CERT_LEN"
  by (auto simp: encodeCertificate_def wr.simps w_u16_def w_u32_def w_pubkey_def w_u256_def w_signature_def SV2_CERT_LEN_def throw_if_def
      andthen_eq_Inr split: if_splits)

lemma issued_usable:
  assumes "\<And>m. verify (kp_pub authority) m (sign (kp_priv authority) m)" "\<And>m. length (sign (kp_priv authority) m) = 64"
    and "0 \<le> now" "0 < validity" "now + validity < 2 ^ 32" "issueCertificate sign authority staticPub validity now = Inr (cert, disk)"
  shows "\<exists>buf. disk = Some buf \<and> decodeCertificate buf = Inr cert" "verifyCertificate verify (kp_pub authority) now cert = Inr CertOk"
    "ce_publicKey cert = staticPub" "ce_notValidAfter cert = now + validity"
proof -
  obtain msg buf where m: "signatureMessage SV2_CERT_VERSION now (now + validity) staticPub = Inr msg"
    "cert = \<lparr>ce_version = SV2_CERT_VERSION, ce_validFrom = now, ce_notValidAfter = now + validity, ce_publicKey = staticPub,
       ce_signature = sign (kp_priv authority) msg\<rparr>" "encodeCertificate cert = Inr buf" "disk = Some buf"
    using assms(6) by (auto simp: issueCertificate_def signCertificate_def andthen_eq_Inr)
  have len: "length staticPub = 32"
    using m(1) by (auto simp: signatureMessage_def wr.simps w_pubkey_def w_u256_def throw_if_def andthen_eq_Inr split: if_splits)
  then have "ok_certificate cert" using assms(2-5) by (simp add: m(2) ok_certificate_def ok_uint_def SV2_CERT_VERSION_def)
  then have "decodeCertificate buf = Inr cert"
    using certificate.decode_payload_put m(3) encodeCertificate_length [OF m(3)] by (simp add: decodeCertificate_def throw_if_def)
  then show "\<exists>buf. disk = Some buf \<and> decodeCertificate buf = Inr cert" using m(4) by simp
  show "verifyCertificate verify (kp_pub authority) now cert = Inr CertOk"
    using assms(1,4) m(1) by (simp add: verifyCertificate_def m(2))
  show "ce_publicKey cert = staticPub" "ce_notValidAfter cert = now + validity" by (simp_all add: m(2))
qed

text \<open>
  The certificate that the server presents verifies under the authority's key, certifies the static key it
  runs with, is valid for more than a week, and is what the file on disk then decodes to.
\<close>

theorem certificate_usable:
  assumes "\<And>m. verify (kp_pub authority) m (sign (kp_priv authority) m)" "\<And>m. length (sign (kp_priv authority) m) = 64"
    and "0 \<le> now" "7 * 24 * 60 * 60 < validity" "now + validity < 2 ^ 32"
    and "loadOrIssueCertificate sign verify disk authority staticPub validity now = Inr (cert, written)"
  shows "verifyCertificate verify (kp_pub authority) now cert = Inr CertOk \<and> ce_publicKey cert = staticPub \<and>
    now + 7 * 24 * 60 * 60 < ce_notValidAfter cert \<and>
    (\<exists>buf. (written = Some buf \<or> written = None \<and> disk = Some buf) \<and> decodeCertificate buf = Inr cert)"
proof -
  have issued: ?thesis if i: "issueCertificate sign authority staticPub validity now = Inr (cert, written)"
    using issued_usable [of verify authority sign now validity, OF assms(1,2,3) _ assms(5) i] assms(4) by auto
  show ?thesis
  proof (cases disk)
    case None
    then show ?thesis using assms(6) by (intro issued) (simp add: loadOrIssueCertificate_def)
  next
    case (Some buf)
    obtain old verdict where o: "decodeCertificate buf = Inr old" "verifyCertificate verify (kp_pub authority) now old = Inr verdict"
      using assms(6) by (auto simp: loadOrIssueCertificate_def Some andthen_eq_Inr)
    show ?thesis
    proof (cases "ce_notValidAfter old > now + 7 * 24 * 60 * 60 \<and> ce_publicKey old = staticPub \<and> verdict = CertOk")
      case True
      then have "cert = old" "written = None" using assms(6) o by (simp_all add: loadOrIssueCertificate_def Some)
      then show ?thesis using True o Some by auto
    next
      case False
      then show ?thesis using assms(6) o by (intro issued) (simp add: loadOrIssueCertificate_def Some split: if_splits)
    qed
  qed
qed

text \<open>A key file that was written is read back.\<close>

lemma key_file_roundtrip: "writeKeyFile k = Inr buf \<Longrightarrow> readKeyFile buf = Inr k"
  by (cases k) (auto simp: writeKeyFile_def readKeyFile_def throw_if_def arr_set_def slice_def split: if_splits)

end
