(* ===== verification/Sv2_Mining_Server.thy ===== *)
theory Sv2_Mining_Server
  imports Actions Sv2_Channel Sv2_Noise Sv2_Cert Sv2_Common
begin

text \<open>
  The Stratum V2 mining server (\<^verbatim>\<open>sv2/mining/server.ts\<close>): connections with their handshake, buffers and
  channels, the dispatch of frames, job broadcast and the bridge for custom jobs. A method is an
  \<open>act\<close>: it runs on one connection and the state of the server, returns its effects in order and may
  throw after some of them. A frame is handled to completion before the
  next one: the answer to a submission, which the code sends when the awaited validation returns, is sent
  at once.

  The submit handlers are asynchronous and their promises are dropped by \<^verbatim>\<open>dispatch\<close>: an error in one
  of them is an unhandled rejection (\<open>Unhandled\<close>), on which the process ends.
\<close>

section \<open>State\<close>

datatype conn_phase = HandshakeM1 | SetupPending | Ready | Dead

record pending_hs =
  hs_m2Sent :: bool
  hs_nx :: noise_nx
  hs_buf :: bytes

record conn_setup =
  su_protocol :: int
  su_usedVersion :: int
  su_flags :: int

text \<open>The transport is its sending and its receiving cipher.\<close>

record conn =
  cn_id :: int
  cn_state :: conn_phase
  cn_hs :: "pending_hs option"
  cn_transport :: "(cipher_state \<times> cipher_state) option"
  cn_plain :: bytes
  cn_channels :: channel_table
  cn_setup :: "conn_setup option"
  cn_ct :: bytes
  cn_destroyed :: bool

record mining_server =
  mv_conns :: "(int, conn) jsmap"
  mv_nextConnId :: int
  mv_jobIdCounter :: int
  mv_jobsBySv2Id :: "(int, stratum_job) jsmap"
  mv_pads :: pad_cache

record sv2_env =
  ev_crypto :: noise_crypto
  ev_b3 :: "bytes \<Rightarrow> nat \<Rightarrow> bytes"
  ev_sha :: "bytes \<Rightarrow> bytes"
  ev_rand :: "nat \<Rightarrow> bytes"
  ev_ephemeral :: bytes
  ev_now :: int
  ev_cert :: sv2_certificate
  ev_staticKey :: "bytes \<times> bytes"
  ev_defaultDifficulty :: jsnum
  ev_currentJob :: "stratum_job option"

datatype sv2_effect = Wire int bytes | ShareOut share_event | BlockOut string | Unhandled js_error

section \<open>Actions\<close>

type_synonym 'a act = "(conn \<times> mining_server, sv2_effect, 'a) action"

definition destroy_socket :: "unit act" where
  "destroy_socket = on_conn (\<lambda>c. c\<lparr>cn_destroyed := True\<rparr>)"

section \<open>Sending\<close>

definition send :: "sv2_env \<Rightarrow> bytes \<Rightarrow> unit act" where
  "send env plainFrame = (\<lambda>(c, s). case cn_transport c of
     None \<Rightarrow> ([], Inr (), c, s)
   | Some (out, inp) \<Rightarrow>
       if length plainFrame < SV2_HEADER_LEN then ([], Inr (), c, s)
       else (case encryptFrame (ev_crypto env) plainFrame out of
           Inl e \<Rightarrow> ([], Inl e, c, s)
         | Inr (ct, out) \<Rightarrow>
             (if cn_destroyed c then [] else [Wire (cn_id c) ct], Inr (), c\<lparr>cn_transport := Some (out, inp)\<rparr>, s)))"

text \<open>Encoding a message, which may throw, and sending it.\<close>

definition send_encoded :: "sv2_env \<Rightarrow> bytes res \<Rightarrow> unit act" where
  "send_encoded env frame = act_then (act_of frame) (send env)"

definition ascii :: "string \<Rightarrow> ustring" where
  "ascii s = map of_char s"

section \<open>Jobs\<close>

definition trim_jobs :: "(int, stratum_job) jsmap \<Rightarrow> (int, stratum_job) jsmap" where
  "trim_jobs m = (if length m > 4096 then (case m of [] \<Rightarrow> [] | (oldest, _) # _ \<Rightarrow> jsmap_delete oldest m) else m)"

definition send_job :: "sv2_env \<Rightarrow> channel_state \<Rightarrow> stratum_job \<Rightarrow> int \<Rightarrow> unit act" where
  "send_job env ch job jobId =
     act_then (if ch_kind ch = Standard
        then act_then (act_of (buildNewStandardJob (ev_sha env) ch job jobId)) (\<lambda>(_, b, _). send env b)
        else act_then (act_of (buildNewExtendedJob ch job jobId)) (\<lambda>(_, b). send env b)) (\<lambda>_.
     act_then (act_of (buildSetNewPrevHash ch job jobId)) (\<lambda>(_, b). send env b))"

definition pushJobToChannel :: "sv2_env \<Rightarrow> int \<Rightarrow> stratum_job \<Rightarrow> unit act" where
  "pushJobToChannel env channelId job = (\<lambda>(c, s). case get_channel channelId (cn_channels c) of
     None \<Rightarrow> ([], Inr (), c, s)
   | Some ch \<Rightarrow>
       let sv2JobId = nextSv2JobId (mv_jobIdCounter s) in
       act_then (send_job env ch job sv2JobId) (\<lambda>_.
       act_then (on_conn (\<lambda>c. c\<lparr>cn_channels := update_channel_state channelId (\<lambda>ch. ch\<lparr>ch_lastJobId := sv2JobId\<rparr>) (cn_channels c)\<rparr>)) (\<lambda>_.
       on_server (\<lambda>s. s\<lparr>mv_jobsBySv2Id := trim_jobs (jsmap_set sv2JobId job (mv_jobsBySv2Id s))\<rparr>)))
       (c, s\<lparr>mv_jobIdCounter := sv2JobId\<rparr>))"

definition lookupJob :: "int \<Rightarrow> mining_server \<Rightarrow> stratum_job option" where
  "lookupJob sv2JobId s = jsmap_get (mv_jobsBySv2Id s) sv2JobId"

section \<open>Messages of a miner\<close>

definition handleSetup :: "sv2_env \<Rightarrow> bytes \<Rightarrow> unit act" where
  "handleSetup env payload =
     act_then (act_of (decodeSetupConnection payload)) (\<lambda>m.
     let used = min (sc_maxVersion m) 2 in
     if sc_protocol m \<noteq> SubProtocol_Mining then
       act_then (send_encoded env (encodeSetupConnectionError \<lparr>sce_flags = 0, sce_errorCode = ascii ''unsupported-protocol''\<rparr>)) (\<lambda>_. destroy_socket)
     else if used < sc_minVersion m then
       act_then (send_encoded env (encodeSetupConnectionError \<lparr>sce_flags = 0, sce_errorCode = ascii ''protocol-version-mismatch''\<rparr>)) (\<lambda>_. destroy_socket)
     else
       act_then (on_conn (\<lambda>c. c\<lparr>cn_setup := Some \<lparr>su_protocol = sc_protocol m, su_usedVersion = used, su_flags = sc_flags m\<rparr>\<rparr>)) (\<lambda>_.
       act_then (send_encoded env (encodeSetupConnectionSuccess \<lparr>scs_usedVersion = used, scs_flags = 0\<rparr>)) (\<lambda>_.
       on_conn (\<lambda>c. c\<lparr>cn_state := Ready\<rparr>))))"

text \<open>\<^verbatim>\<open>conn.channels.open\<close>.\<close>

definition open_on_conn :: "sv2_env \<Rightarrow> channel_kind \<Rightarrow> int \<Rightarrow> ustring \<Rightarrow> nat option \<Rightarrow> channel_state act" where
  "open_on_conn env kind requestId userIdentity prefixLen = (\<lambda>(c, s).
     case open_channel (ev_rand env) kind requestId userIdentity (ev_defaultDifficulty env) prefixLen (cn_channels c) of
       (r, t) \<Rightarrow> ([], r, c\<lparr>cn_channels := t\<rparr>, s))"

text \<open>What follows the success message of both kinds of channel.\<close>

definition start_channel :: "sv2_env \<Rightarrow> channel_state \<Rightarrow> unit act" where
  "start_channel env ch =
     act_then (act_of (buildSetTarget ch)) (\<lambda>(_, b).
     act_then (send env b) (\<lambda>_.
     case ev_currentJob env of None \<Rightarrow> act_done | Some job \<Rightarrow> pushJobToChannel env (ch_id ch) job))"

definition handleOpenStandard :: "sv2_env \<Rightarrow> bytes \<Rightarrow> unit act" where
  "handleOpenStandard env payload =
     act_then (act_of (decodeOpenStandardMiningChannel payload)) (\<lambda>m.
     act_then (open_on_conn env Standard (osc_requestId m) (osc_userIdentity m) None) (\<lambda>ch.
     act_then (send_encoded env (encodeOpenStandardMiningChannelSuccess \<lparr>oscs_requestId = osc_requestId m, oscs_channelId = ch_id ch,
       oscs_target = ch_targetBE ch, oscs_extranoncePrefix = ch_extranoncePrefix ch, oscs_groupChannelId = ch_groupChannelId ch\<rparr>)) (\<lambda>_.
     start_channel env ch)))"

definition handleOpenExtended :: "sv2_env \<Rightarrow> bytes \<Rightarrow> unit act" where
  "handleOpenExtended env payload =
     act_then (act_of (decodeOpenExtendedMiningChannel payload)) (\<lambda>m.
     let total = int SV2_EXTRANONCE_TOTAL; prefixLen = nat (min (max (total - oec_minExtranonceSize m) 1) (total - 1)) in
     if oec_minExtranonceSize m > total - 1 then
       send_encoded env (encodeOpenChannelError MSG_OPEN_EXT_CHANNEL_ERROR
         \<lparr>oce_requestId = oec_requestId m, oce_errorCode = ascii ''min-extranonce-size-too-large''\<rparr>)
     else
       act_then (open_on_conn env Extended (oec_requestId m) (oec_userIdentity m) (Some prefixLen)) (\<lambda>ch.
       act_then (send_encoded env (encodeOpenExtendedMiningChannelSuccess \<lparr>oecs_requestId = oec_requestId m, oecs_channelId = ch_id ch,
         oecs_target = ch_targetBE ch, oecs_extranonceSize = int (ch_extranonceSize ch), oecs_extranoncePrefix = ch_extranoncePrefix ch\<rparr>)) (\<lambda>_.
       start_channel env ch)))"

definition handleUpdate :: "bytes \<Rightarrow> unit act" where
  "handleUpdate payload = act_then (act_of (decodeUpdateChannel payload)) (\<lambda>_. act_done)"

definition handleClose :: "bytes \<Rightarrow> unit act" where
  "handleClose payload =
     (if length payload < 4 then act_done
      else on_conn (\<lambda>c. c\<lparr>cn_channels := delete_channel (le_value (take 4 payload)) (cn_channels c)\<rparr>))"

section \<open>Shares\<close>

definition submit_error :: "sv2_env \<Rightarrow> int \<Rightarrow> int \<Rightarrow> string \<Rightarrow> unit act" where
  "submit_error env channelId seq errorCode =
     send_encoded env (encodeSubmitSharesError \<lparr>ser_channelId = channelId, ser_sequenceNumber = seq, ser_errorCode = ascii errorCode\<rparr>)"

text \<open>\<^verbatim>\<open>BigInt(Math.max(1, Math.floor(d)))\<close>.\<close>

definition shares_sum :: "jsnum \<Rightarrow> int res" where
  "shares_sum d = (let f = js_floor d in bigint_of_num (if f = NaN then NaN else if js_lt f (Fin 1) then Fin 1 else f))"

definition replySubmit :: "sv2_env \<Rightarrow> int \<Rightarrow> int \<Rightarrow> submit_outcome \<Rightarrow> unit act" where
  "replySubmit env channelId seq r = (case r of
     SubmitFail reason \<Rightarrow> submit_error env channelId seq (reason_text reason)
   | SubmitOk _ event \<Rightarrow> (\<lambda>(c, s).
       let ch = get_channel channelId (cn_channels c) in
       act_then (on_conn (\<lambda>c. c\<lparr>cn_channels := update_channel_state channelId (\<lambda>ch. ch\<lparr>ch_lastAcceptedSequence := seq\<rparr>) (cn_channels c)\<rparr>)) (\<lambda>_.
       act_then (act_of (shares_sum (case ch of None \<Rightarrow> Fin 1 | Some ch \<Rightarrow> ch_shareDifficulty ch))) (\<lambda>sum.
       act_then (send_encoded env (encodeSubmitSharesSuccess \<lparr>ssc_channelId = channelId, ssc_lastSequenceNumber = seq,
         ssc_newSubmitsAcceptedCount = 1, ssc_newSharesSum = sum\<rparr>)) (\<lambda>_.
       emit [ShareOut event]))) (c, s)))"

text \<open>The body that both submit handlers have after decoding.\<close>

definition submitShare :: "sv2_env \<Rightarrow> int \<Rightarrow> int \<Rightarrow> int \<Rightarrow> int \<Rightarrow> int \<Rightarrow> bytes \<Rightarrow> unit act" where
  "submitShare env channelId seq jobId nonce ntime extranonce = (\<lambda>(c, s).
     case get_channel channelId (cn_channels c) of
       None \<Rightarrow> submit_error env channelId seq ''no-such-channel'' (c, s)
     | Some ch \<Rightarrow>
         (case lookupJob jobId s of
            None \<Rightarrow> submit_error env channelId seq ''stale-job'' (c, s)
          | Some job \<Rightarrow>
              let (r, pads) = processSubmit (ev_b3 env) (ev_sha env) (ev_now env) ch (job_context.truncate job) nonce ntime extranonce
                    (jc_height job) (networkDifficultyFromBits (jc_bits job)) (mv_pads s) in
              act_then (act_of r) (\<lambda>(outcome, block).
              act_then (emit (case block of None \<Rightarrow> [] | Some b \<Rightarrow> [BlockOut b])) (\<lambda>_.
              replySubmit env (ch_id ch) seq outcome)) (c, s\<lparr>mv_pads := pads\<rparr>)))"

definition handleSubmitStd :: "sv2_env \<Rightarrow> bytes \<Rightarrow> unit act" where
  "handleSubmitStd env payload =
     act_then (act_of (decodeSubmitSharesStandard payload)) (\<lambda>m.
     submitShare env (sss_channelId m) (sss_sequenceNumber m) (sss_jobId m) (sss_nonce m) (sss_ntime m) [])"

definition handleSubmitExt :: "sv2_env \<Rightarrow> bytes \<Rightarrow> unit act" where
  "handleSubmitExt env payload =
     act_then (act_of (decodeSubmitSharesExtended payload)) (\<lambda>m.
     submitShare env (sse_channelId m) (sse_sequenceNumber m) (sse_jobId m) (sse_nonce m) (sse_ntime m) (sse_extranonce m))"

section \<open>Frames\<close>

definition dispatch :: "sv2_env \<Rightarrow> sv2_frame \<Rightarrow> unit act" where
  "dispatch env f = (\<lambda>(c, s).
     let h = fr_header f; payload = fr_payload f in
     (if cn_state c = SetupPending then
        (if fh_extensionType h = 0 \<and> fh_msgType h = MSG_SETUP_CONNECTION then handleSetup env payload else destroy_socket)
      else if cn_state c \<noteq> Ready then act_done
      else if fh_msgType h = MSG_OPEN_STD_CHANNEL then handleOpenStandard env payload
      else if fh_msgType h = MSG_OPEN_EXT_CHANNEL then handleOpenExtended env payload
      else if fh_msgType h = MSG_SUBMIT_SHARES_STANDARD then detached Unhandled (handleSubmitStd env payload)
      else if fh_msgType h = MSG_SUBMIT_SHARES_EXTENDED then detached Unhandled (handleSubmitExt env payload)
      else if fh_msgType h = MSG_UPDATE_CHANNEL then handleUpdate payload
      else if fh_msgType h = MSG_CLOSE_CHANNEL then handleClose payload
      else act_done) (c, s))"

definition handlePlainBytes :: "sv2_env \<Rightarrow> bytes \<Rightarrow> unit act" where
  "handlePlainBytes env plain = (\<lambda>(c, s).
     let buf = cn_plain c @ plain; (frames, consumed) = splitFrames buf in
     act_each (dispatch env) frames (c\<lparr>cn_plain := drop consumed buf\<rparr>, s))"

text \<open>Decrypting what \<^verbatim>\<open>conn.ct\<close> holds and handling the frames.\<close>

definition handleCiphertext :: "sv2_env \<Rightarrow> unit act" where
  "handleCiphertext env = (\<lambda>(c, s). case cn_transport c of
     None \<Rightarrow> ([], Inr (), c, s)
   | Some (out, inp) \<Rightarrow>
       (case decryptFrames (ev_crypto env) (cn_ct c) inp of
          Inl e \<Rightarrow> ([], Inl e, c, s)
        | Inr (frames, consumed, inp) \<Rightarrow>
            act_each (handlePlainBytes env) frames (c\<lparr>cn_ct := drop consumed (cn_ct c), cn_transport := Some (out, inp)\<rparr>, s)))"

text \<open>The answer to message 1: message 2 on the wire and the handshake's ciphers.\<close>

definition answer_m1 :: "sv2_env \<Rightarrow> bytes \<Rightarrow> noise_nx \<Rightarrow> (bytes \<times> noise_nx \<times> handshake_result) res" where
  "answer_m1 env m1 nx =
     andthen (readMessage1 (ev_crypto env) m1 nx) (\<lambda>nx.
     andthen (encodeCertificate (ev_cert env)) (\<lambda>certBytes.
     andthen (writeMessage2 (ev_crypto env) (ev_ephemeral env) certBytes nx) (\<lambda>(m2, nx).
     andthen (finishResponder (ev_crypto env) nx) (\<lambda>fin.
     Inr (le_bytes 2 (int (length m2)) @ m2, nx, fin)))))"

definition handleHandshake :: "sv2_env \<Rightarrow> bytes \<Rightarrow> unit act" where
  "handleHandshake env chunk = (\<lambda>(c, s). case cn_hs c of
     None \<Rightarrow> ([], Inl (Error ''hs missing''), c, s)
   | Some hs \<Rightarrow>
       let buf = hs_buf hs @ chunk; c = c\<lparr>cn_hs := Some (hs\<lparr>hs_buf := buf\<rparr>)\<rparr>; len = nat (le_value (take 2 buf)) in
       if hs_m2Sent hs \<or> length buf < 2 \<or> length buf < 2 + len then ([], Inr (), c, s)
       else (case answer_m1 env (slice buf 2 (2 + len)) (hs_nx hs) of
           Inl e \<Rightarrow> ([], Inl e, c\<lparr>cn_hs := Some (hs\<lparr>hs_buf := drop (2 + len) buf\<rparr>)\<rparr>, s)
         | Inr (out, nx, fin) \<Rightarrow>
             let c = c\<lparr>cn_hs := Some \<lparr>hs_m2Sent = True, hs_nx = nx, hs_buf = []\<rparr>, cn_state := SetupPending,
                   cn_transport := Some (hr_sendCipher fin, hr_recvCipher fin), cn_ct := cn_ct c @ drop (2 + len) buf\<rparr> in
             act_then (emit (if cn_destroyed c then [] else [Wire (cn_id c) out])) (\<lambda>_.
             if drop (2 + len) buf = [] then act_done else handleCiphertext env) (c, s)))"

text \<open>\<^verbatim>\<open>onData\<close>: an exception destroys the socket.\<close>

definition onData_conn :: "sv2_env \<Rightarrow> bytes \<Rightarrow> conn \<times> mining_server \<Rightarrow> sv2_effect list \<times> conn \<times> mining_server" where
  "onData_conn env chunk = (\<lambda>(c, s).
     if cn_state c = Dead then ([], c, s)
     else case (if cn_state c = HandshakeM1 then handleHandshake env chunk (c, s)
                else handleCiphertext env (c\<lparr>cn_ct := cn_ct c @ chunk\<rparr>, s)) of
       (es, Inr _, c, s) \<Rightarrow> (es, c, s)
     | (es, Inl _, c, s) \<Rightarrow> (es, c\<lparr>cn_destroyed := True\<rparr>, s))"

section \<open>The server\<close>

definition accept_conn :: "sv2_env \<Rightarrow> mining_server \<Rightarrow> mining_server res" where
  "accept_conn env s =
     andthen (newNoiseNX (ev_crypto env) Responder (Some (ev_staticKey env))) (\<lambda>nx.
     let i = mv_nextConnId s;
         c = \<lparr>cn_id = i, cn_state = HandshakeM1, cn_hs = Some \<lparr>hs_m2Sent = False, hs_nx = nx, hs_buf = []\<rparr>, cn_transport = None,
              cn_plain = [], cn_channels = newChannelTable, cn_setup = None, cn_ct = [], cn_destroyed = False\<rparr>
     in Inr (s\<lparr>mv_conns := jsmap_set i c (mv_conns s), mv_nextConnId := i + 1\<rparr>))"

definition onData_server :: "sv2_env \<Rightarrow> int \<Rightarrow> bytes \<Rightarrow> mining_server \<Rightarrow> sv2_effect list \<times> mining_server" where
  "onData_server env i chunk s = (case jsmap_get (mv_conns s) i of
     None \<Rightarrow> ([], s)
   | Some c \<Rightarrow> (case onData_conn env chunk (c, s) of (es, c, s) \<Rightarrow> (es, s\<lparr>mv_conns := jsmap_set i c (mv_conns s)\<rparr>)))"

definition onClose_conn :: "int \<Rightarrow> mining_server \<Rightarrow> mining_server" where
  "onClose_conn i s = s\<lparr>mv_conns := jsmap_delete i (mv_conns s)\<rparr>"

text \<open>\<^verbatim>\<open>broadcastJob\<close>: the loop over the connections; an exception ends it.\<close>

fun broadcast_conns :: "sv2_env \<Rightarrow> stratum_job \<Rightarrow> int list \<Rightarrow> mining_server \<Rightarrow> sv2_effect list \<times> unit res \<times> mining_server" where
  "broadcast_conns env job [] s = ([], Inr (), s)"
| "broadcast_conns env job (i # is) s = (case jsmap_get (mv_conns s) i of
     None \<Rightarrow> broadcast_conns env job is s
   | Some c \<Rightarrow>
       if cn_state c \<noteq> Ready then broadcast_conns env job is s
       else (case act_each (\<lambda>ch. pushJobToChannel env (ch_id ch) job) (all_channels (cn_channels c)) (c, s) of
           (es, r, c, s) \<Rightarrow>
             let s = s\<lparr>mv_conns := jsmap_set i c (mv_conns s)\<rparr> in
             (case r of Inl e \<Rightarrow> (es, Inl e, s)
              | Inr _ \<Rightarrow> (case broadcast_conns env job is s of (es', r, s) \<Rightarrow> (es @ es', r, s)))))"

definition broadcastJobV2 :: "sv2_env \<Rightarrow> stratum_job \<Rightarrow> mining_server \<Rightarrow> sv2_effect list \<times> unit res \<times> mining_server" where
  "broadcastJobV2 env job s = broadcast_conns env job (jsmap_keys (mv_conns s)) s"

record custom_job =
  cj_requestId :: int
  cj_miningJobToken :: bytes
  cj_version :: int
  cj_coinbasePrefix :: bytes
  cj_coinbaseSuffix :: bytes

datatype custom_outcome = CustomOk | CustomNoTemplate | CustomNoChannel

definition hexToReversedBytes :: "string \<Rightarrow> bytes res" where
  "hexToReversedBytes hex = andthen (hexToBytes hex) (\<lambda>b. Inr (rev b))"

definition custom_message :: "channel_state \<Rightarrow> stratum_job \<Rightarrow> custom_job \<Rightarrow> bytes res" where
  "custom_message ch job args = andthen (hexToReversedBytes (jc_prevHashHexBE job)) (\<lambda>prev.
     encodeSetCustomMiningJob \<lparr>scm_channelId = ch_id ch, scm_requestId = cj_requestId args, scm_miningJobToken = cj_miningJobToken args,
       scm_version = cj_version args, scm_prevHash = prev, scm_minNtime = sj_ntimeMin job, scm_nbits = jc_bits job, scm_coinbaseTxVersion = 1,
       scm_coinbasePrefix = cj_coinbasePrefix args, scm_coinbaseTxInputNSequence = 0xffffffff, scm_coinbaseTxValueRemaining = 0,
       scm_coinbaseTxOutputs = cj_coinbaseSuffix args, scm_coinbaseTxLocktime = 0, scm_merklePath = []\<rparr>)"

text \<open>The loop over the connections of \<^verbatim>\<open>pushCustomJob\<close>.\<close>

fun custom_conns :: "sv2_env \<Rightarrow> ustring \<Rightarrow> custom_job \<Rightarrow> int list \<Rightarrow> mining_server \<Rightarrow> sv2_effect list \<times> custom_outcome res \<times> mining_server" where
  "custom_conns env user args [] s = ([], Inr CustomNoChannel, s)"
| "custom_conns env user args (i # is) s = (case jsmap_get (mv_conns s) i of
     None \<Rightarrow> custom_conns env user args is s
   | Some c \<Rightarrow>
       (case (if cn_state c \<noteq> Ready then None
              else find (\<lambda>ch. ch_userIdentity ch = user \<and> ch_kind ch = Extended) (all_channels (cn_channels c))) of
          None \<Rightarrow> custom_conns env user args is s
        | Some ch \<Rightarrow>
            (case ev_currentJob env of
               None \<Rightarrow> ([], Inr CustomNoTemplate, s)
             | Some job \<Rightarrow>
                 let jobId = nextSv2JobId (mv_jobIdCounter s) in
                 (case act_then (send_encoded env (custom_message ch job args)) (\<lambda>_.
                    on_conn (\<lambda>c. c\<lparr>cn_channels := update_channel_state (ch_id ch) (\<lambda>ch. ch\<lparr>ch_lastJobId := jobId\<rparr>) (cn_channels c)\<rparr>))
                    (c, s\<lparr>mv_jobIdCounter := jobId\<rparr>) of
                    (es, r, c, s) \<Rightarrow> (es, andthen r (\<lambda>_. Inr CustomOk), s\<lparr>mv_conns := jsmap_set i c (mv_conns s)\<rparr>)))))"

definition pushCustomJob :: "sv2_env \<Rightarrow> ustring \<Rightarrow> custom_job \<Rightarrow> mining_server \<Rightarrow> sv2_effect list \<times> custom_outcome res \<times> mining_server" where
  "pushCustomJob env user args s = custom_conns env user args (jsmap_keys (mv_conns s)) s"

section \<open>Actions that credit nothing\<close>

abbreviation quiet :: "'a act \<Rightarrow> bool" where
  "quiet \<equiv> avoids (range ShareOut)"

lemma quietD: "quiet m \<Longrightarrow> ShareOut e \<notin> set (fst (m st))"
  unfolding avoids_def by blast

lemma quiet_send [avoids_intros]: "quiet (send env f)"
  by (auto simp: avoids_def send_def split: option.splits sum.splits)

lemma quiet_send_encoded [avoids_intros]: "quiet (send_encoded env r)"
  unfolding send_encoded_def by (intro avoids_intros)

lemma quiet_submit_error [avoids_intros]: "quiet (submit_error env i q c)"
  unfolding submit_error_def by (intro avoids_intros)

section \<open>Room for sending\<close>

text \<open>The sending counter can still encrypt \<open>k\<close> bytes.\<close>

definition room :: "nat \<Rightarrow> conn \<Rightarrow> bool" where
  "room k c \<longleftrightarrow> (case cn_transport c of None \<Rightarrow> True | Some (out, _) \<Rightarrow> cs_n out + int k \<le> MAX_NONCE)"

lemma enc_segments_total:
  "cs_n cs + int (length p) \<le> MAX_NONCE \<Longrightarrow>
   \<exists>w cs'. enc_segments cr p cs = Inr (w, cs') \<and> cs_n cs' \<le> cs_n cs + int (length p)"
proof (induction cr p cs rule: enc_segments.induct)
  case (1 cr p cs)
  show ?case
  proof (cases "p = []")
    case False
    let ?p = "take NOISE_MAX_PLAINTEXT p" and ?q = "drop NOISE_MAX_PLAINTEXT p"
    have l: "0 < length p" "length ?q = length p - NOISE_MAX_PLAINTEXT" using False by simp_all
    have "\<exists>ct cs1. encryptWithAd cr [] ?p cs = Inr (ct, cs1) \<and> cs_n cs1 \<le> cs_n cs + 1"
      using "1.prems" l by (auto simp: encryptWithAd_def nonceBytes_def throw_if_def split: option.split)
    then obtain ct cs1 where e: "encryptWithAd cr [] ?p cs = Inr (ct, cs1)" "cs_n cs1 \<le> cs_n cs + 1" by blast
    have q: "int (length ?q) \<le> int (length p) - 1" using l by (auto simp: noise_sizes)
    then have "cs_n cs1 + int (length ?q) \<le> MAX_NONCE" using e(2) "1.prems" by linarith
    from "1.IH" [OF False e(1) refl this] obtain w cs' where "enc_segments cr ?q cs1 = Inr (w, cs')" "cs_n cs' \<le> cs_n cs1 + int (length ?q)"
      by blast
    then show ?thesis using e q False by (subst enc_segments.simps) auto
  qed (simp add: enc_segments.simps)
qed

lemma send_total:
  assumes "room (length f) c"
  shows "\<exists>es c'. send env f (c, s) = (es, Inr (), c', s) \<and> cn_channels c' = cn_channels c \<and> (\<forall>k. room (length f + k) c \<longrightarrow> room k c')"
proof (cases "cn_transport c")
  case None
  then show ?thesis by (simp add: send_def room_def)
next
  case (Some t)
  obtain out inp where t: "t = (out, inp)" by fastforce
  obtain w cs' where e: "enc_segments (ev_crypto env) f out = Inr (w, cs')" "cs_n cs' \<le> cs_n out + int (length f)"
    using enc_segments_total [of out f "ev_crypto env"] assms by (auto simp: room_def Some t)
  then show ?thesis by (auto simp: send_def room_def Some t encryptFrame_def)
qed

lemma submit_success_frame: "\<exists>f. encodeSubmitSharesSuccess m = Inr f \<and> length f = 26"
  by (simp add: encodeSubmitSharesSuccess_def payloadSubmitSharesSuccess_def encodeFrame_def writer_defs w_u64_def SV2_MAX_PAYLOAD_LEN_def Let_def)

lemma shares_sum_total: "js_is_finite d \<Longrightarrow> \<exists>n. shares_sum d = Inr n"
  by (cases d) (auto simp: shares_sum_def Let_def)

section \<open>Submitting a share\<close>

lemma submit_ok_run:
  assumes "get_channel i (cn_channels c) = Some ch" "ch_id ch = i" "lookupJob jobId s = Some job" "js_is_finite (ch_shareDifficulty ch)"
    and "processSubmit (ev_b3 env) (ev_sha env) (ev_now env) ch (job_context.truncate job) nonce ntime en (jc_height job)
      (networkDifficultyFromBits (jc_bits job)) (mv_pads s) = (Inr (SubmitOk ok ev, block), pads)"
    and "room 26 c"
  shows "\<exists>es c'. submitShare env i seq jobId nonce ntime en (c, s) = (es, Inr (), c', s\<lparr>mv_pads := pads\<rparr>) \<and>
    (\<forall>e. ShareOut e \<in> set es \<longleftrightarrow> e = ev) \<and>
    cn_channels c' = update_channel_state i (\<lambda>ch. ch\<lparr>ch_lastAcceptedSequence := seq\<rparr>) (cn_channels c) \<and> (\<forall>k. room (26 + k) c \<longrightarrow> room k c')"
proof -
  let ?c = "c\<lparr>cn_channels := update_channel_state i (\<lambda>ch. ch\<lparr>ch_lastAcceptedSequence := seq\<rparr>) (cn_channels c)\<rparr>"
  let ?s = "s\<lparr>mv_pads := pads\<rparr>"
  obtain n where n: "shares_sum (ch_shareDifficulty ch) = Inr n" using shares_sum_total [OF assms(4)] by blast
  obtain f where f: "encodeSubmitSharesSuccess \<lparr>ssc_channelId = i, ssc_lastSequenceNumber = seq, ssc_newSubmitsAcceptedCount = 1,
      ssc_newSharesSum = n\<rparr> = Inr f" "length f = 26" using submit_success_frame by blast
  have room: "room (26 + k) ?c = room (26 + k) c" "room 26 ?c = room 26 c" for k by (simp_all add: room_def)
  have "room (length f) ?c" using assms(6) by (simp add: f(2) room)
  from send_total [OF this] obtain es c' where c': "send env f (?c, ?s) = (es, Inr (), c', ?s)" "cn_channels c' = cn_channels ?c"
    "\<forall>k. room (26 + k) ?c \<longrightarrow> room k c'" unfolding f(2) by blast
  have q: "ShareOut e \<notin> set es" for e using quietD [OF quiet_send] c'(1) by (metis fst_conv)
  let ?es = "(case block of None \<Rightarrow> [] | Some b \<Rightarrow> [BlockOut b]) @ es @ [ShareOut ev]"
  have "submitShare env i seq jobId nonce ntime en (c, s) = (?es, Inr (), c', ?s)"
    by (simp add: submitShare_def assms(1,2,3,5) act_then_def act_of_def emit_def replySubmit_def on_conn_def send_encoded_def n f(1) c'(1) Let_def)
  moreover have "ShareOut e \<in> set ?es \<longleftrightarrow> e = ev" for e using q by (auto split: option.splits)
  moreover have "cn_channels c' = update_channel_state i (\<lambda>ch. ch\<lparr>ch_lastAcceptedSequence := seq\<rparr>) (cn_channels c)" using c'(2) by simp
  moreover have "\<forall>k. room (26 + k) c \<longrightarrow> room k c'" using c'(3) room by blast
  ultimately show ?thesis by blast
qed

text \<open>Every channel is stored under its id.\<close>

definition table_ok :: "channel_table \<Rightarrow> bool" where
  "table_ok t \<longleftrightarrow> (\<forall>i ch. get_channel i t = Some ch \<longrightarrow> ch_id ch = i)"

lemma table_ok_ops:
  "table_ok newChannelTable"
  "table_ok t \<Longrightarrow> table_ok (delete_channel i t)"
  "table_ok t \<Longrightarrow> (\<And>ch. ch_id (f ch) = ch_id ch) \<Longrightarrow> table_ok (update_channel_state i f t)"
  "table_ok t \<Longrightarrow> table_ok (snd (open_channel rand kind rid user d pl t))"
  by (auto simp: table_ok_def newChannelTable_def get_channel_def delete_channel_def update_channel_state_def open_channel_def
      jsmap_get_delete jsmap_get_set Let_def split: option.splits if_splits sum.splits)

text \<open>The verdict of a submission, without cache and connection.\<close>

definition submit_verdict :: "sv2_env \<Rightarrow> channel_state \<Rightarrow> stratum_job \<Rightarrow> int \<Rightarrow> int \<Rightarrow> bytes \<Rightarrow> share_check res" where
  "submit_verdict env ch job nonce ntime en =
     andthen (fullExtranonce ch en) (\<lambda>x. share_verdict (ev_b3 env) (ev_sha env) (submit_input ch (job_context.truncate job) ntime nonce x))"

definition sv2_event :: "sv2_env \<Rightarrow> channel_state \<Rightarrow> stratum_job \<Rightarrow> share_ok \<Rightarrow> share_event" where
  "sv2_event env ch job ok = submit_event (ev_now env) ch (jc_height job) (networkDifficultyFromBits (jc_bits job)) ok"

lemma processSubmit_verdict:
  assumes "pads_ok (ev_b3 env) pads"
    and "processSubmit (ev_b3 env) (ev_sha env) (ev_now env) ch (job_context.truncate job) nonce ntime en (jc_height job)
      (networkDifficultyFromBits (jc_bits job)) pads = (r, pads')"
  shows "pads_ok (ev_b3 env) pads'"
    "(\<exists>b. r = Inr (SubmitOk ok ev, b)) \<longleftrightarrow> submit_verdict env ch job nonce ntime en = Inr (CheckOk ok) \<and> ev = sv2_event env ch job ok"
proof -
  have "pads_ok (ev_b3 env) pads' \<and>
    ((\<exists>b. r = Inr (SubmitOk ok ev, b)) \<longleftrightarrow> submit_verdict env ch job nonce ntime en = Inr (CheckOk ok) \<and> ev = sv2_event env ch job ok)"
  proof (cases "fullExtranonce ch en")
    case (Inl e)
    then show ?thesis using assms by (auto simp: processSubmit_def submit_verdict_def)
  next
    case (Inr x)
    let ?i = "submit_input ch (job_context.truncate job) ntime nonce x"
    obtain v p where v: "validateShare (ev_b3 env) (ev_sha env) (ev_now env) ?i pads = (v, p)" by fastforce
    have "v = share_verdict (ev_b3 env) (ev_sha env) ?i" "pads_ok (ev_b3 env) p"
      using validateShare_verdict [OF assms(1), of "ev_sha env" "ev_now env" ?i] by (simp_all add: v)
    then show ?thesis
      using assms(2) by (auto simp: processSubmit_def submit_verdict_def sv2_event_def Inr v Let_def andthen_def split: sum.splits share_check.splits)
  qed
  then show "pads_ok (ev_b3 env) pads'"
    "(\<exists>b. r = Inr (SubmitOk ok ev, b)) \<longleftrightarrow> submit_verdict env ch job nonce ntime en = Inr (CheckOk ok) \<and> ev = sv2_event env ch job ok" by blast+
qed

lemma share_verdict_finite: "share_verdict b3 sha i = Inr (CheckOk ok) \<Longrightarrow> js_is_finite (si_shareDifficulty i)"
  by (cases "buildHeader sha i")
    (auto simp: share_verdict_def targetFromShareDifficulty_def throw_if_def andthen_eq_Inr Let_def split: if_splits)

lemma verdict_finite: "submit_verdict env ch job nonce ntime en = Inr (CheckOk ok) \<Longrightarrow> js_is_finite (ch_shareDifficulty ch)"
  by (auto simp: submit_verdict_def andthen_eq_Inr submit_input_def Let_def dest!: share_verdict_finite)

lemma submitShare_credits:
  assumes "pads_ok (ev_b3 env) (mv_pads s)" "table_ok (cn_channels c)" "room 26 c"
  shows "ShareOut e \<in> set (fst (submitShare env i seq jobId nonce ntime en (c, s))) \<longleftrightarrow>
    (\<exists>ch job ok. get_channel i (cn_channels c) = Some ch \<and> lookupJob jobId s = Some job \<and>
       submit_verdict env ch job nonce ntime en = Inr (CheckOk ok) \<and> e = sv2_event env ch job ok)"
proof -
  have err: "ShareOut e \<notin> set (fst (submit_error env i seq m st))" for m st by (rule quietD) (rule quiet_submit_error)
  show ?thesis
  proof (cases "get_channel i (cn_channels c)")
    case None
    then show ?thesis using err by (simp add: submitShare_def)
  next
    case ch: (Some ch)
    show ?thesis
    proof (cases "lookupJob jobId s")
      case None
      then show ?thesis using err by (simp add: submitShare_def ch)
    next
      case job: (Some job)
      obtain r pads where p: "processSubmit (ev_b3 env) (ev_sha env) (ev_now env) ch (job_context.truncate job) nonce ntime en (jc_height job)
          (networkDifficultyFromBits (jc_bits job)) (mv_pads s) = (r, pads)" by fastforce
      note v = processSubmit_verdict(2) [OF assms(1) p]
      have id: "ch_id ch = i" using assms(2) ch by (simp add: table_ok_def)
      consider x where "r = Inl x" | reason b where "r = Inr (SubmitFail reason, b)" | ok ev b where "r = Inr (SubmitOk ok ev, b)"
        by (metis prod.exhaust submit_outcome.exhaust sum.exhaust)
      then show ?thesis
      proof cases
        case 1
        then show ?thesis using v by (auto simp: submitShare_def ch job p act_then_def act_of_def)
      next
        case (2 reason b)
        have "ShareOut e \<notin> set (fst (submitShare env i seq jobId nonce ntime en (c, s)))"
          using err [of "reason_text reason" "(c, s\<lparr>mv_pads := pads\<rparr>)"]
          by (auto simp: submitShare_def ch job p 2 act_then_def act_of_def emit_def replySubmit_def id split: option.splits prod.splits)
        moreover have "submit_verdict env ch job nonce ntime en \<noteq> Inr (CheckOk ok)" for ok using v [of ok "sv2_event env ch job ok"] 2 by simp
        ultimately show ?thesis using ch job by simp
      next
        case (3 ok ev b)
        then have ok: "submit_verdict env ch job nonce ntime en = Inr (CheckOk ok)" "ev = sv2_event env ch job ok" using v by blast+
        from submit_ok_run [OF ch id job verdict_finite [OF ok(1)] p [unfolded 3] assms(3), of seq]
        have "ShareOut e \<in> set (fst (submitShare env i seq jobId nonce ntime en (c, s))) \<longleftrightarrow> e = ev" by (metis fst_conv)
        then show ?thesis using ok ch job by auto
      qed
    qed
  qed
qed

text \<open>
  C5: a submission to a Stratum V2 channel is credited exactly when the connection has the
  channel, the server knows the job and the proof of work of the header they determine passes
  the validator; the share credited is the one of that channel, job and header.
  Every other submission credits nothing, whatever the pad cache holds.
\<close>
theorem sv2_submit_credits_exactly:
  assumes "pads_ok (ev_b3 env) (mv_pads s)" "table_ok (cn_channels c)" "room 26 c"
  shows "ShareOut e \<in> set (fst (submitShare env i seq jobId nonce ntime en (c, s))) \<longleftrightarrow>
    (\<exists>ch job ok. get_channel i (cn_channels c) = Some ch \<and> lookupJob jobId s = Some job \<and>
       submit_verdict env ch job nonce ntime en = Inr (CheckOk ok) \<and> e = sv2_event env ch job ok)"
  using assms by (rule submitShare_credits)

text \<open>
  C39: the server keeps no record of the shares of a channel, so a submission that was
  credited is credited again, as the same work, when the miner sends it once more with any sequence number.
\<close>
theorem sv2_replay_credited:
  assumes "pads_ok (ev_b3 env) (mv_pads s)" "table_ok (cn_channels c)" "room 52 c"
    and "ShareOut e \<in> set (fst (submitShare env i seq jobId nonce ntime en (c, s)))"
  shows "\<exists>es c' s'. submitShare env i seq jobId nonce ntime en (c, s) = (es, Inr (), c', s') \<and>
    ShareOut e \<in> set (fst (submitShare env i seq' jobId nonce ntime en (c', s')))"
proof -
  have room: "room 26 c" "room (26 + 26) c" using assms(3) by (auto simp: room_def split: option.splits)
  obtain ch job ok where v: "get_channel i (cn_channels c) = Some ch" "lookupJob jobId s = Some job"
      "submit_verdict env ch job nonce ntime en = Inr (CheckOk ok)" "e = sv2_event env ch job ok"
    using submitShare_credits [OF assms(1,2) room(1)] assms(4) by blast
  obtain r pads where p: "processSubmit (ev_b3 env) (ev_sha env) (ev_now env) ch (job_context.truncate job) nonce ntime en (jc_height job)
      (networkDifficultyFromBits (jc_bits job)) (mv_pads s) = (r, pads)" by fastforce
  then obtain b where r: "r = Inr (SubmitOk ok e, b)" using processSubmit_verdict(2) [OF assms(1) p] v by blast
  have id: "ch_id ch = i" using assms(2) v(1) by (simp add: table_ok_def)
  from submit_ok_run [OF v(1) id v(2) verdict_finite [OF v(3)] p [unfolded r] room(1), of seq] obtain es c' where
    c': "submitShare env i seq jobId nonce ntime en (c, s) = (es, Inr (), c', s\<lparr>mv_pads := pads\<rparr>)"
    "cn_channels c' = update_channel_state i (\<lambda>ch. ch\<lparr>ch_lastAcceptedSequence := seq\<rparr>) (cn_channels c)" "room 26 c'"
    using room(2) by blast
  let ?ch = "ch\<lparr>ch_lastAcceptedSequence := seq\<rparr>"
  have "pads_ok (ev_b3 env) (mv_pads (s\<lparr>mv_pads := pads\<rparr>))" using processSubmit_verdict(1) [OF assms(1) p] by simp
  moreover have "table_ok (cn_channels c')" using assms(2) c'(2) by (simp add: table_ok_ops)
  moreover have "get_channel i (cn_channels c') = Some ?ch"
    using v(1) c'(2) by (simp add: get_channel_def update_channel_state_def jsmap_get_set)
  moreover have "lookupJob jobId (s\<lparr>mv_pads := pads\<rparr>) = Some job" using v(2) by (simp add: lookupJob_def)
  moreover have "submit_verdict env ?ch job nonce ntime en = Inr (CheckOk ok)" "e = sv2_event env ?ch job ok"
    using v(3,4) by (simp_all add: submit_verdict_def sv2_event_def submit_event_def submit_input_def fullExtranonce_def)
  ultimately have "ShareOut e \<in> set (fst (submitShare env i seq' jobId nonce ntime en (c', s\<lparr>mv_pads := pads\<rparr>)))"
    using c'(3) submitShare_credits [of env "s\<lparr>mv_pads := pads\<rparr>" c'] by blast
  with c'(1) show ?thesis by blast
qed

text \<open>
  The handlers of submissions are asynchronous and their promises are dropped: a submission
  whose payload does not decode, or whose extranonce does not have the channel's length, is a
  rejection that nothing handles.
\<close>

theorem sv2_bad_submit_unhandled:
  assumes "cn_state c = Ready" "fh_msgType (fr_header f) = MSG_SUBMIT_SHARES_EXTENDED" "fr_payload f = payload"
    and "(\<exists>x. decodeSubmitSharesExtended payload = Inl x) \<or>
      (\<exists>m ch job. decodeSubmitSharesExtended payload = Inr m \<and> get_channel (sse_channelId m) (cn_channels c) = Some ch \<and>
         lookupJob (sse_jobId m) s = Some job \<and> length (sse_extranonce m) \<noteq> ch_extranonceSize ch)"
  shows "\<exists>x. Unhandled x \<in> set (fst (dispatch env f (c, s)))"
  using assms
  by (auto simp: dispatch_def detached_def handleSubmitExt_def act_then_def act_of_def submitShare_def processSubmit_def fullExtranonce_def
      throw_if_def MSG_SUBMIT_SHARES_EXTENDED_def MSG_SUBMIT_SHARES_STANDARD_def
      MSG_OPEN_STD_CHANNEL_def MSG_OPEN_EXT_CHANNEL_def Let_def)

section \<open>A channel with one job\<close>

definition sample_channel :: channel_state where
  "sample_channel = \<lparr>ch_id = 1, ch_kind = Extended, ch_requestId = 1, ch_userIdentity = [], ch_extranoncePrefix = [0, 0, 0, 1],
     ch_extranonceSize = 4, ch_groupChannelId = 0, ch_targetBE = [], ch_shareDifficulty = Fin 1, ch_lastAcceptedSequence = 0,
     ch_lastJobId = 5, ch_cleanJobs = True\<rparr>"

definition sample_conn :: conn where
  "sample_conn = \<lparr>cn_id = 1, cn_state = Ready, cn_hs = None, cn_transport = Some (sample_cipher, sample_cipher), cn_plain = [],
     cn_channels = \<lparr>ct_byId = [(1, sample_channel)], ct_nextId = 2\<rparr>, cn_setup = None, cn_ct = [], cn_destroyed = False\<rparr>"

definition sample_env :: sv2_env where
  "sample_env = \<lparr>ev_crypto = sample_suite, ev_b3 = sample_b3, ev_sha = sample_sha, ev_rand = (\<lambda>n. replicate n 0), ev_ephemeral = [], ev_now = 0,
     ev_cert = \<lparr>ce_version = 0, ce_validFrom = 0, ce_notValidAfter = 0, ce_publicKey = [], ce_signature = []\<rparr>,
     ev_staticKey = ([], []), ev_defaultDifficulty = Fin 1, ev_currentJob = None\<rparr>"

definition sample_server :: "stratum_job \<Rightarrow> pad_cache \<Rightarrow> mining_server" where
  "sample_server job pads = \<lparr>mv_conns = [(1, sample_conn)], mv_nextConnId = 2, mv_jobIdCounter = 5, mv_jobsBySv2Id = [(5, job)], mv_pads = pads\<rparr>"

lemma sample_state:
  "table_ok (cn_channels sample_conn)" "room 52 sample_conn" "room 26 sample_conn"
  "get_channel 1 (cn_channels sample_conn) = Some sample_channel" "lookupJob 5 (sample_server job pads) = Some job"
  "mv_pads (sample_server job pads) = pads" "ev_b3 sample_env = sample_b3"
  by (simp_all add: table_ok_def sample_conn_def sample_channel_def get_channel_def room_def sample_cipher_def MAX_NONCE_def
      lookupJob_def sample_server_def sample_env_def)

lemma sample_submission:
  "\<exists>job pads ok. newPadCache 8 = Inr pads \<and> pads_ok (ev_b3 sample_env) (mv_pads (sample_server job pads)) \<and>
     submit_verdict sample_env sample_channel job 3 2 [0, 0, 0, 2] = Inr (CheckOk ok)"
proof -
  obtain job ctr where job: "buildJob sample_sha sample_address sample_template True 0 = Inr (job, ctr)"
    using sample_coinbase by (auto simp: buildJob_def Let_def computeMerkleBranches_def sample_template_def)
  obtain pads where pads: "newPadCache 8 = Inr pads" by (simp add: newPadCache_def)
  then have "pads_ok sample_b3 pads" using newPadCache_ok by blast
  moreover have "bytesToHex [0, 0, 0, 1] = ''00000001''" "bytesToHex [0, 0, 0, 2] = ''00000002''" by code_simp+
  moreover have "fullExtranonce sample_channel [0, 0, 0, 2] = Inr [0, 0, 0, 1, 0, 0, 0, 2]" by code_simp
  ultimately show ?thesis
    using sample_block [OF job] pads
    by (auto simp: sample_state submit_verdict_def submit_input_def sample_channel_def sample_env_def Let_def)
qed

theorem sv2_submit_credits_exactly_witness:
  "\<exists>job pads ok. newPadCache 8 = Inr pads \<and>
     ShareOut (sv2_event sample_env sample_channel job ok) \<in>
       set (fst (submitShare sample_env 1 0 5 3 2 [0, 0, 0, 2] (sample_conn, sample_server job pads)))"
proof -
  obtain job pads ok where "newPadCache 8 = Inr pads" and p: "pads_ok (ev_b3 sample_env) (mv_pads (sample_server job pads))"
    and "submit_verdict sample_env sample_channel job 3 2 [0, 0, 0, 2] = Inr (CheckOk ok)" using sample_submission by blast
  then show ?thesis using sv2_submit_credits_exactly [OF p sample_state(1,3), of _ 1 0 5 3 2 "[0, 0, 0, 2]"] sample_state(4,5) by blast
qed

theorem sv2_replay_credited_witness:
  "\<exists>job pads e es c' s'. newPadCache 8 = Inr pads \<and>
     submitShare sample_env 1 0 5 3 2 [0, 0, 0, 2] (sample_conn, sample_server job pads) = (es, Inr (), c', s') \<and>
     ShareOut e \<in> set es \<and> ShareOut e \<in> set (fst (submitShare sample_env 1 1 5 3 2 [0, 0, 0, 2] (c', s')))"
proof -
  obtain job pads ok where n: "newPadCache 8 = Inr pads" and p: "pads_ok (ev_b3 sample_env) (mv_pads (sample_server job pads))"
    and v: "submit_verdict sample_env sample_channel job 3 2 [0, 0, 0, 2] = Inr (CheckOk ok)" using sample_submission by blast
  have e: "ShareOut (sv2_event sample_env sample_channel job ok) \<in>
      set (fst (submitShare sample_env 1 0 5 3 2 [0, 0, 0, 2] (sample_conn, sample_server job pads)))"
    using submitShare_credits [OF p sample_state(1,3), of _ 1 0 5 3 2 "[0, 0, 0, 2]"] sample_state(4,5) v by blast
  from sv2_replay_credited [OF p sample_state(1,2) e, of 1] n e show ?thesis by (metis fst_conv)
qed

end
