(* ===== verification/Spec2Isabelle.thy ===== *)
theory Spec2Isabelle
  imports Stratum_System Payouts Sv2_Messages Pool_Daemon Ipc Sv2_Mining_Server
begin

text \<open>
  Verification of the B3Chain mining pool.
\<close>

end
